(* ===== verification/Prelude.thy ===== *)
theory Prelude
  imports Main "HOL-Library.Word"
begin

text \<open>
  Machine integers, wide strings, status codes, little-endian byte layouts and the result
  type of kernel code, shared by every component of the development.
\<close>

unbundle bit_operations_syntax

named_theorems kernel_simps \<open>equations that execute kernel services on a state\<close>
named_theorems layout_simps \<open>equations that measure and split structures laid out as bytes\<close>

subsection \<open>Machine types\<close>

type_synonym u8 = "8 word"
type_synonym u16 = "16 word"
type_synonym u32 = "32 word"
type_synonym wchar = u16
type_synonym wstring = "wchar list"
type_synonym ntstatus = u32
type_synonym addr = nat

text \<open>A wide literal \<open>L"..."\<close>, without its terminator.\<close>

definition wide :: "string \<Rightarrow> wstring" where
  "wide s = map of_char s"

lemma length_wide [simp]: "length (wide s) = length s"
  by (simp add: wide_def)

subsection \<open>NTSTATUS\<close>

text \<open>\<open>NT_SUCCESS(Status)\<close> is \<open>((NTSTATUS)(Status)) >= 0\<close> on a signed 32-bit value.\<close>

definition NT_SUCCESS :: "ntstatus \<Rightarrow> bool" where
  "NT_SUCCESS s \<longleftrightarrow> 0 \<le> sint s"

abbreviation STATUS_SUCCESS :: ntstatus where "STATUS_SUCCESS \<equiv> 0"
abbreviation STATUS_BUFFER_OVERFLOW :: ntstatus where "STATUS_BUFFER_OVERFLOW \<equiv> 0x80000005"
abbreviation STATUS_UNSUCCESSFUL :: ntstatus where "STATUS_UNSUCCESSFUL \<equiv> 0xC0000001"
abbreviation STATUS_INFO_LENGTH_MISMATCH :: ntstatus where
  "STATUS_INFO_LENGTH_MISMATCH \<equiv> 0xC0000004"
abbreviation STATUS_INVALID_PARAMETER :: ntstatus where
  "STATUS_INVALID_PARAMETER \<equiv> 0xC000000D"
abbreviation STATUS_BUFFER_TOO_SMALL :: ntstatus where "STATUS_BUFFER_TOO_SMALL \<equiv> 0xC0000023"
abbreviation STATUS_OBJECT_NAME_COLLISION :: ntstatus where
  "STATUS_OBJECT_NAME_COLLISION \<equiv> 0xC0000035"
abbreviation STATUS_INSUFFICIENT_RESOURCES :: ntstatus where
  "STATUS_INSUFFICIENT_RESOURCES \<equiv> 0xC000009A"
abbreviation STATUS_FLT_DO_NOT_ATTACH :: ntstatus where
  "STATUS_FLT_DO_NOT_ATTACH \<equiv> 0xC01C000F"

lemma NT_SUCCESS_codes [simp]:
  "NT_SUCCESS STATUS_SUCCESS"
  "\<not> NT_SUCCESS STATUS_BUFFER_OVERFLOW"
  "\<not> NT_SUCCESS STATUS_UNSUCCESSFUL"
  "\<not> NT_SUCCESS STATUS_INFO_LENGTH_MISMATCH"
  "\<not> NT_SUCCESS STATUS_INVALID_PARAMETER"
  "\<not> NT_SUCCESS STATUS_BUFFER_TOO_SMALL"
  "\<not> NT_SUCCESS STATUS_OBJECT_NAME_COLLISION"
  "\<not> NT_SUCCESS STATUS_INSUFFICIENT_RESOURCES"
  by (simp_all add: NT_SUCCESS_def)

subsection \<open>Kernel code that can bring the machine down\<close>

text \<open>
  A kernel routine either finishes or stops the machine. The left summand is the reason of
  the bug check: a bad pointer handed to the pool, a null or an unset pointer followed, a
  read or a write outside the memory it was meant for.
\<close>

datatype bugcheck =
    BAD_POOL_CALLER
  | NULL_DEREFERENCE
  | WILD_POINTER
  | PAGE_FAULT
  | READ_OVERRUN
  | WRITE_OVERRUN

fun and_then :: "'e + 'a \<Rightarrow> ('a \<Rightarrow> 'e + 'b) \<Rightarrow> 'e + 'b" where
  "and_then (Inl e) f = Inl e"
| "and_then (Inr x) f = f x"

lemma and_then_Inr_iff:
  "and_then r f = Inr y \<longleftrightarrow> (\<exists>x. r = Inr x \<and> f x = Inr y)"
  by (cases r) auto

lemma and_then_Inl_iff:
  "and_then r f = Inl e \<longleftrightarrow> r = Inl e \<or> (\<exists>x. r = Inr x \<and> f x = Inl e)"
  by (cases r) auto

lemma and_then_cong:
  "r = r' \<Longrightarrow> (\<And>x. r' = Inr x \<Longrightarrow> f x = g x) \<Longrightarrow> and_then r f = and_then r' g"
  by (cases r') auto

subsection \<open>Little-endian integers\<close>

definition le16 :: "u16 \<Rightarrow> u8 list" where
  "le16 w = [ucast w, ucast (drop_bit 8 w)]"

definition le32 :: "u32 \<Rightarrow> u8 list" where
  "le32 w = [ucast w, ucast (drop_bit 8 w), ucast (drop_bit 16 w), ucast (drop_bit 24 w)]"

text \<open>A read past the end of the bytes gives 0: the readers below check lengths first.\<close>

definition byte_at :: "u8 list \<Rightarrow> nat \<Rightarrow> u8" where
  "byte_at bs i = (if i < length bs then bs ! i else 0)"

definition u16_at :: "u8 list \<Rightarrow> nat \<Rightarrow> u16" where
  "u16_at bs i = ucast (byte_at bs i) OR push_bit 8 (ucast (byte_at bs (i + 1)))"

definition u32_at :: "u8 list \<Rightarrow> nat \<Rightarrow> u32" where
  "u32_at bs i = ucast (byte_at bs i) OR push_bit 8 (ucast (byte_at bs (i + 1)))
     OR push_bit 16 (ucast (byte_at bs (i + 2))) OR push_bit 24 (ucast (byte_at bs (i + 3)))"

lemma length_le16 [simp, layout_simps]: "length (le16 w) = 2"
  by (simp add: le16_def)

lemma length_le32 [simp, layout_simps]: "length (le32 w) = 4"
  by (simp add: le32_def)

lemma le16_join:
  "ucast (ucast w :: u8) OR push_bit 8 (ucast (ucast (drop_bit 8 w) :: u8)) = (w :: u16)"
  by (rule bit_word_eqI) (auto simp: bit_simps)

lemma le32_join:
  "ucast (ucast w :: u8) OR push_bit 8 (ucast (ucast (drop_bit 8 w) :: u8))
     OR push_bit 16 (ucast (ucast (drop_bit 16 w) :: u8))
     OR push_bit 24 (ucast (ucast (drop_bit 24 w) :: u8)) = (w :: u32)"
proof (rule bit_word_eqI)
  fix n assume "n < LENGTH(32)"
  then consider "n < 8" | "8 \<le> n \<and> n < 16" | "16 \<le> n \<and> n < 24" | "24 \<le> n \<and> n < 32"
    by fastforce
  then show "bit (ucast (ucast w :: u8) OR push_bit 8 (ucast (ucast (drop_bit 8 w) :: u8))
     OR push_bit 16 (ucast (ucast (drop_bit 16 w) :: u8))
     OR push_bit 24 (ucast (ucast (drop_bit 24 w) :: u8)) :: u32) n = bit w n"
    by cases (auto simp: bit_simps)
qed

lemma u16_at_le16: "u16_at (xs @ le16 w @ ys) (length xs) = w"
  by (simp add: u16_at_def byte_at_def le16_def nth_append le16_join)

lemma u32_at_le32: "u32_at (xs @ le32 w @ ys) (length xs) = w"
  by (simp add: u32_at_def byte_at_def le32_def nth_append le32_join)

lemma byte_at_append: "byte_at (xs @ b # ys) (length xs) = b"
  by (simp add: byte_at_def)

text \<open>Wide characters as bytes, and back.\<close>

fun wchars_bytes :: "wstring \<Rightarrow> u8 list" where
  "wchars_bytes [] = []"
| "wchars_bytes (c # cs) = le16 c @ wchars_bytes cs"

fun bytes_wchars :: "u8 list \<Rightarrow> wstring" where
  "bytes_wchars (a # b # bs) = (ucast a OR push_bit 8 (ucast b)) # bytes_wchars bs"
| "bytes_wchars bs = []"

lemma length_wchars_bytes [simp, layout_simps]: "length (wchars_bytes cs) = 2 * length cs"
  by (induction cs) simp_all

lemma bytes_wchars_inverse [simp]: "bytes_wchars (wchars_bytes cs) = cs"
  by (induction cs) (simp_all add: le16_def le16_join)

lemma wchars_bytes_append: "wchars_bytes (xs @ ys) = wchars_bytes xs @ wchars_bytes ys"
  by (induction xs) simp_all

subsection \<open>Words and lengths\<close>

lemma unat_of_nat_small32: "n < 2 ^ 32 \<Longrightarrow> unat (of_nat n :: u32) = n"
  by (simp add: unsigned_of_nat take_bit_nat_eq_self)

lemma unat_of_nat_le32: "n \<le> 4294967295 \<Longrightarrow> unat (of_nat n :: u32) = n"
  by (rule unat_of_nat_small32) simp

lemma unat_of_nat_small16: "n < 2 ^ 16 \<Longrightarrow> unat (of_nat n :: u16) = n"
  by (simp add: unsigned_of_nat take_bit_nat_eq_self)

lemma unat_u16_bound [simp]: "unat (w :: u16) < 65536"
  using unsigned_less [of w] by simp

lemma unat_u32_bound [simp]: "unat (w :: u32) < 4294967296"
  using unsigned_less [of w] by simp

lemma unat_u32_add: "unat a + unat b < 2 ^ 32 \<Longrightarrow> unat (a + b :: u32) = unat a + unat b"
  by (simp add: unat_word_ariths)

lemma unat_u16_add: "unat a + unat b < 2 ^ 16 \<Longrightarrow> unat (a + b :: u16) = unat a + unat b"
  by (simp add: unat_word_ariths)

lemma unat_u32_diff: "b \<le> a \<Longrightarrow> unat (a - b :: u32) = unat a - unat b"
  by (simp add: unat_sub)

end
