(* ===== verification/Pool.thy ===== *)
theory Pool
  imports Prelude
begin

text \<open>
  The nonpaged pool as the drivers use it. A pool address names one allocation for ever:
  the address is the number of the request that was served. Whether the \<open>n\<close>-th request is
  served is not decided by the drivers, so it is the field \<open>granted\<close>, over which every
  theorem quantifies. Freeing an address that is not live is the bug check
  \<open>BAD_POOL_CALLER\<close>, following one is a \<open>PAGE_FAULT\<close>.
\<close>

subsection \<open>Blocks and services\<close>

text \<open>
  A block is raw memory of a given size, an event of the driver, or a list packet that
  holds the address of an event.
\<close>

datatype 'e block = Raw nat | Event 'e | Packet addr

record 'e kpool =
  granted :: "nat \<Rightarrow> bool"
  ticks :: nat
  blocks :: "addr \<rightharpoonup> 'e block"

definition ExAllocatePoolWithTag ::
    "'e block \<Rightarrow> ('e, 'x) kpool_scheme \<Rightarrow> addr option \<times> ('e, 'x) kpool_scheme" where
  "ExAllocatePoolWithTag b k =
     (if granted k (ticks k)
      then (Some (ticks k),
            k\<lparr>ticks := Suc (ticks k), blocks := (blocks k)(ticks k \<mapsto> b)\<rparr>)
      else (None, k\<lparr>ticks := Suc (ticks k)\<rparr>))"

fun ExFreePoolWithTag ::
    "addr option \<Rightarrow> ('e, 'x) kpool_scheme \<Rightarrow> bugcheck + ('e, 'x) kpool_scheme" where
  "ExFreePoolWithTag None k = Inl BAD_POOL_CALLER"
| "ExFreePoolWithTag (Some a) k =
     (case blocks k a of
        None \<Rightarrow> Inl BAD_POOL_CALLER
      | Some b \<Rightarrow> Inr (k\<lparr>blocks := (blocks k)(a := None)\<rparr>))"

text \<open>Following a pointer to an event, or to a list packet.\<close>

definition read_event :: "addr \<Rightarrow> ('e, 'x) kpool_scheme \<Rightarrow> bugcheck + 'e" where
  "read_event a k = (case blocks k a of Some (Event e) \<Rightarrow> Inr e | _ \<Rightarrow> Inl PAGE_FAULT)"

definition read_packet :: "addr \<Rightarrow> ('e, 'x) kpool_scheme \<Rightarrow> bugcheck + addr" where
  "read_packet a k = (case blocks k a of Some (Packet ev) \<Rightarrow> Inr ev | _ \<Rightarrow> Inl PAGE_FAULT)"

definition write_event ::
    "addr \<Rightarrow> 'e \<Rightarrow> ('e, 'x) kpool_scheme \<Rightarrow> bugcheck + ('e, 'x) kpool_scheme" where
  "write_event a e k =
     (case blocks k a of
        Some (Event e') \<Rightarrow> Inr (k\<lparr>blocks := (blocks k)(a \<mapsto> Event e)\<rparr>)
      | _ \<Rightarrow> Inl PAGE_FAULT)"

subsection \<open>Well-formed pools\<close>

text \<open>Live addresses come from earlier requests, so the next address is fresh.\<close>

definition pool_wf :: "('e, 'x) kpool_scheme \<Rightarrow> bool" where
  "pool_wf k \<longleftrightarrow> (\<forall>a. blocks k a \<noteq> None \<longrightarrow> a < ticks k)"

lemma pool_wfD: "pool_wf k \<Longrightarrow> ticks k \<le> a \<Longrightarrow> blocks k a = None"
  by (auto simp: pool_wf_def not_less [symmetric])

lemma pool_wf_fresh [simp]: "pool_wf k \<Longrightarrow> blocks k (ticks k) = None"
  by (simp add: pool_wfD)

lemma pool_wf_live: "pool_wf k \<Longrightarrow> blocks k a = Some b \<Longrightarrow> a < ticks k"
  by (auto simp: pool_wf_def)

lemma pool_wf_ticks [simp]: "pool_wf k \<Longrightarrow> pool_wf (k\<lparr>ticks := ticks k + n\<rparr>)"
  by (auto simp: pool_wf_def intro: trans_less_add1)

lemma pool_wf_alloc [simp]:
  "pool_wf k \<Longrightarrow>
   pool_wf (k\<lparr>ticks := Suc (ticks k), blocks := (blocks k)(ticks k \<mapsto> b)\<rparr>)"
  by (auto simp: pool_wf_def less_Suc_eq)

lemma pool_wf_skip [simp]: "pool_wf k \<Longrightarrow> pool_wf (k\<lparr>ticks := Suc (ticks k)\<rparr>)"
  by (auto simp: pool_wf_def less_Suc_eq)

lemma pool_wf_restrict [simp]:
  "pool_wf k \<Longrightarrow> pool_wf (k\<lparr>blocks := blocks k |` A\<rparr>)"
  by (auto simp: pool_wf_def restrict_map_def)

lemma pool_wf_free [simp]:
  "pool_wf k \<Longrightarrow> pool_wf (k\<lparr>blocks := (blocks k)(a := None)\<rparr>)"
  by (auto simp: pool_wf_def)

subsection \<open>Executing the services\<close>

lemma alloc_granted [kernel_simps]:
  "granted k (ticks k) \<Longrightarrow> ExAllocatePoolWithTag b k =
     (Some (ticks k), k\<lparr>ticks := Suc (ticks k), blocks := (blocks k)(ticks k \<mapsto> b)\<rparr>)"
  by (simp add: ExAllocatePoolWithTag_def)

lemma alloc_refused [kernel_simps]:
  "\<not> granted k (ticks k) \<Longrightarrow>
     ExAllocatePoolWithTag b k = (None, k\<lparr>ticks := Suc (ticks k)\<rparr>)"
  by (simp add: ExAllocatePoolWithTag_def)

lemma free_live [kernel_simps]:
  "blocks k a = Some b \<Longrightarrow>
     ExFreePoolWithTag (Some a) k = Inr (k\<lparr>blocks := (blocks k)(a := None)\<rparr>)"
  by simp

lemma free_dead: "blocks k a = None \<Longrightarrow> ExFreePoolWithTag (Some a) k = Inl BAD_POOL_CALLER"
  by simp

lemma read_event_live [kernel_simps]: "blocks k a = Some (Event e) \<Longrightarrow> read_event a k = Inr e"
  by (simp add: read_event_def)

lemma read_packet_live [kernel_simps]:
  "blocks k a = Some (Packet ev) \<Longrightarrow> read_packet a k = Inr ev"
  by (simp add: read_packet_def)

lemma write_event_live [kernel_simps]:
  "blocks k a = Some (Event e') \<Longrightarrow>
     write_event a e k = Inr (k\<lparr>blocks := (blocks k)(a \<mapsto> Event e)\<rparr>)"
  by (simp add: write_event_def)

lemma read_event_frame:
  "blocks k' = blocks k \<Longrightarrow> read_event a k' = read_event a k"
  by (simp add: read_event_def)

text \<open>A buffer that is allocated and freed again leaves the live blocks as they were.\<close>

lemma blocks_release [simp]:
  "pool_wf k \<Longrightarrow> (blocks k)(ticks k := None) = blocks k"
  by (rule ext) simp

lemma blocks_self_update [simp]: "k\<lparr>blocks := blocks k\<rparr> = (k :: ('e, 'x) kpool_scheme)"
  by (cases k) simp

lemma ticks_self_update [simp]: "k\<lparr>ticks := ticks k\<rparr> = (k :: ('e, 'x) kpool_scheme)"
  by (cases k) simp

lemma restrict_update_None:
  "(m(a := None)) |` A = m |` (A - {a})"
  by (rule ext) (auto simp: restrict_map_def)

lemma restrict_to_compl_single: "m(a := None) = m |` (- {a})"
  by (rule ext) (auto simp: restrict_map_def)

lemma restrict_UNIV [simp]: "m |` UNIV = m"
  by (rule ext) simp

subsection \<open>Blocks a routine adds\<close>

text \<open>
  \<open>pool_grows k A k'\<close>: \<open>k'\<close> has exactly the live blocks \<open>A\<close> more than \<open>k\<close>, all of them
  fresh, and the other blocks are as they were. With \<open>A = {}\<close> a routine freed whatever it
  allocated.
\<close>

definition pool_grows :: "('e, 'x) kpool_scheme \<Rightarrow> addr set \<Rightarrow> ('e, 'x) kpool_scheme \<Rightarrow> bool" where
  "pool_grows k A k' \<longleftrightarrow>
     granted k' = granted k \<and> ticks k \<le> ticks k' \<and> (\<forall>a. a \<notin> A \<longrightarrow> blocks k' a = blocks k a) \<and>
     (\<forall>a \<in> A. blocks k' a \<noteq> None \<and> ticks k \<le> a \<and> a < ticks k')"

lemma pool_growsD:
  assumes "pool_grows k A k'"
  shows "granted k' = granted k" and "ticks k \<le> ticks k'"
    and "a \<notin> A \<Longrightarrow> blocks k' a = blocks k a"
    and "a \<in> A \<Longrightarrow> blocks k' a \<noteq> None"
    and "a \<in> A \<Longrightarrow> ticks k \<le> a \<and> a < ticks k'"
  using assms by (auto simp: pool_grows_def)

lemma pool_grows_refl [simp]: "pool_grows k {} k"
  by (simp add: pool_grows_def)

lemma pool_grows_blocks0: "pool_grows k {} k' \<Longrightarrow> blocks k' = blocks k"
  by (auto simp: pool_grows_def)

lemma pool_grows_wf:
  assumes "pool_grows k A k'" and "pool_wf k"
  shows "pool_wf k'"
  unfolding pool_wf_def
proof (intro allI impI)
  fix a assume live: "blocks k' a \<noteq> None"
  show "a < ticks k'"
  proof (cases "a \<in> A")
    case True
    then show ?thesis using pool_growsD(5) [OF assms(1)] by blast
  next
    case False
    then have "blocks k a \<noteq> None" using live pool_growsD(3) [OF assms(1)] by simp
    then have "a < ticks k" using assms(2) by (simp add: pool_wf_def)
    then show ?thesis using pool_growsD(2) [OF assms(1)] by simp
  qed
qed

lemma pool_grows_seq:
  assumes "pool_grows k A k1" and "pool_grows k1 B k2"
  shows "pool_grows k (A \<union> B) k2" and "A \<inter> B = {}"
proof -
  show "A \<inter> B = {}"
    using pool_growsD(5) [OF assms(1)] pool_growsD(5) [OF assms(2)] by fastforce
  have "blocks k2 a = blocks k a" if "a \<notin> A \<union> B" for a
    using that pool_growsD(3) [OF assms(1)] pool_growsD(3) [OF assms(2)] by simp
  moreover have "blocks k2 a \<noteq> None \<and> ticks k \<le> a \<and> a < ticks k2" if "a \<in> A \<union> B" for a
  proof (cases "a \<in> B")
    case True
    then show ?thesis
      using pool_growsD(4,5) [OF assms(2)] pool_growsD(2) [OF assms(1)] by fastforce
  next
    case False
    then show ?thesis
      using that pool_growsD(4,5) [OF assms(1)] pool_growsD(2,3) [OF assms(2)] by fastforce
  qed
  ultimately show "pool_grows k (A \<union> B) k2"
    using pool_growsD(1,2) [OF assms(1)] pool_growsD(1,2) [OF assms(2)]
    by (auto simp: pool_grows_def)
qed

lemma pool_grows_seq0: "pool_grows k A k1 \<Longrightarrow> pool_grows k1 {} k2 \<Longrightarrow> pool_grows k A k2"
  using pool_grows_seq(1) [of k A k1 "{}" k2] by simp

text \<open>An allocation adds its block, if it is served; freeing an added block takes it out.\<close>

lemma pool_grows_alloc:
  assumes "pool_grows k A k'" and "ExAllocatePoolWithTag b k' = (r, k'')"
  shows "pool_grows k (A \<union> set_option r) k''" and "set_option r \<inter> A = {}"
proof -
  have "\<forall>a \<in> A. a < ticks k'" using assms(1) by (simp add: pool_grows_def)
  then show "set_option r \<inter> A = {}"
    using assms(2) by (auto simp: ExAllocatePoolWithTag_def split: if_splits)
  show "pool_grows k (A \<union> set_option r) k''"
    using assms by (auto simp: pool_grows_def ExAllocatePoolWithTag_def less_Suc_eq split: if_splits)
qed

lemma pool_grows_free:
  assumes "pool_grows k A k'" and "a \<in> A" and "pool_wf k"
  shows "\<exists>k''. ExFreePoolWithTag (Some a) k' = Inr k'' \<and> pool_grows k (A - {a}) k''"
proof -
  obtain b where "blocks k' a = Some b" using pool_growsD(4) [OF assms(1,2)] by auto
  then have "ExFreePoolWithTag (Some a) k' = Inr (k'\<lparr>blocks := (blocks k')(a := None)\<rparr>)"
    by simp
  moreover have "blocks k a = None"
    using pool_growsD(5) [OF assms(1,2)] assms(3) by (auto intro: pool_wfD)
  then have "pool_grows k (A - {a}) (k'\<lparr>blocks := (blocks k')(a := None)\<rparr>)"
    using assms(1) by (auto simp: pool_grows_def)
  ultimately show ?thesis by blast
qed

text \<open>\<open>pool_extends k A k'\<close>: moreover nothing but the pool has changed.\<close>

definition pool_extends :: "('e, 'x) kpool_scheme \<Rightarrow> addr set \<Rightarrow> ('e, 'x) kpool_scheme \<Rightarrow> bool" where
  "pool_extends k A k' \<longleftrightarrow> kpool.more k' = kpool.more k \<and> pool_grows k A k'"

lemma pool_extends_refl [simp]: "pool_extends k {} k"
  by (simp add: pool_extends_def)

lemma pool_extends_seq:
  assumes "pool_extends k A k1" and "pool_extends k1 B k2"
  shows "pool_extends k (A \<union> B) k2" and "A \<inter> B = {}"
  using assms pool_grows_seq [of k A k1 B k2] by (simp_all add: pool_extends_def)

lemma pool_extends_seq0: "pool_extends k A k1 \<Longrightarrow> pool_extends k1 {} k2 \<Longrightarrow> pool_extends k A k2"
  using pool_extends_seq(1) [of k A k1 "{}" k2] by simp

lemma more_alloc: "ExAllocatePoolWithTag b k = (r, k') \<Longrightarrow> kpool.more k' = kpool.more k"
  by (auto simp: ExAllocatePoolWithTag_def split: if_splits)

lemma more_free: "ExFreePoolWithTag a k = Inr k' \<Longrightarrow> kpool.more k' = kpool.more k"
  by (cases a) (auto split: option.splits)

lemma pool_extends_alloc:
  assumes "pool_extends k A k'" and "ExAllocatePoolWithTag b k' = (r, k'')"
  shows "pool_extends k (A \<union> set_option r) k''" and "set_option r \<inter> A = {}"
  using assms pool_grows_alloc [of k A k' b r k''] more_alloc [OF assms(2)]
  by (simp_all add: pool_extends_def)

lemma pool_extends_free:
  assumes "pool_extends k A k'" and "a \<in> A" and "pool_wf k"
  shows "\<exists>k''. ExFreePoolWithTag (Some a) k' = Inr k'' \<and> pool_extends k (A - {a}) k''"
proof -
  obtain k'' where k'': "ExFreePoolWithTag (Some a) k' = Inr k''" "pool_grows k (A - {a}) k''"
    using pool_grows_free [of k A k' a] assms by (auto simp: pool_extends_def)
  then show ?thesis
    using more_free [OF k''(1)] assms(1) by (simp add: pool_extends_def)
qed

end
