(* ===== verification/UnicodeString.thy ===== *)
theory UnicodeString
  imports Pool
begin

text \<open>
  Counted wide strings (\<open>UNICODE_STRING\<close>) and the run-time routines of \<open>ntstrsafe.h\<close> the
  drivers call on them. \<open>Length\<close> and \<open>MaximumLength\<close> are in bytes and 16 bits wide, as in
  the structure; \<open>Buffer\<close> is the pointer (\<open>None\<close> is \<open>NULL\<close>) and \<open>Chars\<close> the characters
  seen through it, \<open>Length div 2\<close> of them in a well-formed string. The routines refuse an
  ill-formed argument and truncate at the capacity of the destination; no caller looks at
  the status they return, so only the string is modelled.
\<close>

record unicode_string =
  Length :: u16
  MaximumLength :: u16
  Buffer :: "addr option"
  Chars :: wstring

abbreviation BACKSLASH :: wchar where "BACKSLASH \<equiv> 0x005C"

abbreviation empty_string :: "u16 \<Rightarrow> addr option \<Rightarrow> unicode_string" where
  "empty_string m b \<equiv> \<lparr>Length = 0, MaximumLength = m, Buffer = b, Chars = []\<rparr>"

definition us_valid :: "unicode_string \<Rightarrow> bool" where
  "us_valid s \<longleftrightarrow>
     even (unat (Length s)) \<and> even (unat (MaximumLength s)) \<and>
     Length s \<le> MaximumLength s \<and> unat (MaximumLength s) \<le> 65534 \<and>
     (Buffer s = None \<longrightarrow> Length s = 0 \<and> MaximumLength s = 0)"

definition us_capacity :: "unicode_string \<Rightarrow> nat" where
  "us_capacity s = unat (MaximumLength s) div 2"

text \<open>The characters agree with the length field.\<close>

definition us_wf :: "unicode_string \<Rightarrow> bool" where
  "us_wf s \<longleftrightarrow> us_valid s \<and> unat (Length s) = 2 * length (Chars s)"

text \<open>Setting the characters sets the length.\<close>

definition us_set :: "wstring \<Rightarrow> unicode_string \<Rightarrow> unicode_string" where
  "us_set cs s = s\<lparr>Length := of_nat (2 * length cs), Chars := cs\<rparr>"

definition RtlInitUnicodeString :: "addr \<Rightarrow> wstring \<Rightarrow> unicode_string" where
  "RtlInitUnicodeString a cs =
     \<lparr>Length = of_nat (2 * length cs), MaximumLength = of_nat (2 * length cs + 2),
      Buffer = Some a, Chars = cs\<rparr>"

definition RtlUnicodeStringCopy ::
    "unicode_string \<Rightarrow> unicode_string \<Rightarrow> unicode_string" where
  "RtlUnicodeStringCopy dst src =
     (if us_valid dst \<and> us_valid src
      then us_set (take (us_capacity dst) (Chars src)) dst else dst)"

definition RtlUnicodeStringCchCopyN ::
    "unicode_string \<Rightarrow> unicode_string \<Rightarrow> nat \<Rightarrow> unicode_string" where
  "RtlUnicodeStringCchCopyN dst src n =
     (if us_valid dst \<and> us_valid src
      then us_set (take (min n (us_capacity dst)) (Chars src)) dst else dst)"

definition RtlUnicodeStringCat ::
    "unicode_string \<Rightarrow> unicode_string \<Rightarrow> unicode_string" where
  "RtlUnicodeStringCat dst src =
     (if us_valid dst \<and> us_valid src
      then us_set (Chars dst @ take (us_capacity dst - length (Chars dst)) (Chars src)) dst
      else dst)"

text \<open>The source of the next routine is zero-terminated; \<open>cs\<close> is what precedes the zero.\<close>

definition RtlUnicodeStringCatString ::
    "unicode_string \<Rightarrow> wstring \<Rightarrow> unicode_string" where
  "RtlUnicodeStringCatString dst cs =
     (if us_valid dst
      then us_set (Chars dst @ take (us_capacity dst - length (Chars dst)) cs) dst
      else dst)"

text \<open>
  Comparison folds case with the system's own table, which the drivers do not contain: it
  is the argument \<open>upcase\<close>. Both buffers are read when the lengths agree.
\<close>

definition RtlEqualUnicodeString ::
    "(wchar \<Rightarrow> wchar) \<Rightarrow> unicode_string \<Rightarrow> unicode_string \<Rightarrow> bugcheck + bool" where
  "RtlEqualUnicodeString upcase a b =
     (if Length a \<noteq> Length b then Inr False
      else if Length a = 0 then Inr True
      else if Buffer a = None \<or> Buffer b = None then Inl NULL_DEREFERENCE
      else Inr (map upcase (Chars a) = map upcase (Chars b)))"

text \<open>
  \<open>RtlStringCbCopyUnicodeString(dest, cb, src)\<close>: what \<open>cb\<close> bytes at \<open>dest\<close> hold of the
  source, terminator included.
\<close>

definition RtlStringCbCopyUnicodeString :: "nat \<Rightarrow> unicode_string \<Rightarrow> wstring" where
  "RtlStringCbCopyUnicodeString cb src =
     (if cb div 2 = 0 then []
      else if us_valid src then take (cb div 2 - 1) (Chars src) @ [0] else [0])"

subsection \<open>What the routines keep\<close>

lemma us_set_simps [simp]:
  "MaximumLength (us_set cs s) = MaximumLength s"
  "Buffer (us_set cs s) = Buffer s"
  "Chars (us_set cs s) = cs"
  "us_capacity (us_set cs s) = us_capacity s"
  by (simp_all add: us_set_def us_capacity_def)

lemma us_wf_valid [simp, intro]: "us_wf s \<Longrightarrow> us_valid s"
  by (simp add: us_wf_def)

lemma us_wf_empty_string: "even (unat m) \<Longrightarrow> unat m \<le> 65534 \<Longrightarrow> us_wf (empty_string m (Some b))"
  by (simp add: us_wf_def us_valid_def)

lemma us_capacity_le: "us_capacity s \<le> 32767"
proof -
  have "unat (MaximumLength s) < 65536" by simp
  then show ?thesis unfolding us_capacity_def by linarith
qed

lemma us_wf_fits: "us_wf s \<Longrightarrow> length (Chars s) \<le> us_capacity s"
  by (auto simp: us_wf_def us_valid_def us_capacity_def word_le_nat_alt)

lemma us_wf_length: "us_wf s \<Longrightarrow> unat (Length s) = 2 * length (Chars s)"
  by (simp add: us_wf_def)

lemma unat_us_set_Length:
  assumes "length cs \<le> us_capacity s"
  shows "unat (Length (us_set cs s)) = 2 * length cs"
proof -
  have "2 * length cs < 2 ^ 16" using assms us_capacity_le [of s] by simp
  then have "unat (of_nat (2 * length cs) :: u16) = 2 * length cs"
    by (rule unat_of_nat_small16)
  then show ?thesis by (simp add: us_set_def)
qed

lemma us_wf_set:
  assumes "us_valid s" and "length cs \<le> us_capacity s"
  shows "us_wf (us_set cs s)"
proof -
  have len: "unat (Length (us_set cs s)) = 2 * length cs"
    using assms(2) by (rule unat_us_set_Length)
  moreover have "2 * length cs \<le> unat (MaximumLength s)"
    using assms by (auto simp: us_capacity_def us_valid_def)
  moreover have "Buffer s = None \<Longrightarrow> cs = []"
    using assms by (auto simp: us_valid_def us_capacity_def)
  ultimately show ?thesis
    using assms(1) by (auto simp: us_wf_def us_valid_def word_le_nat_alt us_set_def)
qed

lemma us_wf_Copy [simp, intro]: "us_wf dst \<Longrightarrow> us_wf (RtlUnicodeStringCopy dst src)"
  by (auto simp: RtlUnicodeStringCopy_def intro: us_wf_set)

lemma us_wf_CchCopyN [simp, intro]:
  "us_wf dst \<Longrightarrow> us_wf (RtlUnicodeStringCchCopyN dst src n)"
  by (auto simp: RtlUnicodeStringCchCopyN_def intro: us_wf_set)

lemma us_wf_Cat [simp, intro]: "us_wf dst \<Longrightarrow> us_wf (RtlUnicodeStringCat dst src)"
  using us_wf_fits [of dst] by (auto simp: RtlUnicodeStringCat_def intro!: us_wf_set)

lemma us_wf_CatString [simp, intro]: "us_wf dst \<Longrightarrow> us_wf (RtlUnicodeStringCatString dst cs)"
  using us_wf_fits [of dst] by (auto simp: RtlUnicodeStringCatString_def intro!: us_wf_set)

lemma Cat_frame [simp]:
  "MaximumLength (RtlUnicodeStringCat d s) = MaximumLength d"
  "Buffer (RtlUnicodeStringCat d s) = Buffer d"
  "us_capacity (RtlUnicodeStringCat d s) = us_capacity d"
  by (simp_all add: RtlUnicodeStringCat_def)

lemma CatString_frame [simp]:
  "MaximumLength (RtlUnicodeStringCatString d cs) = MaximumLength d"
  "Buffer (RtlUnicodeStringCatString d cs) = Buffer d"
  "us_capacity (RtlUnicodeStringCatString d cs) = us_capacity d"
  by (simp_all add: RtlUnicodeStringCatString_def)

lemma Copy_frame [simp]:
  "MaximumLength (RtlUnicodeStringCopy d s) = MaximumLength d"
  "Buffer (RtlUnicodeStringCopy d s) = Buffer d"
  "us_capacity (RtlUnicodeStringCopy d s) = us_capacity d"
  by (simp_all add: RtlUnicodeStringCopy_def)

lemma CchCopyN_frame [simp]:
  "MaximumLength (RtlUnicodeStringCchCopyN d s n) = MaximumLength d"
  "Buffer (RtlUnicodeStringCchCopyN d s n) = Buffer d"
  by (simp_all add: RtlUnicodeStringCchCopyN_def)

subsection \<open>Exact results when the destination is large enough\<close>

lemma Chars_Cat_fits:
  assumes "us_valid d" and "us_valid s"
    and "length (Chars d) + length (Chars s) \<le> us_capacity d"
  shows "Chars (RtlUnicodeStringCat d s) = Chars d @ Chars s"
  using assms by (simp add: RtlUnicodeStringCat_def)

lemma Chars_CatString_fits:
  assumes "us_valid d" and "length (Chars d) + length cs \<le> us_capacity d"
  shows "Chars (RtlUnicodeStringCatString d cs) = Chars d @ cs"
  using assms by (simp add: RtlUnicodeStringCatString_def)

lemma Chars_Copy_fits:
  assumes "us_valid d" and "us_valid s" and "length (Chars s) \<le> us_capacity d"
  shows "Chars (RtlUnicodeStringCopy d s) = Chars s"
  using assms by (simp add: RtlUnicodeStringCopy_def)

lemma StringCbCopy_exact:
  assumes "us_wf s"
  shows "RtlStringCbCopyUnicodeString (unat (Length s) + 2) s = Chars s @ [0]"
  using assms by (simp add: RtlStringCbCopyUnicodeString_def us_wf_length)

lemma length_StringCbCopy:
  "length (RtlStringCbCopyUnicodeString cb s) \<le> cb div 2"
  by (auto simp: RtlStringCbCopyUnicodeString_def)

lemma us_wf_nonempty: "us_wf s \<Longrightarrow> 0 < Length s \<longleftrightarrow> Chars s \<noteq> []"
  by (metis gr0I length_0_conv mult_eq_0_iff unat_eq_0 unat_gt_0 us_wf_length zero_neq_numeral
      word_neq_0_conv)

end
