(* ===== verification/FileEvent.thy ===== *)
theory FileEvent
  imports UnicodeString
begin

text \<open>
  The file event of the file driver: the structure, its memory layout on 32-bit Windows and
  the reader of that layout, the codes of the operations, and the registration table of
  the minifilter.
\<close>

subsection \<open>Operation codes\<close>

text \<open>The operations the driver registers for, in the order of its table.\<close>

datatype irp_mj =
    IRP_MJ_CREATE | IRP_MJ_CREATE_NAMED_PIPE | IRP_MJ_CLOSE | IRP_MJ_READ | IRP_MJ_WRITE
  | IRP_MJ_QUERY_INFORMATION | IRP_MJ_SET_INFORMATION | IRP_MJ_QUERY_EA | IRP_MJ_SET_EA
  | IRP_MJ_FLUSH_BUFFERS | IRP_MJ_QUERY_VOLUME_INFORMATION | IRP_MJ_SET_VOLUME_INFORMATION
  | IRP_MJ_DIRECTORY_CONTROL | IRP_MJ_FILE_SYSTEM_CONTROL | IRP_MJ_DEVICE_CONTROL
  | IRP_MJ_INTERNAL_DEVICE_CONTROL | IRP_MJ_SHUTDOWN | IRP_MJ_LOCK_CONTROL | IRP_MJ_CLEANUP
  | IRP_MJ_CREATE_MAILSLOT | IRP_MJ_QUERY_SECURITY | IRP_MJ_SET_SECURITY | IRP_MJ_QUERY_QUOTA
  | IRP_MJ_SET_QUOTA | IRP_MJ_PNP | IRP_MJ_ACQUIRE_FOR_SECTION_SYNCHRONIZATION
  | IRP_MJ_RELEASE_FOR_SECTION_SYNCHRONIZATION | IRP_MJ_ACQUIRE_FOR_MOD_WRITE
  | IRP_MJ_RELEASE_FOR_MOD_WRITE | IRP_MJ_ACQUIRE_FOR_CC_FLUSH | IRP_MJ_RELEASE_FOR_CC_FLUSH
  | IRP_MJ_FAST_IO_CHECK_IF_POSSIBLE | IRP_MJ_NETWORK_QUERY_OPEN | IRP_MJ_MDL_READ
  | IRP_MJ_MDL_READ_COMPLETE | IRP_MJ_PREPARE_MDL_WRITE | IRP_MJ_MDL_WRITE_COMPLETE
  | IRP_MJ_VOLUME_MOUNT | IRP_MJ_VOLUME_DISMOUNT

text \<open>
  Their codes: those up to \<open>IRP_MJ_PNP\<close> as \<open>MiniFilter.h\<close> lists them, the minifilter's own
  ones counted down from 255 as in the driver kit.
\<close>

fun irp_code :: "irp_mj \<Rightarrow> u8" where
  "irp_code IRP_MJ_CREATE = 0x00"
| "irp_code IRP_MJ_CREATE_NAMED_PIPE = 0x01"
| "irp_code IRP_MJ_CLOSE = 0x02"
| "irp_code IRP_MJ_READ = 0x03"
| "irp_code IRP_MJ_WRITE = 0x04"
| "irp_code IRP_MJ_QUERY_INFORMATION = 0x05"
| "irp_code IRP_MJ_SET_INFORMATION = 0x06"
| "irp_code IRP_MJ_QUERY_EA = 0x07"
| "irp_code IRP_MJ_SET_EA = 0x08"
| "irp_code IRP_MJ_FLUSH_BUFFERS = 0x09"
| "irp_code IRP_MJ_QUERY_VOLUME_INFORMATION = 0x0a"
| "irp_code IRP_MJ_SET_VOLUME_INFORMATION = 0x0b"
| "irp_code IRP_MJ_DIRECTORY_CONTROL = 0x0c"
| "irp_code IRP_MJ_FILE_SYSTEM_CONTROL = 0x0d"
| "irp_code IRP_MJ_DEVICE_CONTROL = 0x0e"
| "irp_code IRP_MJ_INTERNAL_DEVICE_CONTROL = 0x0f"
| "irp_code IRP_MJ_SHUTDOWN = 0x10"
| "irp_code IRP_MJ_LOCK_CONTROL = 0x11"
| "irp_code IRP_MJ_CLEANUP = 0x12"
| "irp_code IRP_MJ_CREATE_MAILSLOT = 0x13"
| "irp_code IRP_MJ_QUERY_SECURITY = 0x14"
| "irp_code IRP_MJ_SET_SECURITY = 0x15"
| "irp_code IRP_MJ_QUERY_QUOTA = 0x19"
| "irp_code IRP_MJ_SET_QUOTA = 0x1a"
| "irp_code IRP_MJ_PNP = 0x1b"
| "irp_code IRP_MJ_ACQUIRE_FOR_SECTION_SYNCHRONIZATION = 255"
| "irp_code IRP_MJ_RELEASE_FOR_SECTION_SYNCHRONIZATION = 254"
| "irp_code IRP_MJ_ACQUIRE_FOR_MOD_WRITE = 253"
| "irp_code IRP_MJ_RELEASE_FOR_MOD_WRITE = 252"
| "irp_code IRP_MJ_ACQUIRE_FOR_CC_FLUSH = 251"
| "irp_code IRP_MJ_RELEASE_FOR_CC_FLUSH = 250"
| "irp_code IRP_MJ_FAST_IO_CHECK_IF_POSSIBLE = 243"
| "irp_code IRP_MJ_NETWORK_QUERY_OPEN = 242"
| "irp_code IRP_MJ_MDL_READ = 241"
| "irp_code IRP_MJ_MDL_READ_COMPLETE = 240"
| "irp_code IRP_MJ_PREPARE_MDL_WRITE = 239"
| "irp_code IRP_MJ_MDL_WRITE_COMPLETE = 238"
| "irp_code IRP_MJ_VOLUME_MOUNT = 237"
| "irp_code IRP_MJ_VOLUME_DISMOUNT = 236"

text \<open>The driver's own code for a deletion (\<open>IRP_MJ_DELETE\<close> in \<open>MiniFilter.h\<close>).\<close>

definition IRP_MJ_DELETE :: u8 where
  "IRP_MJ_DELETE = 0x99"

subsection \<open>The registration table\<close>

text \<open>
  One row per operation: whether a pre- and a post-operation callback is registered. All
  rows name \<open>PreFileOperationCallback\<close>; the post callback is \<open>PostFileOperationCallback\<close>
  except for the shutdown row, where it is \<open>NULL\<close>.
\<close>

datatype pre_callback = PreFileOperation
datatype post_callback = PostFileOperation

definition Callbacks :: "(irp_mj \<times> pre_callback option \<times> post_callback option) list" where
  "Callbacks = [
     (IRP_MJ_CREATE, Some PreFileOperation, Some PostFileOperation),
     (IRP_MJ_CREATE_NAMED_PIPE, Some PreFileOperation, Some PostFileOperation),
     (IRP_MJ_CLOSE, Some PreFileOperation, Some PostFileOperation),
     (IRP_MJ_READ, Some PreFileOperation, Some PostFileOperation),
     (IRP_MJ_WRITE, Some PreFileOperation, Some PostFileOperation),
     (IRP_MJ_QUERY_INFORMATION, Some PreFileOperation, Some PostFileOperation),
     (IRP_MJ_SET_INFORMATION, Some PreFileOperation, Some PostFileOperation),
     (IRP_MJ_QUERY_EA, Some PreFileOperation, Some PostFileOperation),
     (IRP_MJ_SET_EA, Some PreFileOperation, Some PostFileOperation),
     (IRP_MJ_FLUSH_BUFFERS, Some PreFileOperation, Some PostFileOperation),
     (IRP_MJ_QUERY_VOLUME_INFORMATION, Some PreFileOperation, Some PostFileOperation),
     (IRP_MJ_SET_VOLUME_INFORMATION, Some PreFileOperation, Some PostFileOperation),
     (IRP_MJ_DIRECTORY_CONTROL, Some PreFileOperation, Some PostFileOperation),
     (IRP_MJ_FILE_SYSTEM_CONTROL, Some PreFileOperation, Some PostFileOperation),
     (IRP_MJ_DEVICE_CONTROL, Some PreFileOperation, Some PostFileOperation),
     (IRP_MJ_INTERNAL_DEVICE_CONTROL, Some PreFileOperation, Some PostFileOperation),
     (IRP_MJ_SHUTDOWN, Some PreFileOperation, None),
     (IRP_MJ_LOCK_CONTROL, Some PreFileOperation, Some PostFileOperation),
     (IRP_MJ_CLEANUP, Some PreFileOperation, Some PostFileOperation),
     (IRP_MJ_CREATE_MAILSLOT, Some PreFileOperation, Some PostFileOperation),
     (IRP_MJ_QUERY_SECURITY, Some PreFileOperation, Some PostFileOperation),
     (IRP_MJ_SET_SECURITY, Some PreFileOperation, Some PostFileOperation),
     (IRP_MJ_QUERY_QUOTA, Some PreFileOperation, Some PostFileOperation),
     (IRP_MJ_SET_QUOTA, Some PreFileOperation, Some PostFileOperation),
     (IRP_MJ_PNP, Some PreFileOperation, Some PostFileOperation),
     (IRP_MJ_ACQUIRE_FOR_SECTION_SYNCHRONIZATION, Some PreFileOperation, Some PostFileOperation),
     (IRP_MJ_RELEASE_FOR_SECTION_SYNCHRONIZATION, Some PreFileOperation, Some PostFileOperation),
     (IRP_MJ_ACQUIRE_FOR_MOD_WRITE, Some PreFileOperation, Some PostFileOperation),
     (IRP_MJ_RELEASE_FOR_MOD_WRITE, Some PreFileOperation, Some PostFileOperation),
     (IRP_MJ_ACQUIRE_FOR_CC_FLUSH, Some PreFileOperation, Some PostFileOperation),
     (IRP_MJ_RELEASE_FOR_CC_FLUSH, Some PreFileOperation, Some PostFileOperation),
     (IRP_MJ_FAST_IO_CHECK_IF_POSSIBLE, Some PreFileOperation, Some PostFileOperation),
     (IRP_MJ_NETWORK_QUERY_OPEN, Some PreFileOperation, Some PostFileOperation),
     (IRP_MJ_MDL_READ, Some PreFileOperation, Some PostFileOperation),
     (IRP_MJ_MDL_READ_COMPLETE, Some PreFileOperation, Some PostFileOperation),
     (IRP_MJ_PREPARE_MDL_WRITE, Some PreFileOperation, Some PostFileOperation),
     (IRP_MJ_MDL_WRITE_COMPLETE, Some PreFileOperation, Some PostFileOperation),
     (IRP_MJ_VOLUME_MOUNT, Some PreFileOperation, Some PostFileOperation),
     (IRP_MJ_VOLUME_DISMOUNT, Some PreFileOperation, Some PostFileOperation)]"

definition pre_registered :: "irp_mj \<Rightarrow> bool" where
  "pre_registered m = (\<exists>row \<in> set Callbacks. fst row = m \<and> fst (snd row) \<noteq> None)"

definition post_registered :: "irp_mj \<Rightarrow> bool" where
  "post_registered m = (\<exists>row \<in> set Callbacks. fst row = m \<and> snd (snd row) \<noteq> None)"

lemma pre_registered_all [simp]: "pre_registered m"
  by (cases m) (simp_all add: pre_registered_def Callbacks_def)

lemma post_registered_iff: "post_registered m \<longleftrightarrow> m \<noteq> IRP_MJ_SHUTDOWN"
  by (cases m) (simp_all add: post_registered_def Callbacks_def)

subsection \<open>Time fields\<close>

record time_fields =
  Year :: u16
  Month :: u16
  Day :: u16
  Hour :: u16
  Minute :: u16
  Second :: u16
  Milliseconds :: u16
  Weekday :: u16

definition time_fields_bytes :: "time_fields \<Rightarrow> u8 list" where
  "time_fields_bytes t =
     le16 (Year t) @ le16 (Month t) @ le16 (Day t) @ le16 (Hour t) @
     le16 (Minute t) @ le16 (Second t) @ le16 (Milliseconds t) @ le16 (Weekday t)"

definition time_fields_at :: "u8 list \<Rightarrow> nat \<Rightarrow> time_fields" where
  "time_fields_at bs i =
     \<lparr>Year = u16_at bs i, Month = u16_at bs (i + 2), Day = u16_at bs (i + 4),
      Hour = u16_at bs (i + 6), Minute = u16_at bs (i + 8), Second = u16_at bs (i + 10),
      Milliseconds = u16_at bs (i + 12), Weekday = u16_at bs (i + 14)\<rparr>"

lemma length_time_fields_bytes [simp, layout_simps]: "length (time_fields_bytes t) = 16"
  by (simp add: time_fields_bytes_def)

subsection \<open>The event\<close>

record file_event =
  majorFileEventType :: u8
  minorFileEventType :: u8
  fe_status :: ntstatus
  fe_information :: u32
  fe_flags :: u32
  fe_time :: time_fields
  fe_processId :: u32
  filePathLength :: u32
  filePath :: wstring

text \<open>
  \<open>sizeof(FILE_EVENT)\<close>: two bytes, two of padding, three words, the time, two words. The
  padding is whatever the pool block held before; it is written as 0 here, and no reader
  looks at it.
\<close>

definition sizeof_FILE_EVENT :: u32 where
  "sizeof_FILE_EVENT = 40"

definition file_event_bytes :: "file_event \<Rightarrow> u8 list" where
  "file_event_bytes e =
     [majorFileEventType e, minorFileEventType e, 0, 0] @ le32 (fe_status e) @
     le32 (fe_information e) @ le32 (fe_flags e) @ time_fields_bytes (fe_time e) @
     le32 (fe_processId e) @ le32 (filePathLength e) @ wchars_bytes (filePath e)"

text \<open>The structure at the start of a buffer, as a C pointer to it reads it.\<close>

definition file_event_at :: "u8 list \<Rightarrow> file_event" where
  "file_event_at bs =
     \<lparr>majorFileEventType = byte_at bs 0, minorFileEventType = byte_at bs 1,
      fe_status = u32_at bs 4, fe_information = u32_at bs 8, fe_flags = u32_at bs 12,
      fe_time = time_fields_at bs 16, fe_processId = u32_at bs 32,
      filePathLength = u32_at bs 36,
      filePath = bytes_wchars (take (unat (u32_at bs 36)) (drop 40 bs))\<rparr>"

text \<open>The size both sides compute for an event.\<close>

definition file_event_size :: "file_event \<Rightarrow> u32" where
  "file_event_size e = sizeof_FILE_EVENT + filePathLength e"

text \<open>The length field of an event agrees with its path and leaves room for the header.\<close>

definition file_event_wf :: "file_event \<Rightarrow> bool" where
  "file_event_wf e \<longleftrightarrow>
     unat (filePathLength e) = 2 * length (filePath e) \<and> unat (filePathLength e) \<le> 65536"

lemma length_file_event_bytes [simp, layout_simps]:
  "length (file_event_bytes e) = 40 + 2 * length (filePath e)"
  by (simp add: file_event_bytes_def)

lemma unat_file_event_size:
  assumes "file_event_wf e"
  shows "unat (file_event_size e) = 40 + unat (filePathLength e)"
proof -
  have "unat sizeof_FILE_EVENT + unat (filePathLength e) < 2 ^ 32"
    using assms by (simp add: file_event_wf_def sizeof_FILE_EVENT_def)
  from unat_u32_add [OF this] show ?thesis
    by (simp add: file_event_size_def sizeof_FILE_EVENT_def)
qed

lemma file_event_size_bytes:
  "file_event_wf e \<Longrightarrow> unat (file_event_size e) = length (file_event_bytes e)"
  by (simp add: unat_file_event_size file_event_wf_def)

lemma sizeof_le_file_event_size: "file_event_wf e \<Longrightarrow> sizeof_FILE_EVENT \<le> file_event_size e"
  by (simp add: word_le_nat_alt unat_file_event_size sizeof_FILE_EVENT_def)

subsection \<open>Reading back what was laid out\<close>

lemma u16_at_le16_at: "i = length xs \<Longrightarrow> u16_at (xs @ le16 w @ ys) i = w"
  by (simp add: u16_at_le16)

lemma u32_at_le32_at: "i = length xs \<Longrightarrow> u32_at (xs @ le32 w @ ys) i = w"
  by (simp add: u32_at_le32)

lemma time_fields_at_bytes:
  assumes "i = length xs"
  shows "time_fields_at (xs @ time_fields_bytes t @ ys) i = t"
proof -
  have f: "u16_at (xs @ time_fields_bytes t @ ys) (i + length ps) = w"
    if "time_fields_bytes t = ps @ le16 w @ qs" for ps w qs
    using u16_at_le16 [of "xs @ ps" w "qs @ ys"] by (simp add: that assms)
  show ?thesis
    unfolding time_fields_at_def
    using f [of "[]"] f [of "le16 (Year t)"]
      f [of "le16 (Year t) @ le16 (Month t)"]
      f [of "le16 (Year t) @ le16 (Month t) @ le16 (Day t)"]
      f [of "le16 (Year t) @ le16 (Month t) @ le16 (Day t) @ le16 (Hour t)"]
      f [of "le16 (Year t) @ le16 (Month t) @ le16 (Day t) @ le16 (Hour t) @ le16 (Minute t)"]
      f [of "le16 (Year t) @ le16 (Month t) @ le16 (Day t) @ le16 (Hour t) @ le16 (Minute t) @
        le16 (Second t)"]
      f [of "le16 (Year t) @ le16 (Month t) @ le16 (Day t) @ le16 (Hour t) @ le16 (Minute t) @
        le16 (Second t) @ le16 (Milliseconds t)" _ "[]"]
    by (simp add: time_fields_bytes_def)
qed

lemma file_event_fields:
  fixes e :: file_event and rest :: "u8 list"
  defines "bs \<equiv> file_event_bytes e @ rest"
  shows "byte_at bs 0 = majorFileEventType e" and "byte_at bs 1 = minorFileEventType e"
    and "u32_at bs 4 = fe_status e" and "u32_at bs 8 = fe_information e"
    and "u32_at bs 12 = fe_flags e" and "time_fields_at bs 16 = fe_time e"
    and "u32_at bs 32 = fe_processId e" and "u32_at bs 36 = filePathLength e"
    and "drop 40 bs = wchars_bytes (filePath e) @ rest"
proof -
  let ?h = "[majorFileEventType e, minorFileEventType e, 0, 0 :: u8]"
  have f32: "u32_at bs i = w" if "bs = ps @ le32 w @ qs" and "i = length ps" for ps w qs i
    using u32_at_le32 [of ps w qs] by (simp add: that)
  show "byte_at bs 0 = majorFileEventType e" and "byte_at bs 1 = minorFileEventType e"
    by (simp_all add: bs_def file_event_bytes_def byte_at_def)
  show "u32_at bs 4 = fe_status e"
    by (rule f32 [of ?h]) (simp_all add: bs_def file_event_bytes_def)
  show "u32_at bs 8 = fe_information e"
    by (rule f32 [of "?h @ le32 (fe_status e)"]) (simp_all add: bs_def file_event_bytes_def)
  show "u32_at bs 12 = fe_flags e"
    by (rule f32 [of "?h @ le32 (fe_status e) @ le32 (fe_information e)"]) (simp_all add: bs_def file_event_bytes_def)
  show "time_fields_at bs 16 = fe_time e"
    using time_fields_at_bytes [of 16
      "?h @ le32 (fe_status e) @ le32 (fe_information e) @ le32 (fe_flags e)" "fe_time e"]
    by (simp add: bs_def file_event_bytes_def)
  show "u32_at bs 32 = fe_processId e"
    by (rule f32 [of "?h @ le32 (fe_status e) @ le32 (fe_information e) @ le32 (fe_flags e) @
      time_fields_bytes (fe_time e)"]) (simp_all add: bs_def file_event_bytes_def)
  show "u32_at bs 36 = filePathLength e"
    by (rule f32 [of "?h @ le32 (fe_status e) @ le32 (fe_information e) @ le32 (fe_flags e) @
      time_fields_bytes (fe_time e) @ le32 (fe_processId e)"]) (simp_all add: bs_def file_event_bytes_def)
  show "drop 40 bs = wchars_bytes (filePath e) @ rest"
    by (simp add: bs_def file_event_bytes_def)
qed

text \<open>A well-formed event is read back from its bytes, whatever follows them.\<close>

theorem file_event_at_bytes:
  assumes "file_event_wf e"
  shows "file_event_at (file_event_bytes e @ rest) = e"
proof -
  have "take (unat (filePathLength e)) (wchars_bytes (filePath e) @ rest) =
      wchars_bytes (filePath e)"
    using assms by (simp add: file_event_wf_def)
  then have "bytes_wchars (take (unat (filePathLength e)) (drop 40 (file_event_bytes e @ rest)))
      = filePath e"
    by (simp only: file_event_fields bytes_wchars_inverse)
  then show ?thesis
    by (simp only: file_event_at_def file_event_fields) simp
qed

end
