(* ===== verification/FilePaths.thy ===== *)
theory FilePaths
  imports FileEvent
begin

text \<open>
  Keeping a copy of a file that is about to be deleted: the drive name, the directories
  under the log directory, and the copy itself. What the file system does is recorded as a
  list of effects; the statuses it returns are the fields of an environment.
\<close>

subsection \<open>The file system as the driver sees it\<close>

datatype fs_op =
    MkDir wstring
  | CreateCopy wstring nat
  | WriteAt wstring nat "u8 list"

record 'e kio = "'e kpool" +
  files :: "fs_op list"
  handles :: nat

text \<open>
  \<open>dos_name\<close> is what \<open>IoVolumeDeviceToDosName\<close> returns, \<open>query_std\<close> the status and the
  allocation size of \<open>FltQueryInformationFile\<close>, \<open>mkdir_status\<close> the two statuses
  \<open>ZwCreateFile\<close> gives for a directory. The file being copied has the bytes \<open>content\<close>;
  reads and writes at an offset return the statuses given.
\<close>

record fs_env =
  dos_name :: "unicode_string option"
  mkdir_status :: "wstring \<Rightarrow> ntstatus \<times> ntstatus"
  query_std :: "ntstatus \<times> nat"
  create_copy :: "wstring \<Rightarrow> ntstatus"
  ob_reference :: ntstatus
  content :: "u8 list"
  read_status :: "nat \<Rightarrow> ntstatus"
  write_status :: "nat \<Rightarrow> ntstatus"

abbreviation COLON :: wchar where "COLON \<equiv> 0x003A"

subsection \<open>The drive name\<close>

text \<open>
  \<open>GetDosDeviceName\<close>. The name the system returns is in a block of its own, which the
  routine has to free. The loop copies every character but the colon behind a backslash;
  a write past the allocated buffer is a bug check.
\<close>

definition GetDosDeviceName ::
    "fs_env \<Rightarrow> unicode_string option \<Rightarrow> ('e, 'x) kio_scheme \<Rightarrow>
     bugcheck + (unicode_string \<times> ('e, 'x) kio_scheme)" where
  "GetDosDeviceName env pShareName k =
     (case dos_name env of
        Some name \<Rightarrow>
          (let t = ticks k;
               k1 = k\<lparr>ticks := Suc t,
                      blocks := (blocks k)(t \<mapsto> Raw (unat (MaximumLength name)))\<rparr>;
               m = MaximumLength name + 2;
               wchars = unat (Length name) div 2
           in case ExAllocatePoolWithTag (Raw (unat m)) k1 of
                (None, k2) \<Rightarrow> Inr (empty_string m None, k2)
              | (Some b, k2) \<Rightarrow>
                  (let cs = BACKSLASH # filter (\<lambda>c. c \<noteq> COLON) (take wchars (Chars name))
                   in if 2 * length cs \<le> unat m
                      then and_then (ExFreePoolWithTag (Some t) k2) (\<lambda>k3.
                           Inr (us_set cs (empty_string m (Some b)), k3))
                      else Inl WRITE_OVERRUN))
      | None \<Rightarrow>
          (case pShareName of
             Some share \<Rightarrow>
               (case ExAllocatePoolWithTag (Raw (unat (MaximumLength share))) k of
                  (None, k1) \<Rightarrow> Inr (empty_string (MaximumLength share) None, k1)
                | (Some b, k1) \<Rightarrow>
                    Inr (RtlUnicodeStringCopy (empty_string (MaximumLength share) (Some b)) share,
                         k1))
           | None \<Rightarrow>
               (case ExAllocatePoolWithTag (Raw 30) k of
                  (None, k1) \<Rightarrow> Inr (empty_string 30 None, k1)
                | (Some b, k1) \<Rightarrow>
                    Inr (RtlUnicodeStringCatString (empty_string 30 (Some b))
                           (BACKSLASH # wide ''UNKNOWN DRIVE''), k1))))"

subsection \<open>Directories\<close>

text \<open>
  \<open>CreateADirectory\<close>. The handle is closed when both statuses are successes; it stays open
  when the call succeeded and the status block says otherwise.
\<close>

definition CreateADirectory ::
    "fs_env \<Rightarrow> unicode_string \<Rightarrow> ('e, 'x) kio_scheme \<Rightarrow> ('e, 'x) kio_scheme" where
  "CreateADirectory env path k =
     (case mkdir_status env (Chars path) of (status, ios) \<Rightarrow>
        (let k1 = k\<lparr>files := files k @ [MkDir (Chars path)]\<rparr>
         in if NT_SUCCESS status
            then (if NT_SUCCESS ios then k1 else k1\<lparr>handles := Suc (handles k1)\<rparr>)
            else k1))"

text \<open>
  The loop of \<open>CreateAllDirectories\<close> over the characters of the directory: \<open>rest\<close> is what
  is left of \<open>cs\<close> from index \<open>i\<close> on, \<open>prev\<close> the index of the last separator.
\<close>

fun create_directories ::
    "fs_env \<Rightarrow> wstring \<Rightarrow> wstring \<Rightarrow> nat \<Rightarrow> nat \<Rightarrow> unicode_string \<Rightarrow> ('e, 'x) kio_scheme \<Rightarrow>
     bugcheck + ('e, 'x) kio_scheme" where
  "create_directories env cs [] i prev whole k = Inr k"
| "create_directories env cs (c # rest) i prev whole k =
     (if c = BACKSLASH \<and> i \<noteq> 0
      then (case ExAllocatePoolWithTag (Raw (2 * (i - prev + 1))) k of
              (None, k1) \<Rightarrow> Inr k1
            | (Some d, k1) \<Rightarrow>
                (let dir = takeWhile (\<lambda>c. c \<noteq> 0) (take (i - prev) (drop prev cs));
                     whole' = RtlUnicodeStringCatString whole dir;
                     k2 = CreateADirectory env whole' k1
                 in and_then (ExFreePoolWithTag (Some d) k2) (\<lambda>k3.
                    create_directories env cs rest (Suc i) i whole' k3)))
      else create_directories env cs rest (Suc i) prev whole k)"

definition CreateAllDirectories ::
    "fs_env \<Rightarrow> unicode_string \<Rightarrow> unicode_string \<Rightarrow> ('e, 'x) kio_scheme \<Rightarrow>
     bugcheck + ('e, 'x) kio_scheme" where
  "CreateAllDirectories env root directory k =
     (let m = MaximumLength root + MaximumLength directory + 2
      in case ExAllocatePoolWithTag (Raw (unat m)) k of
           (None, k1) \<Rightarrow> Inr k1
         | (Some t, k1) \<Rightarrow>
             (let whole = RtlUnicodeStringCat (empty_string m (Some t)) root;
                  cs = take (unat (Length directory) div 2) (Chars directory)
              in and_then (create_directories env cs cs 0 0 whole k1) (\<lambda>k2.
                 ExFreePoolWithTag (Some t) k2)))"

subsection \<open>Copying the file\<close>

text \<open>
  The read and write loop. A failed write is not noticed: its status is overwritten by the
  next read, and the offset moves on.
\<close>

function copy_loop ::
    "fs_env \<Rightarrow> wstring \<Rightarrow> nat \<Rightarrow> ('e, 'x) kio_scheme \<Rightarrow> ('e, 'x) kio_scheme" where
  "copy_loop env path offset k =
     (let bs = take 65536 (drop offset (content env))
      in if NT_SUCCESS (read_status env offset) \<and> 0 < length bs
         then (let k1 = (if NT_SUCCESS (write_status env offset)
                         then k\<lparr>files := files k @ [WriteAt path offset bs]\<rparr> else k)
               in if length bs = 65536 then copy_loop env path (offset + length bs) k1 else k1)
         else k)"
  by pat_completeness auto
termination
  by (relation "measure (\<lambda>(env, path, offset, k). length (content env) - offset)") auto

declare copy_loop.simps [simp del]

definition CopyFile ::
    "fs_env \<Rightarrow> wstring \<Rightarrow> ('e, 'x) kio_scheme \<Rightarrow> bugcheck + (ntstatus \<times> ('e, 'x) kio_scheme)" where
  "CopyFile env path k =
     (if \<not> NT_SUCCESS (fst (query_std env)) then Inr (fst (query_std env), k)
      else if NT_SUCCESS (create_copy env path)
      then (let k1 = k\<lparr>files := files k @ [CreateCopy path (snd (query_std env))],
                       handles := Suc (handles k)\<rparr>
            in if \<not> NT_SUCCESS (ob_reference env) then Inr (ob_reference env, k1)
               else and_then
                 (case ExAllocatePoolWithTag (Raw 65536) k1 of
                    (None, k2) \<Rightarrow> Inr k2
                  | (Some b, k2) \<Rightarrow> ExFreePoolWithTag (Some b) (copy_loop env path 0 k2))
                 (\<lambda>k3. Inr (STATUS_SUCCESS, k3\<lparr>handles := handles k3 - 1\<rparr>)))
      else if create_copy env path \<noteq> STATUS_OBJECT_NAME_COLLISION
      then Inr (create_copy env path, k)
      else Inr (STATUS_SUCCESS, k))"

subsection \<open>What is asked of a file: the request\<close>

record file_name_information =
  fni_Name :: unicode_string
  fni_Share :: unicode_string
  fni_ParentDir :: unicode_string
  fni_FinalComponent :: unicode_string

record file_object =
  fo_Flags :: u32
  fo_hasRelated :: bool
  fo_FileName :: unicode_string

text \<open>
  A request as the filter manager hands it to the callbacks, with the answers the system
  gives while it is handled: \<open>rq_normalized\<close> and \<open>rq_opened\<close> are the two name queries
  (\<open>None\<close>: the query failed), \<open>rq_volume\<close> and \<open>rq_volume_again\<close> the two calls of
  \<open>FltGetVolumeName\<close>, \<open>rq_garbage\<close> what the pool block of the new event holds before it
  is written, and \<open>rq_now\<close> the result of \<open>GetCurrentTime\<close> while the event is queued.
\<close>

record file_request =
  rq_fs_filter :: bool
  rq_major :: irp_mj
  rq_minor :: u8
  rq_disposition :: bool
  rq_delete :: bool
  rq_synchronous :: bool
  rq_directory :: bool
  rq_parse :: ntstatus
  rq_file_object :: "file_object option"
  rq_thread :: "u32 option"
  rq_current_pid :: u32
  rq_normalized :: "file_name_information option"
  rq_opened :: "file_name_information option"
  rq_volume :: "ntstatus \<times> u32"
  rq_volume_again :: "ntstatus \<times> wstring"
  rq_upcase :: "wchar \<Rightarrow> wchar"
  rq_time :: time_fields
  rq_garbage :: file_event
  rq_fs :: fs_env

text \<open>The request asks for a synchronous deletion of something that is not a directory.\<close>

definition being_deleted :: "file_request \<Rightarrow> bool" where
  "being_deleted rq \<longleftrightarrow>
     \<not> rq_directory rq \<and> rq_major rq = IRP_MJ_SET_INFORMATION \<and> rq_disposition rq \<and>
     rq_delete rq \<and> rq_synchronous rq"

text \<open>
  The deletion branch of \<open>CopyFileIfBeingDeleted\<close> once the file is to be collected: build
  \<open><log directory>\<drive>\<directory>\<file>\<close> and \<open>\<drive>\<directory>\<close>, create the
  directories, copy the file, free the three buffers.
\<close>

definition free_if_set :: "addr option \<Rightarrow> ('e, 'x) kpool_scheme \<Rightarrow> bugcheck + ('e, 'x) kpool_scheme" where
  "free_if_set b k = (if b \<noteq> None then ExFreePoolWithTag b k else Inr k)"

definition CollectDeletedFile ::
    "fs_env \<Rightarrow> unicode_string \<Rightarrow> file_name_information \<Rightarrow> ('e, 'x) kio_scheme \<Rightarrow>
     bugcheck + ('e, 'x) kio_scheme" where
  "CollectDeletedFile env logDir info k =
     and_then (GetDosDeviceName env (Some (fni_Share info)) k) (\<lambda>(drive, k1).
       let m1 = MaximumLength logDir + MaximumLength drive
                + MaximumLength (fni_FinalComponent info) + MaximumLength (fni_ParentDir info) + 2;
           (b1, k2) = ExAllocatePoolWithTag (Raw (unat m1)) k1;
           path0 = empty_string m1 b1;
           path = (if b1 \<noteq> None
                   then RtlUnicodeStringCat (RtlUnicodeStringCat (RtlUnicodeStringCat
                          (RtlUnicodeStringCat path0 logDir) drive) (fni_ParentDir info))
                          (fni_FinalComponent info)
                   else path0);
           m2 = MaximumLength (fni_ParentDir info) + MaximumLength drive + 2;
           (b2, k3) = ExAllocatePoolWithTag (Raw (unat m2)) k2;
           dir0 = empty_string m2 b2;
           dir = (if b2 \<noteq> None
                  then RtlUnicodeStringCat (RtlUnicodeStringCat dir0 drive) (fni_ParentDir info)
                  else dir0)
       in and_then (CreateAllDirectories env logDir dir k3) (\<lambda>k4.
          and_then (CopyFile env (Chars path) k4) (\<lambda>(status, k5).
          and_then (free_if_set b1 k5) (\<lambda>k6.
          and_then (free_if_set b2 k6) (\<lambda>k7.
          free_if_set (Buffer drive) k7)))))"

text \<open>
  \<open>CopyFileIfBeingDeleted\<close>. The name information is a pointer: \<open>None\<close> is a pointer that
  was never set, and parsing it is a bug check.
\<close>

definition CopyFileIfBeingDeleted ::
    "file_request \<Rightarrow> bool \<Rightarrow> unicode_string \<Rightarrow> file_name_information option \<Rightarrow>
     ('e, 'x) kio_scheme \<Rightarrow> bugcheck + ('e, 'x) kio_scheme" where
  "CopyFileIfBeingDeleted rq collect logDir pInfo k =
     (if being_deleted rq
      then (case pInfo of
              None \<Rightarrow> Inl WILD_POINTER
            | Some info \<Rightarrow>
                if NT_SUCCESS (rq_parse rq) \<and> collect
                then CollectDeletedFile (rq_fs rq) logDir info k
                else Inr k)
      else Inr k)"


subsection \<open>Blocks a routine adds\<close>

text \<open>
  \<open>io_frame k k'\<close>: only the pool, the effects on files and the handle count may differ.
  \<open>io_extends k A k'\<close>: moreover the pool has grown by the blocks \<open>A\<close>.
\<close>

definition io_frame :: "('e, 'x) kio_scheme \<Rightarrow> ('e, 'x) kio_scheme \<Rightarrow> bool" where
  "io_frame k k' \<longleftrightarrow>
     k'\<lparr>ticks := ticks k, blocks := blocks k, files := files k, handles := handles k\<rparr> = k"

lemma io_frame_refl [simp]: "io_frame k k"
  by (cases k) (simp add: io_frame_def)

lemma io_frame_trans: "io_frame k k1 \<Longrightarrow> io_frame k1 k2 \<Longrightarrow> io_frame k k2"
  by (cases k; cases k1; cases k2) (simp add: io_frame_def)

lemma io_frame_updates [simp]:
  "io_frame k (k'\<lparr>ticks := t\<rparr>) = io_frame k k'"
  "io_frame k (k'\<lparr>blocks := m\<rparr>) = io_frame k k'"
  "io_frame k (k'\<lparr>files := f\<rparr>) = io_frame k k'"
  "io_frame k (k'\<lparr>handles := h\<rparr>) = io_frame k k'"
  by (cases k; cases k'; simp add: io_frame_def)+

lemma io_frame_granted: "io_frame k k' \<Longrightarrow> granted k' = granted k"
  by (cases k; cases k') (simp add: io_frame_def)

lemma io_frame_alloc: "ExAllocatePoolWithTag b k = (r, k') \<Longrightarrow> io_frame k k'"
  by (auto simp: ExAllocatePoolWithTag_def split: if_splits)

lemma io_frame_free: "ExFreePoolWithTag a k = Inr k' \<Longrightarrow> io_frame k k'"
  by (cases a) (auto split: option.splits)

definition io_extends ::
    "('e, 'x) kio_scheme \<Rightarrow> addr set \<Rightarrow> ('e, 'x) kio_scheme \<Rightarrow> bool" where
  "io_extends k A k' \<longleftrightarrow> io_frame k k' \<and> pool_grows k A k'"

lemma io_extendsD:
  assumes "io_extends k A k'"
  shows "io_frame k k'" and "ticks k \<le> ticks k'"
    and "a \<notin> A \<Longrightarrow> blocks k' a = blocks k a"
    and "a \<in> A \<Longrightarrow> blocks k' a \<noteq> None"
    and "a \<in> A \<Longrightarrow> ticks k \<le> a \<and> a < ticks k'"
  using assms by (auto simp: io_extends_def pool_grows_def)

lemma io_extends_refl [simp]: "io_extends k {} k"
  by (simp add: io_extends_def)

lemma io_extends_blocks0: "io_extends k {} k' \<Longrightarrow> blocks k' = blocks k"
  by (simp add: io_extends_def pool_grows_blocks0)

lemma io_extends_granted: "io_extends k A k' \<Longrightarrow> granted k' = granted k"
  by (simp add: io_extends_def io_frame_granted)

lemma io_extends_wf: "io_extends k A k' \<Longrightarrow> pool_wf k \<Longrightarrow> pool_wf k'"
  unfolding io_extends_def using pool_grows_wf by blast

lemma io_extends_seq:
  assumes "io_extends k A k1" and "io_extends k1 B k2"
  shows "io_extends k (A \<union> B) k2" and "A \<inter> B = {}"
  using assms pool_grows_seq [of k A k1 B k2] io_frame_trans [of k k1 k2]
  by (simp_all add: io_extends_def)

lemma io_extends_trans0: "io_extends k A k1 \<Longrightarrow> io_extends k1 {} k2 \<Longrightarrow> io_extends k A k2"
  using io_extends_seq(1) [of k A k1 "{}" k2] by simp

lemma io_extends_files [simp]: "io_extends k A (k'\<lparr>files := f\<rparr>) = io_extends k A k'"
  by (simp add: io_extends_def pool_grows_def)

lemma io_extends_handles [simp]: "io_extends k A (k'\<lparr>handles := h\<rparr>) = io_extends k A k'"
  by (simp add: io_extends_def pool_grows_def)

lemma io_extends_alloc:
  assumes "io_extends k A k'" and "ExAllocatePoolWithTag b k' = (r, k'')" and "pool_wf k"
  shows "io_extends k (A \<union> set_option r) k''" and "set_option r \<inter> A = {}"
  using assms pool_grows_alloc [of k A k' b r k''] io_frame_trans [OF _ io_frame_alloc [OF assms(2)]]
  by (simp_all add: io_extends_def)

lemma io_extends_free:
  assumes "io_extends k A k'" and "a \<in> A" and "pool_wf k"
  shows "\<exists>k''. ExFreePoolWithTag (Some a) k' = Inr k'' \<and> io_extends k (A - {a}) k''"
proof -
  obtain k'' where k'': "ExFreePoolWithTag (Some a) k' = Inr k''" "pool_grows k (A - {a}) k''"
    using pool_grows_free [of k A k' a] assms by (auto simp: io_extends_def)
  then show ?thesis
    using io_frame_trans [OF io_extendsD(1) [OF assms(1)] io_frame_free [OF k''(1)]]
    by (simp add: io_extends_def)
qed

subsection \<open>The routines keep the pool\<close>

text \<open>The copy loop touches the recorded effects only.\<close>

lemma copy_loop_extends [simp]:
  "io_extends k0 A (copy_loop env path offset k) = io_extends k0 A k"
proof (induction env path offset k rule: copy_loop.induct)
  case (1 env path offset k)
  then show ?case by (subst copy_loop.simps) (auto simp: Let_def)
qed

lemma CreateADirectory_extends [simp]:
  "io_extends k0 A (CreateADirectory env path k) = io_extends k0 A k"
  by (simp add: CreateADirectory_def Let_def split: prod.splits)

lemma create_directories_extends:
  "pool_wf k \<Longrightarrow> \<exists>k'. create_directories env cs rest i prev whole k = Inr k' \<and> io_extends k {} k'"
proof (induction rest arbitrary: i prev whole k)
  case (Cons c rest)
  show ?case
  proof (cases "c = BACKSLASH \<and> i \<noteq> 0")
    case True
    obtain r k1 where al: "ExAllocatePoolWithTag (Raw (2 * (i - prev + 1))) k = (r, k1)"
      by (cases "ExAllocatePoolWithTag (Raw (2 * (i - prev + 1))) k")
    have ext: "io_extends k (set_option r) k1"
      using io_extends_alloc(1) [OF io_extends_refl al Cons.prems] by simp
    show ?thesis
    proof (cases r)
      case None
      then show ?thesis using True al ext by auto
    next
      case (Some d)
      let ?w = "RtlUnicodeStringCatString whole
        (takeWhile (\<lambda>c. c \<noteq> 0) (take (i - prev) (drop prev cs)))"
      have "io_extends k {d} (CreateADirectory env ?w k1)" using ext Some by simp
      from io_extends_free [OF this _ Cons.prems] obtain k3 where
        k3: "ExFreePoolWithTag (Some d) (CreateADirectory env ?w k1) = Inr k3" "io_extends k {} k3"
        by auto
      from Cons.IH [OF io_extends_wf [OF k3(2) Cons.prems]] obtain k4 where
        k4: "create_directories env cs rest (Suc i) i ?w k3 = Inr k4" "io_extends k3 {} k4"
        by blast
      have "create_directories env cs (c # rest) i prev whole k = Inr k4"
        using True al Some k3(1) k4(1) by (simp del: ExFreePoolWithTag.simps)
      then show ?thesis using io_extends_trans0 [OF k3(2) k4(2)] by blast
    qed
  next
    case False
    then show ?thesis using Cons by auto
  qed
qed simp

lemma CreateAllDirectories_extends:
  assumes "pool_wf k"
  shows "\<exists>k'. CreateAllDirectories env root directory k = Inr k' \<and> io_extends k {} k'"
proof -
  let ?m = "MaximumLength root + MaximumLength directory + 2"
  obtain r k1 where al: "ExAllocatePoolWithTag (Raw (unat ?m)) k = (r, k1)"
    by (cases "ExAllocatePoolWithTag (Raw (unat ?m)) k")
  have ext: "io_extends k (set_option r) k1"
    using io_extends_alloc(1) [OF io_extends_refl al assms] by simp
  show ?thesis
  proof (cases r)
    case None
    then show ?thesis using al ext by (simp add: CreateAllDirectories_def Let_def)
  next
    case (Some t)
    let ?cs = "take (unat (Length directory) div 2) (Chars directory)"
    let ?w = "RtlUnicodeStringCat (empty_string ?m (Some t)) root"
    obtain k2 where k2: "create_directories env ?cs ?cs 0 0 ?w k1 = Inr k2" "io_extends k1 {} k2"
      using create_directories_extends [OF io_extends_wf [OF ext assms]] by blast
    have "io_extends k {t} k2" using io_extends_trans0 [OF ext k2(2)] Some by simp
    from io_extends_free [OF this _ assms] obtain k3 where
      "ExFreePoolWithTag (Some t) k2 = Inr k3" "io_extends k {} k3" by auto
    then show ?thesis
      using al Some k2(1) by (simp add: CreateAllDirectories_def Let_def del: ExFreePoolWithTag.simps)
  qed
qed

lemma CopyFile_extends:
  assumes "pool_wf k"
  shows "\<exists>status k'. CopyFile env path k = Inr (status, k') \<and> io_extends k {} k'"
proof -
  let ?k1 = "k\<lparr>files := files k @ [CreateCopy path (snd (query_std env))],
    handles := Suc (handles k)\<rparr>"
  have ext1: "io_extends k {} ?k1" by simp
  obtain r k2 where al: "ExAllocatePoolWithTag (Raw 65536) ?k1 = (r, k2)"
    by (cases "ExAllocatePoolWithTag (Raw 65536) ?k1")
  have ext2: "io_extends k (set_option r) k2"
    using io_extends_alloc(1) [OF ext1 al assms] by simp
  obtain k3 where k3: "(case r of None \<Rightarrow> Inr k2
      | Some b \<Rightarrow> ExFreePoolWithTag (Some b) (copy_loop env path 0 k2)) = Inr k3"
    and ext3: "io_extends k {} k3"
  proof (cases r)
    case (Some b)
    then have "io_extends k {b} (copy_loop env path 0 k2)" using ext2 by simp
    from io_extends_free [OF this _ assms] obtain k3 where
      "ExFreePoolWithTag (Some b) (copy_loop env path 0 k2) = Inr k3" "io_extends k {} k3" by auto
    then show ?thesis using Some by (auto intro: that)
  qed (use ext2 in \<open>auto intro: that\<close>)
  have "and_then (case ExAllocatePoolWithTag (Raw 65536) ?k1 of
        (None, k2) \<Rightarrow> Inr k2
      | (Some b, k2) \<Rightarrow> ExFreePoolWithTag (Some b) (copy_loop env path 0 k2))
      (\<lambda>k3. Inr (STATUS_SUCCESS, k3\<lparr>handles := handles k3 - 1\<rparr>)) =
    Inr (STATUS_SUCCESS, k3\<lparr>handles := handles k3 - 1\<rparr>)"
    using k3 al by (cases r) simp_all
  then show ?thesis
    using ext1 ext3 by (simp add: CopyFile_def Let_def)
qed

text \<open>
  The drive name: its string is well-formed and owns the only block added, except that the
  system's block stays behind when the driver's own allocation is refused.
\<close>

definition drive_ok :: "fs_env \<Rightarrow> bool" where
  "drive_ok env \<longleftrightarrow>
     (case dos_name env of None \<Rightarrow> True
      | Some name \<Rightarrow> us_wf name \<and> unat (MaximumLength name) + 2 \<le> 65534)"

lemma drive_chars_fit:
  assumes "us_wf name" and "unat (MaximumLength name) + 2 \<le> 65534"
  shows "unat (MaximumLength name + 2) = unat (MaximumLength name) + 2"
    and "2 * length (BACKSLASH # filter (\<lambda>c. c \<noteq> COLON) (take n (Chars name)))
      \<le> unat (MaximumLength name + 2)"
proof -
  show eq: "unat (MaximumLength name + 2) = unat (MaximumLength name) + 2"
    using unat_u16_add [of "MaximumLength name" 2] assms(2) by simp
  have "length (filter (\<lambda>c. c \<noteq> COLON) (take n (Chars name))) \<le> length (Chars name)"
    by (rule order_trans [OF length_filter_le]) simp
  moreover have "2 * length (Chars name) \<le> unat (MaximumLength name)"
    using assms(1) by (simp add: us_wf_def us_valid_def word_le_nat_alt)
  ultimately show "2 * length (BACKSLASH # filter (\<lambda>c. c \<noteq> COLON) (take n (Chars name)))
      \<le> unat (MaximumLength name + 2)"
    by (simp add: eq)
qed

lemma GetDosDeviceName_extends:
  assumes "pool_wf k" and "drive_ok env"
  shows "\<exists>s k' A. GetDosDeviceName env (Some share) k = Inr (s, k') \<and> io_extends k A k' \<and>
    set_option (Buffer s) \<subseteq> A \<and> ((\<forall>n. granted k n) \<longrightarrow> A = set_option (Buffer s))"
proof (cases "dos_name env")
  case None
  obtain r k1 where al: "ExAllocatePoolWithTag (Raw (unat (MaximumLength share))) k = (r, k1)"
    by (cases "ExAllocatePoolWithTag (Raw (unat (MaximumLength share))) k")
  have "io_extends k (set_option r) k1"
    using io_extends_alloc(1) [OF io_extends_refl al assms(1)] by simp
  then show ?thesis
    using None al by (cases r) (auto simp: GetDosDeviceName_def)
next
  case (Some name)
  have ok: "us_wf name" "unat (MaximumLength name) + 2 \<le> 65534"
    using assms(2) Some by (simp_all add: drive_ok_def)
  let ?m = "MaximumLength name + 2"
  let ?k1 = "k\<lparr>ticks := Suc (ticks k),
    blocks := (blocks k)(ticks k \<mapsto> Raw (unat (MaximumLength name)))\<rparr>"
  have ext1: "io_extends k {ticks k} ?k1"
    by (simp add: io_extends_def pool_grows_def)
  obtain r k2 where al: "ExAllocatePoolWithTag (Raw (unat ?m)) ?k1 = (r, k2)"
    by (cases "ExAllocatePoolWithTag (Raw (unat ?m)) ?k1")
  have ext2: "io_extends k ({ticks k} \<union> set_option r) k2" and dis: "set_option r \<inter> {ticks k} = {}"
    using io_extends_alloc [OF ext1 al assms(1)] by simp_all
  show ?thesis
  proof (cases r)
    case None
    then have "\<not> granted k (Suc (ticks k))"
      using al by (auto simp: ExAllocatePoolWithTag_def split: if_splits)
    then show ?thesis
      using Some None al ext2 by (auto simp: GetDosDeviceName_def Let_def)
  next
    case b: (Some b)
    from io_extends_free [OF ext2 _ assms(1), of "ticks k"] obtain k3 where
      "ExFreePoolWithTag (Some (ticks k)) k2 = Inr k3"
      "io_extends k ({ticks k} \<union> set_option r - {ticks k}) k3"
      by (auto simp del: ExFreePoolWithTag.simps)
    moreover have "{ticks k} \<union> set_option r - {ticks k} = {b}" using b dis by auto
    ultimately have k3: "ExFreePoolWithTag (Some (ticks k)) k2 = Inr k3" "io_extends k {b} k3"
      by simp_all
    have "GetDosDeviceName env (Some share) k = Inr (us_set (BACKSLASH #
        filter (\<lambda>c. c \<noteq> COLON) (take (unat (Length name) div 2) (Chars name)))
        (empty_string ?m (Some b)), k3)"
      using Some b al k3(1) drive_chars_fit(2) [OF ok]
      by (simp add: GetDosDeviceName_def Let_def del: ExFreePoolWithTag.simps)
    then show ?thesis using k3(2) by auto
  qed
qed

lemma free_if_set_extends:
  assumes "io_extends k A k'" and "set_option b \<subseteq> A" and "pool_wf k"
  shows "\<exists>k''. free_if_set b k' = Inr k'' \<and> io_extends k (A - set_option b) k''"
proof (cases b)
  case (Some a)
  with assms(2) have "a \<in> A" by simp
  from io_extends_free [OF assms(1) this assms(3)] show ?thesis
    by (auto simp: free_if_set_def Some simp del: ExFreePoolWithTag.simps)
qed (use assms in \<open>simp add: free_if_set_def\<close>)

text \<open>
  Collecting a deleted file never brings the machine down and frees every buffer; only the
  system's drive name can stay behind, and only when an allocation is refused.
\<close>

lemma CollectDeletedFile_extends:
  assumes "pool_wf k" and "drive_ok env"
  shows "\<exists>k' A. CollectDeletedFile env logDir info k = Inr k' \<and> io_extends k A k' \<and>
    ((\<forall>n. granted k n) \<longrightarrow> A = {})"
proof -
  obtain drive k1 A where drive: "GetDosDeviceName env (Some (fni_Share info)) k = Inr (drive, k1)"
    and e1: "io_extends k A k1" and sub: "set_option (Buffer drive) \<subseteq> A"
    and full: "(\<forall>n. granted k n) \<longrightarrow> A = set_option (Buffer drive)"
    using GetDosDeviceName_extends [OF assms] by blast
  let ?m1 = "MaximumLength logDir + MaximumLength drive
    + MaximumLength (fni_FinalComponent info) + MaximumLength (fni_ParentDir info) + 2"
  let ?m2 = "MaximumLength (fni_ParentDir info) + MaximumLength drive + 2"
  obtain b1 k2 where a1: "ExAllocatePoolWithTag (Raw (unat ?m1)) k1 = (b1, k2)"
    by (cases "ExAllocatePoolWithTag (Raw (unat ?m1)) k1")
  have e2: "io_extends k (A \<union> set_option b1) k2" and d1: "set_option b1 \<inter> A = {}"
    using io_extends_alloc [OF e1 a1 assms(1)] by simp_all
  obtain b2 k3 where a2: "ExAllocatePoolWithTag (Raw (unat ?m2)) k2 = (b2, k3)"
    by (cases "ExAllocatePoolWithTag (Raw (unat ?m2)) k2")
  have e3: "io_extends k (A \<union> set_option b1 \<union> set_option b2) k3"
    and d2: "set_option b2 \<inter> (A \<union> set_option b1) = {}"
    using io_extends_alloc [OF e2 a2 assms(1)] by simp_all
  define path where "path = (if b1 \<noteq> None
    then RtlUnicodeStringCat (RtlUnicodeStringCat (RtlUnicodeStringCat
      (RtlUnicodeStringCat (empty_string ?m1 b1) logDir) drive) (fni_ParentDir info))
      (fni_FinalComponent info) else empty_string ?m1 b1)"
  define dir where "dir = (if b2 \<noteq> None
    then RtlUnicodeStringCat (RtlUnicodeStringCat (empty_string ?m2 b2) drive) (fni_ParentDir info)
    else empty_string ?m2 b2)"
  obtain k4 where c4: "CreateAllDirectories env logDir dir k3 = Inr k4" and "io_extends k3 {} k4"
    using CreateAllDirectories_extends [OF io_extends_wf [OF e3 assms(1)]] by blast
  then have e4: "io_extends k (A \<union> set_option b1 \<union> set_option b2) k4"
    using io_extends_trans0 [OF e3] by blast
  obtain st k5 where c5: "CopyFile env (Chars path) k4 = Inr (st, k5)" and "io_extends k4 {} k5"
    using CopyFile_extends [OF io_extends_wf [OF e4 assms(1)]] by blast
  then have e5: "io_extends k (A \<union> set_option b1 \<union> set_option b2) k5"
    using io_extends_trans0 [OF e4] by blast
  obtain k6 where f6: "free_if_set b1 k5 = Inr k6"
    and e6: "io_extends k (A \<union> set_option b1 \<union> set_option b2 - set_option b1) k6"
    using free_if_set_extends [OF e5 _ assms(1), of b1] by blast
  obtain k7 where f7: "free_if_set b2 k6 = Inr k7"
    and e7: "io_extends k (A \<union> set_option b1 \<union> set_option b2 - set_option b1 - set_option b2) k7"
    using free_if_set_extends [OF e6 _ assms(1), of b2] d2 by blast
  have "A \<union> set_option b1 \<union> set_option b2 - set_option b1 - set_option b2 = A"
    using d1 d2 by auto
  with e7 have e7: "io_extends k A k7" by simp
  obtain k8 where f8: "free_if_set (Buffer drive) k7 = Inr k8"
    and e8: "io_extends k (A - set_option (Buffer drive)) k8"
    using free_if_set_extends [OF e7 sub assms(1)] by blast
  have "CollectDeletedFile env logDir info k = Inr k8"
    using drive a1 a2 c4 c5 f6 f7 f8
    by (simp add: CollectDeletedFile_def Let_def path_def dir_def del: not_None_eq)
  then show ?thesis using e8 full by fastforce
qed

end
