(* ===== verification/DeletedFileCopies.thy ===== *)
theory DeletedFileCopies
  imports FilePaths
begin

text \<open>
  What the file driver leaves on disk when it collects a deleted file: which directories it
  creates and in which order, what it writes into the copy, and where the copy is put.
\<close>

subsection \<open>The drive name\<close>

lemma even_unat_add2:
  "even (unat m) \<Longrightarrow> unat m + 2 \<le> 65534 \<Longrightarrow> even (unat (m + 2 :: u16))"
  using unat_u16_add [of m 2] by simp

text \<open>The drive component of the copy's path.\<close>

definition drive_component :: "unicode_string \<Rightarrow> wstring" where
  "drive_component name = BACKSLASH # filter (\<lambda>c. c \<noteq> COLON) (Chars name)"

lemma GetDosDeviceName_named:
  assumes "dos_name env = Some name" and "drive_ok env" and "\<forall>n. granted k n"
  shows "\<exists>s k'. GetDosDeviceName env pShareName k = Inr (s, k') \<and>
    Chars s = drive_component name \<and> us_wf s \<and> MaximumLength s = MaximumLength name + 2 \<and>
    files k' = files k"
proof -
  have ok: "us_wf name" "unat (MaximumLength name) + 2 \<le> 65534"
    using assms(1,2) by (simp_all add: drive_ok_def)
  have all: "take (unat (Length name) div 2) (Chars name) = Chars name"
    using ok(1) by (simp add: us_wf_length)
  have "2 * length (drive_component name) \<le> unat (MaximumLength name + 2)"
    using drive_chars_fit(2) [OF ok, of "unat (Length name) div 2"]
    by (simp add: drive_component_def all)
  moreover have "us_wf (us_set (drive_component name)
      (empty_string (MaximumLength name + 2) (Some (Suc (ticks k)))))"
  proof (rule us_wf_set)
    show "us_valid (empty_string (MaximumLength name + 2) (Some (Suc (ticks k))))"
      using ok even_unat_add2 drive_chars_fit(1) [OF ok]
      by (auto intro!: us_wf_valid us_wf_empty_string simp: us_wf_def us_valid_def)
    show "length (drive_component name)
        \<le> us_capacity (empty_string (MaximumLength name + 2) (Some (Suc (ticks k))))"
      using calculation by (simp add: us_capacity_def)
  qed
  ultimately show ?thesis
    using assms(1,3)
    by (simp add: GetDosDeviceName_def ExAllocatePoolWithTag_def Let_def all
        drive_component_def [symmetric])
qed

subsection \<open>The directories\<close>

text \<open>
  The separators of the directory string after its first character, in order; the directory
  created for the separator at \<open>j\<close> is the root followed by the first \<open>j\<close> characters.
\<close>

definition separators :: "nat \<Rightarrow> wstring \<Rightarrow> nat list" where
  "separators i cs = filter (\<lambda>j. j \<noteq> 0 \<and> cs ! j = BACKSLASH) [i..<length cs]"

lemma separators_end [simp]: "length cs \<le> i \<Longrightarrow> separators i cs = []"
  by (simp add: separators_def)

lemma separators_step:
  "i < length cs \<Longrightarrow> separators i cs =
     (if i \<noteq> 0 \<and> cs ! i = BACKSLASH then i # separators (Suc i) cs else separators (Suc i) cs)"
  by (simp add: separators_def upt_conv_Cons)

lemma CreateADirectory_files [simp]:
  "files (CreateADirectory env path k) = files k @ [MkDir (Chars path)]"
  by (simp add: CreateADirectory_def Let_def split: prod.splits)

lemma files_alloc: "ExAllocatePoolWithTag b k = (r, k') \<Longrightarrow> files k' = files k"
  by (auto simp: ExAllocatePoolWithTag_def split: if_splits)

lemma files_free: "ExFreePoolWithTag a k = Inr k' \<Longrightarrow> files k' = files k"
  by (cases a) (auto split: option.splits)

lemma granted_alloc: "\<forall>n. granted k n \<Longrightarrow> \<exists>k'. ExAllocatePoolWithTag b k = (Some (ticks k), k')"
  by (simp add: ExAllocatePoolWithTag_def)

lemma take_append_rest: "take n P @ take (n - length (take n P)) D = take n (P @ D)"
  by (simp add: min_def)

lemma Chars_CatString_prefix:
  assumes "us_wf whole" and "Chars whole = take (us_capacity whole) (R @ take prev cs)"
    and "prev \<le> i" and "i \<le> length cs"
  shows "Chars (RtlUnicodeStringCatString whole (take (i - prev) (drop prev cs)))
     = take (us_capacity whole) (R @ take i cs)"
proof -
  have "take prev cs @ take (i - prev) (drop prev cs) = take i cs"
    using assms(3) by (metis le_add_diff_inverse take_add)
  then have split: "R @ take i cs = (R @ take prev cs) @ take (i - prev) (drop prev cs)"
    by simp
  have "Chars (RtlUnicodeStringCatString whole (take (i - prev) (drop prev cs))) =
      Chars whole @ take (us_capacity whole - length (Chars whole)) (take (i - prev) (drop prev cs))"
    using assms(1) by (simp add: RtlUnicodeStringCatString_def)
  also have "\<dots> = take (us_capacity whole) (R @ take i cs)"
    unfolding split assms(2) by (rule take_append_rest)
  finally show ?thesis .
qed

lemma create_directories_files:
  assumes "rest = drop i cs" and "prev \<le> i" and "us_wf whole" and "0 \<notin> set cs"
    and "Chars whole = take (us_capacity whole) (R @ take prev cs)"
    and "\<forall>n. granted k n" and "pool_wf k"
    and "create_directories env cs rest i prev whole k = Inr k'"
  shows "files k' = files k @
    map (\<lambda>j. MkDir (take (us_capacity whole) (R @ take j cs))) (separators i cs)"
  using assms
proof (induction rest arbitrary: i prev whole k)
  case Nil
  then show ?case by simp
next
  case (Cons c rest)
  have i: "i < length cs" and c: "c = cs ! i" and rest: "rest = drop (Suc i) cs"
    using Cons.prems(1) by (metis drop_eq_Nil list.distinct(1) not_le,
      metis Cons_nth_drop_Suc drop_eq_Nil list.distinct(1) list.inject not_le,
      metis drop_Suc tl_drop list.sel(3))
  show ?case
  proof (cases "c = BACKSLASH \<and> i \<noteq> 0")
    case True
    let ?d = "take (i - prev) (drop prev cs)"
    have noz: "takeWhile (\<lambda>c. c \<noteq> 0) ?d = ?d"
      using Cons.prems(4) by (auto simp: takeWhile_eq_all_conv dest!: in_set_takeD in_set_dropD)
    let ?w = "RtlUnicodeStringCatString whole ?d"
    have w: "Chars ?w = take (us_capacity whole) (R @ take i cs)"
      by (rule Chars_CatString_prefix) (use Cons.prems(2,3,5) i in auto)
    obtain k1 where al: "ExAllocatePoolWithTag (Raw (2 * (i - prev + 1))) k = (Some (ticks k), k1)"
      using granted_alloc [OF Cons.prems(6)] by blast
    let ?k2 = "CreateADirectory env ?w k1"
    have "io_extends k {ticks k} ?k2"
      using io_extends_alloc(1) [OF io_extends_refl al Cons.prems(7)] by simp
    from io_extends_free [OF this _ Cons.prems(7)] obtain k3 where
      k3: "ExFreePoolWithTag (Some (ticks k)) ?k2 = Inr k3" "io_extends k {} k3"
      by (auto simp del: ExFreePoolWithTag.simps)
    have f3: "files k3 = files k @ [MkDir (take (us_capacity whole) (R @ take i cs))]"
      using files_free [OF k3(1)] files_alloc [OF al] w by simp
    have run: "create_directories env cs rest (Suc i) i ?w k3 = Inr k'"
      using Cons.prems(8) True al k3(1) by (simp add: Let_def noz del: ExFreePoolWithTag.simps)
    have g3: "\<forall>n. granted k3 n" using Cons.prems(6) io_extends_granted [OF k3(2)] by simp
    have w3: "pool_wf k3" using io_extends_wf [OF k3(2) Cons.prems(7)] .
    have "files k' = files k3 @
        map (\<lambda>j. MkDir (take (us_capacity ?w) (R @ take j cs))) (separators (Suc i) cs)"
      by (rule Cons.IH [OF rest _ _ Cons.prems(4) _ _ _ run])
         (use w Cons.prems(3) g3 w3 in auto)
    then show ?thesis using f3 True c i by (simp add: separators_step)
  next
    case False
    then have "create_directories env cs rest (Suc i) prev whole k = Inr k'"
      using Cons.prems(8) by auto
    from Cons.IH [OF rest _ Cons.prems(3-7) this] Cons.prems(2) False c i
    show ?thesis by (auto simp: separators_step)
  qed
qed

lemma CreateAllDirectories_files:
  fixes root directory :: unicode_string
  defines "m \<equiv> MaximumLength root + MaximumLength directory + 2"
  assumes "us_wf root" and "us_wf directory" and "0 \<notin> set (Chars directory)"
    and "unat (MaximumLength root) + unat (MaximumLength directory) + 2 \<le> 65534"
    and "\<forall>n. granted k n" and "pool_wf k"
    and "CreateAllDirectories env root directory k = Inr k'"
  shows "files k' = files k @
    map (\<lambda>j. MkDir (Chars root @ take j (Chars directory))) (separators 0 (Chars directory))"
proof -
  have m: "unat m = unat (MaximumLength root) + unat (MaximumLength directory) + 2"
  proof -
    have "unat (MaximumLength root + MaximumLength directory) =
        unat (MaximumLength root) + unat (MaximumLength directory)"
      by (rule unat_u16_add) (use assms(5) in simp)
    then show ?thesis
      using unat_u16_add [of "MaximumLength root + MaximumLength directory" 2] assms(5)
      by (simp add: m_def)
  qed
  let ?cs = "Chars directory"
  let ?e = "empty_string m (Some (ticks k))"
  let ?w = "RtlUnicodeStringCat ?e root"
  have wf: "us_wf ?e"
    by (rule us_wf_empty_string) (use m assms(2,3,5) in \<open>auto simp: us_wf_def us_valid_def\<close>)
  have cap: "us_capacity ?e = unat m div 2" by (simp add: us_capacity_def)
  have fit: "2 * length (Chars root) + 2 * length ?cs \<le> unat m"
    using assms(2,3) m by (auto simp: us_wf_def us_valid_def word_le_nat_alt)
  have w: "Chars ?w = Chars root"
    using Chars_Cat_fits [OF us_wf_valid [OF wf] us_wf_valid [OF assms(2)]] fit
    by (simp add: cap)
  have cs: "take (unat (Length directory) div 2) ?cs = ?cs"
    using assms(3) by (simp add: us_wf_length)
  obtain k1 where al: "ExAllocatePoolWithTag (Raw (unat m)) k = (Some (ticks k), k1)"
    using granted_alloc [OF assms(6)] by blast
  have ext: "io_extends k {ticks k} k1"
    using io_extends_alloc(1) [OF io_extends_refl al assms(7)] by simp
  obtain k2 where k2: "create_directories env ?cs ?cs 0 0 ?w k1 = Inr k2"
    and free: "ExFreePoolWithTag (Some (ticks k)) k2 = Inr k'"
    using assms(8) al
    by (auto simp: CreateAllDirectories_def Let_def cs m_def [symmetric] and_then_Inr_iff
        simp del: ExFreePoolWithTag.simps)
  have g1: "\<forall>n. granted k1 n" using assms(6) io_extends_granted [OF ext] by simp
  have w1: "pool_wf k1" using io_extends_wf [OF ext assms(7)] .
  have "files k2 = files k1 @
      map (\<lambda>j. MkDir (take (us_capacity ?w) (Chars root @ take j ?cs))) (separators 0 ?cs)"
    by (rule create_directories_files [OF _ _ _ assms(4) _ _ _ k2])
       (use wf w fit cap g1 w1 in auto)
  moreover have "take (us_capacity ?w) (Chars root @ take j ?cs) = Chars root @ take j ?cs" for j
    by (rule take_all) (use fit in \<open>auto simp: cap min_def\<close>)
  ultimately show ?thesis
    using files_free [OF free] files_alloc [OF al] by simp
qed

text \<open>Every directory is created after the one above it.\<close>

lemma separators_sorted: "sorted (separators i cs)"
  by (simp add: separators_def sorted_wrt_filter)

lemma set_separators:
  "set (separators 0 cs) = {j. 0 < j \<and> j < length cs \<and> cs ! j = BACKSLASH}"
  by (auto simp: separators_def)

subsection \<open>The copy\<close>

text \<open>The bytes of the copy after a list of effects, starting from \<open>img\<close>.\<close>

fun apply_writes :: "fs_op list \<Rightarrow> u8 list \<Rightarrow> u8 list" where
  "apply_writes [] img = img"
| "apply_writes (WriteAt p off d # ops) img =
     apply_writes ops (take off img @ replicate (off - length img) 0 @ d @ drop (off + length d) img)"
| "apply_writes (op # ops) img = apply_writes ops img"

lemma copy_loop_files:
  assumes "\<forall>p. NT_SUCCESS (read_status env p)" and "\<forall>p. NT_SUCCESS (write_status env p)"
  shows "offset \<le> length (content env) \<Longrightarrow>
    \<exists>ops. files (copy_loop env path offset k) = files k @ ops \<and>
      apply_writes ops (take offset (content env)) = content env"
  using assms
proof (induction env path offset k rule: copy_loop.induct)
  case (1 env path offset k)
  let ?bs = "take 65536 (drop offset (content env))"
  let ?k1 = "k\<lparr>files := files k @ [WriteAt path offset ?bs]\<rparr>"
  show ?case
  proof (cases "?bs = []")
    case True
    then have "offset = length (content env)" using "1.prems"(1) by simp
    then show ?thesis by (subst copy_loop.simps) simp
  next
    case False
    have grow: "take offset (content env) @ ?bs = take (offset + length ?bs) (content env)"
      by (simp add: take_add min_def)
    have img: "apply_writes (WriteAt path offset ?bs # ops) (take offset (content env)) =
        apply_writes ops (take (offset + length ?bs) (content env))" for ops
      using "1.prems"(1) grow by simp
    show ?thesis
    proof (cases "length ?bs = 65536")
      case True
      have le: "offset + length ?bs \<le> length (content env)" using "1.prems"(1) by simp
      from False True "1.prems"(2,3) "1.IH" [OF refl _ refl True le]
      obtain ops where ops: "files (copy_loop env path (offset + length ?bs) ?k1) =
          files ?k1 @ ops" "apply_writes ops (take (offset + length ?bs) (content env)) = content env"
        by auto
      have "copy_loop env path offset k = copy_loop env path (offset + length ?bs) ?k1"
        by (subst copy_loop.simps) (use False True "1.prems"(2,3) in \<open>simp add: Let_def\<close>)
      then show ?thesis
        using ops img [of ops] by (intro exI [of _ "WriteAt path offset ?bs # ops"]) simp
    next
      case short: False
      then have all: "offset + length ?bs = length (content env)"
        using "1.prems"(1) by (simp add: min_def split: if_splits)
      have "copy_loop env path offset k = ?k1"
        by (subst copy_loop.simps) (use False short "1.prems"(2,3) in \<open>simp add: Let_def\<close>)
      then show ?thesis
        using img [of "[]"] all by (intro exI [of _ "[WriteAt path offset ?bs]"]) simp
    qed
  qed
qed


lemma copy_loop_handles [simp]: "handles (copy_loop env path offset k) = handles k"
proof (induction env path offset k rule: copy_loop.induct)
  case (1 env path offset k)
  then show ?case by (subst copy_loop.simps) (auto simp: Let_def)
qed

lemma CopyFile_files:
  assumes "NT_SUCCESS (fst (query_std env))" and "NT_SUCCESS (create_copy env path)"
    and "NT_SUCCESS (ob_reference env)" and "\<forall>p. NT_SUCCESS (read_status env p)"
    and "\<forall>p. NT_SUCCESS (write_status env p)" and "\<forall>n. granted k n"
    and "CopyFile env path k = Inr (status, k')"
  shows "status = STATUS_SUCCESS \<and> handles k' = handles k \<and>
    (\<exists>ops. files k' = files k @ CreateCopy path (snd (query_std env)) # ops \<and>
       apply_writes ops [] = content env)"
proof -
  let ?k1 = "k\<lparr>files := files k @ [CreateCopy path (snd (query_std env))],
    handles := Suc (handles k)\<rparr>"
  let ?k2 = "?k1\<lparr>ticks := Suc (ticks k), blocks := (blocks k)(ticks k \<mapsto> Raw 65536)\<rparr>"
  have al: "ExAllocatePoolWithTag (Raw 65536) ?k1 = (Some (ticks k), ?k2)"
    using assms(6) by (simp add: ExAllocatePoolWithTag_def)
  obtain k3 where k3: "ExFreePoolWithTag (Some (ticks k)) (copy_loop env path 0 ?k2) = Inr k3"
    and k': "k' = k3\<lparr>handles := handles k3 - 1\<rparr>" and st: "status = STATUS_SUCCESS"
    using assms(1-3,7) al
    by (auto simp: CopyFile_def Let_def and_then_Inr_iff simp del: ExFreePoolWithTag.simps)
  obtain ops where "files (copy_loop env path 0 ?k2) = files ?k2 @ ops"
    and ops: "apply_writes ops [] = content env"
    using copy_loop_files [OF assms(4,5), of 0 path ?k2] by auto
  then have "files k3 = files k @ CreateCopy path (snd (query_std env)) # ops"
    using files_free [OF k3] by simp
  moreover have "handles k3 = Suc (handles k)"
    using k3 by (auto split: option.splits)
  ultimately show ?thesis using ops k' st by auto
qed

text \<open>When no write succeeds the file stays empty, and the status is a success all the same.\<close>

lemma copy_loop_failed_writes:
  "\<forall>p. \<not> NT_SUCCESS (write_status env p) \<Longrightarrow> files (copy_loop env path offset k) = files k"
proof (induction env path offset k rule: copy_loop.induct)
  case (1 env path offset k)
  then show ?case by (subst copy_loop.simps) (auto simp: Let_def)
qed

lemma CopyFile_failed_writes:
  assumes "NT_SUCCESS (fst (query_std env))" and "NT_SUCCESS (create_copy env path)"
    and "NT_SUCCESS (ob_reference env)" and "\<forall>p. \<not> NT_SUCCESS (write_status env p)"
    and "CopyFile env path k = Inr (status, k')"
  shows "status = STATUS_SUCCESS \<and>
    files k' = files k @ [CreateCopy path (snd (query_std env))]"
proof -
  let ?k1 = "k\<lparr>files := files k @ [CreateCopy path (snd (query_std env))],
    handles := Suc (handles k)\<rparr>"
  obtain r k2 where al: "ExAllocatePoolWithTag (Raw 65536) ?k1 = (r, k2)"
    by (cases "ExAllocatePoolWithTag (Raw 65536) ?k1")
  have f2: "files k2 = files ?k1" using files_alloc [OF al] .
  obtain k3 where k3: "(case r of None \<Rightarrow> Inr k2
      | Some b \<Rightarrow> ExFreePoolWithTag (Some b) (copy_loop env path 0 k2)) = Inr k3"
    and k': "k' = k3\<lparr>handles := handles k3 - 1\<rparr>" and st: "status = STATUS_SUCCESS"
    using assms(1-3,5) al
    by (auto simp: CopyFile_def Let_def and_then_Inr_iff simp del: ExFreePoolWithTag.simps)
  have "files k3 = files k2"
  proof (cases r)
    case (Some b)
    then have "ExFreePoolWithTag (Some b) (copy_loop env path 0 k2) = Inr k3" using k3 by simp
    from files_free [OF this] copy_loop_failed_writes [OF assms(4)] show ?thesis by simp
  qed (use k3 in simp)
  then show ?thesis using f2 k' st by simp
qed

subsection \<open>The whole collection\<close>

text \<open>
  The conditions under which nothing is refused or cut short: the names are well-formed and
  short enough for the 16-bit lengths, they hold no zero character, and the system serves
  every request.
\<close>

definition collectable ::
    "fs_env \<Rightarrow> unicode_string \<Rightarrow> unicode_string \<Rightarrow> file_name_information \<Rightarrow> bool" where
  "collectable env name logDir info \<longleftrightarrow>
     dos_name env = Some name \<and> us_wf name \<and> us_wf logDir \<and>
     us_wf (fni_ParentDir info) \<and> us_wf (fni_FinalComponent info) \<and>
     0 \<notin> set (Chars name) \<and> 0 \<notin> set (Chars (fni_ParentDir info)) \<and>
     unat (MaximumLength logDir) + unat (MaximumLength name) +
       unat (MaximumLength (fni_ParentDir info)) +
       unat (MaximumLength (fni_FinalComponent info)) + 6 \<le> 65534"

definition transfers :: "fs_env \<Rightarrow> wstring \<Rightarrow> bool" where
  "transfers env path \<longleftrightarrow>
     NT_SUCCESS (fst (query_std env)) \<and> NT_SUCCESS (create_copy env path) \<and>
     NT_SUCCESS (ob_reference env) \<and> (\<forall>p. NT_SUCCESS (read_status env p)) \<and>
     (\<forall>p. NT_SUCCESS (write_status env p))"

text \<open>Lengths of the concatenations, in 16 bits without wrap-around.\<close>

lemma unat_u16_sum:
  "unat a + unat b + unat c \<le> 65534 \<Longrightarrow> unat (a + b + c :: u16) = unat a + unat b + unat c"
  using unat_u16_add [of a b] unat_u16_add [of "a + b" c] by simp

lemma us_wf_max: "us_wf s \<Longrightarrow> 2 * length (Chars s) \<le> unat (MaximumLength s) \<and>
    even (unat (MaximumLength s))"
  by (auto simp: us_wf_def us_valid_def word_le_nat_alt)

lemma Cat_step:
  assumes "us_wf d" and "us_wf s" and "length (Chars d) + length (Chars s) \<le> us_capacity d"
  shows "us_wf (RtlUnicodeStringCat d s)" and "Chars (RtlUnicodeStringCat d s) = Chars d @ Chars s"
  using assms Chars_Cat_fits by (auto simp del: Cat_frame)

text \<open>Two and four strings appended to an empty one with room for all.\<close>

lemma Cat_two:
  assumes "us_wf e" and "Chars e = []" and "us_wf a" and "us_wf b"
    and "unat (MaximumLength a) + unat (MaximumLength b) \<le> unat (MaximumLength e)"
  shows "us_wf (RtlUnicodeStringCat (RtlUnicodeStringCat e a) b)"
    and "Chars (RtlUnicodeStringCat (RtlUnicodeStringCat e a) b) = Chars a @ Chars b"
proof -
  have fit: "length (Chars a) + length (Chars b) \<le> us_capacity e"
    unfolding us_capacity_def
    using us_wf_max [OF assms(3)] us_wf_max [OF assms(4)] assms(5) by linarith
  have 1: "us_wf (RtlUnicodeStringCat e a)" "Chars (RtlUnicodeStringCat e a) = Chars a"
    using Cat_step [OF assms(1,3)] assms(2) fit by simp_all
  show "us_wf (RtlUnicodeStringCat (RtlUnicodeStringCat e a) b)"
    and "Chars (RtlUnicodeStringCat (RtlUnicodeStringCat e a) b) = Chars a @ Chars b"
    using Cat_step [OF 1(1) assms(4)] 1(2) fit by simp_all
qed

lemma Cat_four:
  assumes "us_wf e" and "Chars e = []" and "us_wf a" and "us_wf b" and "us_wf c" and "us_wf d"
    and "unat (MaximumLength a) + unat (MaximumLength b) + unat (MaximumLength c) +
      unat (MaximumLength d) \<le> unat (MaximumLength e)"
  shows "Chars (RtlUnicodeStringCat (RtlUnicodeStringCat (RtlUnicodeStringCat
    (RtlUnicodeStringCat e a) b) c) d) = Chars a @ Chars b @ Chars c @ Chars d"
proof -
  let ?ab = "RtlUnicodeStringCat (RtlUnicodeStringCat e a) b"
  have fit: "length (Chars a) + length (Chars b) + length (Chars c) + length (Chars d)
      \<le> us_capacity e"
    unfolding us_capacity_def
    using us_wf_max [OF assms(3)] us_wf_max [OF assms(4)] us_wf_max [OF assms(5)]
      us_wf_max [OF assms(6)] assms(7) by linarith
  have ab: "us_wf ?ab" "Chars ?ab = Chars a @ Chars b"
    using Cat_two [OF assms(1-4)] assms(7) by simp_all
  have abc: "us_wf (RtlUnicodeStringCat ?ab c)"
    "Chars (RtlUnicodeStringCat ?ab c) = Chars a @ Chars b @ Chars c"
    using Cat_step [OF ab(1) assms(5)] ab(2) fit by simp_all
  show ?thesis
    using Cat_step(2) [OF abc(1) assms(6)] abc(2) fit by simp
qed

lemma files_free_if_set: "free_if_set b k = Inr k' \<Longrightarrow> files k' = files k"
  by (auto simp: free_if_set_def dest: files_free split: if_splits simp del: ExFreePoolWithTag.simps)

text \<open>
  The call sequence, given the drive name: it runs to its end, the directory string and
  the path have the expected characters, and the effects are those of its two calls.
\<close>

lemma CollectDeletedFile_run:
  fixes k k1 k' :: "('e, 'x) kio_scheme"
  assumes drive: "GetDosDeviceName env (Some (fni_Share info)) k = Inr (drive, k1)"
    and ext: "io_extends k A k1" and wf: "pool_wf k" and all: "\<forall>n. granted k n"
    and wfs: "us_wf drive" "us_wf logDir" "us_wf (fni_ParentDir info)"
      "us_wf (fni_FinalComponent info)"
    and sum: "unat (MaximumLength logDir) + unat (MaximumLength drive) +
      unat (MaximumLength (fni_FinalComponent info)) + unat (MaximumLength (fni_ParentDir info))
      + 4 \<le> 65534"
    and run: "CollectDeletedFile env logDir info k = Inr k'"
  shows "\<exists>dir (k3 :: ('e, 'x) kio_scheme) k4 k5 st. us_wf dir \<and>
    Chars dir = Chars drive @ Chars (fni_ParentDir info) \<and>
    unat (MaximumLength dir) = unat (MaximumLength (fni_ParentDir info))
      + unat (MaximumLength drive) + 2 \<and>
    files k3 = files k1 \<and> (\<forall>n. granted k3 n) \<and> (\<forall>n. granted k4 n) \<and> pool_wf k3 \<and>
    CreateAllDirectories env logDir dir k3 = Inr k4 \<and>
    CopyFile env (Chars logDir @ Chars drive @ Chars (fni_ParentDir info) @
      Chars (fni_FinalComponent info)) k4 = Inr (st, k5) \<and> files k' = files k5"
proof -
  let ?par = "fni_ParentDir info" and ?fin = "fni_FinalComponent info"
  let ?m1 = "MaximumLength logDir + MaximumLength drive + MaximumLength ?fin
    + MaximumLength ?par + 2"
  let ?m2 = "MaximumLength ?par + MaximumLength drive + 2"
  have m1: "unat ?m1 = unat (MaximumLength logDir) + unat (MaximumLength drive)
      + unat (MaximumLength ?fin) + unat (MaximumLength ?par) + 2"
    using unat_u16_sum [of "MaximumLength logDir" "MaximumLength drive" "MaximumLength ?fin"]
      unat_u16_sum [of "MaximumLength logDir + MaximumLength drive + MaximumLength ?fin"
        "MaximumLength ?par" 2] sum by simp
  have m2: "unat ?m2 = unat (MaximumLength ?par) + unat (MaximumLength drive) + 2"
    using unat_u16_sum [of "MaximumLength ?par" "MaximumLength drive" 2] sum by simp
  have g1: "\<forall>n. granted k1 n" using all io_extends_granted [OF ext] by simp
  obtain b1 k2 where a1: "ExAllocatePoolWithTag (Raw (unat ?m1)) k1 = (Some b1, k2)"
    using granted_alloc [OF g1] by blast
  then have g2: "\<forall>n. granted k2 n" using g1 io_frame_granted [OF io_frame_alloc [OF a1]] by simp
  obtain b2 k3 where a2: "ExAllocatePoolWithTag (Raw (unat ?m2)) k2 = (Some b2, k3)"
    using granted_alloc [OF g2] by blast
  then have g3: "\<forall>n. granted k3 n" using g2 io_frame_granted [OF io_frame_alloc [OF a2]] by simp
  have w3: "pool_wf k3"
    using io_extends_wf [OF _ wf] io_extends_alloc(1) [OF _ a2 wf]
      io_extends_alloc(1) [OF ext a1 wf] by blast
  note mx = us_wf_max [OF wfs(1)] us_wf_max [OF wfs(2)] us_wf_max [OF wfs(3)] us_wf_max [OF wfs(4)]
  let ?p0 = "empty_string ?m1 (Some b1)" and ?d0 = "empty_string ?m2 (Some b2)"
  have p0: "us_wf ?p0" by (rule us_wf_empty_string) (use m1 sum mx in auto)
  have d0: "us_wf ?d0" by (rule us_wf_empty_string) (use m2 sum mx in auto)
  let ?dir = "RtlUnicodeStringCat (RtlUnicodeStringCat ?d0 drive) ?par"
  have path: "Chars (RtlUnicodeStringCat (RtlUnicodeStringCat (RtlUnicodeStringCat
      (RtlUnicodeStringCat ?p0 logDir) drive) ?par) ?fin)
      = Chars logDir @ Chars drive @ Chars ?par @ Chars ?fin"
    by (rule Cat_four [OF p0 _ wfs(2,1,3,4)]) (use m1 in auto)
  have dir: "us_wf ?dir" "Chars ?dir = Chars drive @ Chars ?par"
    using Cat_two [OF d0 _ wfs(1,3)] m2 by simp_all
  from run obtain k4 st k5 k6 k7 where k4: "CreateAllDirectories env logDir ?dir k3 = Inr k4"
    and k5: "CopyFile env (Chars logDir @ Chars drive @ Chars ?par @ Chars ?fin) k4 = Inr (st, k5)"
    and k6: "free_if_set (Some b1) k5 = Inr k6" and k7: "free_if_set (Some b2) k6 = Inr k7"
    and k8: "free_if_set (Buffer drive) k7 = Inr k'"
    unfolding CollectDeletedFile_def drive and_then.simps prod.case Let_def a1 a2
    by (simp add: and_then_Inr_iff path) blast
  then have fs: "files k' = files k5"
    by (metis files_free_if_set)
  have "io_extends k3 {} k4"
    using CreateAllDirectories_extends [OF w3, of env logDir ?dir] k4 by auto
  then have g4: "\<forall>n. granted k4 n" using g3 io_extends_granted by metis
  have f3: "files k3 = files k1" using files_alloc [OF a1] files_alloc [OF a2] by simp
  have md: "unat (MaximumLength ?dir) = unat (MaximumLength ?par) + unat (MaximumLength drive) + 2"
    using m2 by simp
  show ?thesis
    by (rule exI [of _ ?dir], rule exI [of _ k3], rule exI [of _ k4], rule exI [of _ k5],
        rule exI [of _ st], intro conjI) (fact dir md f3 g3 g4 w3 k4 k5 fs)+
qed

text \<open>
  The copy of a deleted file: the directories of \<open>\<drive>\<directory>\<close> are created under the
  log directory, from the top down, and the copy at
  \<open><log directory>\<drive>\<directory>\<file>\<close> has the bytes of the file.
\<close>

theorem CollectDeletedFile_files:
  fixes logDir :: unicode_string and info :: file_name_information
    and k :: "('e, 'x) kio_scheme"
  defines "D \<equiv> \<lambda>name. drive_component name @ Chars (fni_ParentDir info)"
  defines "P \<equiv> \<lambda>name. Chars logDir @ drive_component name @ Chars (fni_ParentDir info)
    @ Chars (fni_FinalComponent info)"
  assumes ok: "collectable env name logDir info" and tr: "transfers env (P name)"
    and all: "\<forall>n. granted k n" and wf: "pool_wf k"
  shows "\<exists>(k' :: ('e, 'x) kio_scheme) ops. CollectDeletedFile env logDir info k = Inr k' \<and>
    files k' = files k @ map (\<lambda>j. MkDir (Chars logDir @ take j (D name))) (separators 0 (D name))
      @ CreateCopy (P name) (snd (query_std env)) # ops \<and>
    apply_writes ops [] = content env \<and> io_extends k {} k'"
proof -
  have wfs: "us_wf name" "us_wf logDir" "us_wf (fni_ParentDir info)"
      "us_wf (fni_FinalComponent info)" and dn: "dos_name env = Some name"
    and sum: "unat (MaximumLength logDir) + unat (MaximumLength name) +
      unat (MaximumLength (fni_ParentDir info)) +
      unat (MaximumLength (fni_FinalComponent info)) + 6 \<le> 65534"
    and nz: "0 \<notin> set (D name)"
    using ok by (auto simp: collectable_def D_def drive_component_def)
  have dok: "drive_ok env" using dn wfs(1) sum by (simp add: drive_ok_def)
  obtain drive and k1 :: "('e, 'x) kio_scheme"
    where drive: "GetDosDeviceName env (Some (fni_Share info)) k = Inr (drive, k1)"
    and dc: "Chars drive = drive_component name" "us_wf drive"
      "MaximumLength drive = MaximumLength name + 2" "files k1 = files k"
    using GetDosDeviceName_named [OF dn dok all] by blast
  have md: "unat (MaximumLength drive) = unat (MaximumLength name) + 2"
    using drive_chars_fit(1) [OF wfs(1)] sum dc(3) by simp
  obtain A where ext: "io_extends k A k1"
    using GetDosDeviceName_extends [OF wf dok, of "fni_Share info"] drive by auto
  obtain k' where run: "CollectDeletedFile env logDir info k = Inr k'" "io_extends k {} k'"
    using CollectDeletedFile_extends [OF wf dok] all by blast
  obtain dir and k3 k4 k5 :: "('e, 'x) kio_scheme" and st
    where dir: "us_wf dir" "Chars dir = Chars drive @ Chars (fni_ParentDir info)"
      "unat (MaximumLength dir) = unat (MaximumLength (fni_ParentDir info))
        + unat (MaximumLength drive) + 2"
    and k3: "files k3 = files k1" "\<forall>n. granted k3 n" "\<forall>n. granted k4 n" "pool_wf k3"
    and k4: "CreateAllDirectories env logDir dir k3 = Inr k4"
    and cp: "CopyFile env (Chars logDir @ Chars drive @ Chars (fni_ParentDir info) @
      Chars (fni_FinalComponent info)) k4 = Inr (st, k5)" and fs: "files k' = files k5"
    using CollectDeletedFile_run [OF drive ext wf all dc(2) wfs(2-4) _ run(1)] md sum
    by (elim meta_impE exE conjE) (simp, metis)
  have D: "Chars dir = D name" and k5: "CopyFile env (P name) k4 = Inr (st, k5)"
    using dir(2) cp by (simp_all add: D_def P_def dc(1))
  have "files k4 = files k3 @
      map (\<lambda>j. MkDir (Chars logDir @ take j (D name))) (separators 0 (D name))"
    using CreateAllDirectories_files [OF wfs(2) dir(1) _ _ k3(2,4) k4] dir(3) nz md sum
    unfolding D by simp
  moreover obtain ops where "files k5 = files k4 @ CreateCopy (P name) (snd (query_std env)) # ops"
    and "apply_writes ops [] = content env"
    using CopyFile_files [OF _ _ _ _ _ k3(3) k5] tr by (auto simp: transfers_def)
  ultimately show ?thesis using run k3(1) fs dc(4) by auto
qed

end
