(* ===== verification/EventQueue.thy ===== *)
theory EventQueue
  imports Pool
begin

text \<open>
  The queue of events both the file and the registry driver keep: a \<open>LIST_ENTRY\<close> of packets,
  each a pool block that points to the pool block of one event. The interlocked list
  routines are list operations on the packet addresses. The theory has the two loops that
  run over such a queue (release everything; copy as many events as fit into a caller's
  buffer), the abstract queue of events they implement, and the contract of a polled queue.
\<close>

subsection \<open>The two loops\<close>

text \<open>\<open>while(!IsListEmpty(...))\<close>: remove the head, free its event, free the packet.\<close>

fun free_packets ::
    "addr list \<Rightarrow> ('e, 'x) kpool_scheme \<Rightarrow> bugcheck + ('e, 'x) kpool_scheme" where
  "free_packets [] k = Inr k"
| "free_packets (pk # q) k =
     and_then (read_packet pk k) (\<lambda>ev.
     and_then (ExFreePoolWithTag (Some ev) k) (\<lambda>k1.
     and_then (ExFreePoolWithTag (Some pk) k1) (\<lambda>k2.
     free_packets q k2)))"

text \<open>
  The copy loop. \<open>hdr\<close> is the size of the fixed part of an event, \<open>esz\<close> the size the loop
  computes for an event and \<open>mem\<close> the bytes of the event's block. The result is what was
  written to the caller's buffer, how much of it is used, and the queue left. A packet that
  does not fit is put back at the head.
\<close>

fun drain_packets ::
    "u32 \<Rightarrow> ('e \<Rightarrow> u32) \<Rightarrow> ('e \<Rightarrow> u8 list) \<Rightarrow> u32 \<Rightarrow> u32 \<Rightarrow> u8 list \<Rightarrow> addr list \<Rightarrow>
     ('e, 'x) kpool_scheme \<Rightarrow> bugcheck + (u8 list \<times> u32 \<times> addr list \<times> ('e, 'x) kpool_scheme)" where
  "drain_packets hdr esz mem space used out [] k = Inr (out, used, [], k)"
| "drain_packets hdr esz mem space used out (pk # q) k =
     (if used < space \<and> hdr \<le> space - used
      then and_then (read_packet pk k) (\<lambda>ev.
           and_then (read_event ev k) (\<lambda>e.
           if esz e \<le> space - used
           then (if unat (esz e) \<le> length (mem e)
                 then and_then (ExFreePoolWithTag (Some ev) k) (\<lambda>k1.
                      and_then (ExFreePoolWithTag (Some pk) k1) (\<lambda>k2.
                      drain_packets hdr esz mem space (used + esz e)
                        (out @ take (unat (esz e)) (mem e)) q k2))
                 else Inl READ_OVERRUN)
           else Inr (out, used, pk # q, k)))
      else Inr (out, used, pk # q, k))"

subsection \<open>The abstract queue\<close>

text \<open>Deliver events from the head while the next one fits into the room that is left.\<close>

fun drain_events :: "('e \<Rightarrow> nat) \<Rightarrow> nat \<Rightarrow> 'e list \<Rightarrow> 'e list \<times> 'e list" where
  "drain_events esz room [] = ([], [])"
| "drain_events esz room (e # es) =
     (if esz e \<le> room
      then (case drain_events esz (room - esz e) es of (d, r) \<Rightarrow> (e # d, r))
      else ([], e # es))"

lemma drain_events_split: "drain_events esz n q = (d, r) \<Longrightarrow> q = d @ r"
  by (induction esz n q arbitrary: d r rule: drain_events.induct)
     (auto split: if_splits prod.splits)

lemma drain_events_fits: "drain_events esz n q = (d, r) \<Longrightarrow> sum_list (map esz d) \<le> n"
  by (induction esz n q arbitrary: d r rule: drain_events.induct)
     (auto split: if_splits prod.splits)

lemma drain_events_maximal:
  "drain_events esz n q = (d, r) \<Longrightarrow> r \<noteq> [] \<Longrightarrow> n < sum_list (map esz d) + esz (hd r)"
proof (induction esz n q arbitrary: d r rule: drain_events.induct)
  case (2 esz room e es)
  then show ?case by (fastforce split: if_splits prod.splits)
qed simp

lemma drain_events_progress: "drain_events esz n (e # q) = (d, r) \<Longrightarrow> esz e \<le> n \<Longrightarrow> d \<noteq> []"
  by (auto split: prod.splits)

lemma drain_events_cong:
  "\<forall>e \<in> set es. f e = g e \<Longrightarrow> drain_events f n es = drain_events g n es"
  by (induction es arbitrary: n) (auto split: prod.splits)

subsection \<open>Queues of packets in the pool\<close>

definition packet_event :: "('e, 'x) kpool_scheme \<Rightarrow> addr \<Rightarrow> addr" where
  "packet_event k pk = (case blocks k pk of Some (Packet ev) \<Rightarrow> ev | _ \<Rightarrow> pk)"

definition footprint :: "('e, 'x) kpool_scheme \<Rightarrow> addr list \<Rightarrow> addr set" where
  "footprint k q = set q \<union> packet_event k ` set q"

text \<open>
  \<open>queue_rep k q es\<close>: the packets \<open>q\<close> are live and distinct and hold the live events \<open>es\<close>,
  each in a block of its own.
\<close>

fun queue_rep :: "('e, 'x) kpool_scheme \<Rightarrow> addr list \<Rightarrow> 'e list \<Rightarrow> bool" where
  "queue_rep k [] es \<longleftrightarrow> es = []"
| "queue_rep k (pk # q) es \<longleftrightarrow>
     (\<exists>ev e es'. es = e # es' \<and> blocks k pk = Some (Packet ev) \<and> blocks k ev = Some (Event e) \<and>
        pk \<notin> footprint k q \<and> ev \<notin> footprint k q \<and> queue_rep k q es')"

lemma footprint_Nil [simp]: "footprint k [] = {}"
  by (simp add: footprint_def)

lemma footprint_Cons:
  "footprint k (pk # q) = insert pk (insert (packet_event k pk) (footprint k q))"
  by (auto simp: footprint_def)

lemma footprint_append: "footprint k (p @ q) = footprint k p \<union> footprint k q"
  by (auto simp: footprint_def)

lemma packet_event_Packet [simp]: "blocks k pk = Some (Packet ev) \<Longrightarrow> packet_event k pk = ev"
  by (simp add: packet_event_def)

lemma footprint_live: "queue_rep k q es \<Longrightarrow> a \<in> footprint k q \<Longrightarrow> blocks k a \<noteq> None"
  by (induction q arbitrary: es) (auto simp: footprint_Cons)

lemma footprint_finite [simp]: "finite (footprint k q)"
  by (simp add: footprint_def)

lemma footprint_frame:
  "\<forall>a \<in> set q. blocks k' a = blocks k a \<Longrightarrow> footprint k' q = footprint k q"
  by (auto simp: footprint_def packet_event_def)

lemma queue_rep_frame:
  "queue_rep k q es \<Longrightarrow> \<forall>a \<in> footprint k q. blocks k' a = blocks k a \<Longrightarrow> queue_rep k' q es"
proof (induction q arbitrary: es)
  case (Cons pk q)
  then have "footprint k' q = footprint k q"
    by (intro footprint_frame) (auto simp: footprint_def)
  with Cons show ?case by (auto simp: footprint_Cons)
qed simp

lemma queue_rep_length: "queue_rep k q es \<Longrightarrow> length q = length es"
  by (induction q arbitrary: es) auto

lemma queue_rep_unique: "queue_rep k q es \<Longrightarrow> queue_rep k q es' \<Longrightarrow> es = es'"
  by (induction q arbitrary: es es') auto

lemma queue_rep_distinct: "queue_rep k q es \<Longrightarrow> distinct q"
  by (induction q arbitrary: es) (auto simp: footprint_def)

text \<open>Appending a packet for a live event outside the queue.\<close>

lemma queue_rep_snoc:
  assumes "queue_rep k q es" and "blocks k pk = Some (Packet ev)"
    and "blocks k ev = Some (Event e)" and "pk \<notin> footprint k q" and "ev \<notin> footprint k q"
  shows "queue_rep k (q @ [pk]) (es @ [e])"
  using assms
proof (induction q arbitrary: es)
  case (Cons p q)
  then show ?case by (auto simp: footprint_append footprint_Cons)
qed auto

lemma queue_rep_append:
  assumes "queue_rep k q es" and "q = p @ r"
  shows "queue_rep k p (take (length p) es) \<and> queue_rep k r (drop (length p) es)
    \<and> footprint k p \<inter> footprint k r = {}"
  using assms
proof (induction p arbitrary: q es)
  case (Cons a p)
  then show ?case by (fastforce simp: footprint_append footprint_Cons)
qed simp

subsection \<open>The loops implement the abstract queue\<close>

lemma restrict_footprint:
  assumes "blocks k pk = Some (Packet ev)" and "pk \<notin> footprint k q"
    and "ev \<notin> footprint k q" and "k1 = k\<lparr>blocks := (blocks k)(ev := None, pk := None)\<rparr>"
  shows "footprint k1 q = footprint k q"
    and "k1\<lparr>blocks := blocks k1 |` (- footprint k1 q)\<rparr>
       = k\<lparr>blocks := blocks k |` (- footprint k (pk # q))\<rparr>"
proof -
  show eq: "footprint k1 q = footprint k q"
    using assms by (intro footprint_frame) (auto simp: footprint_def)
  have "blocks k1 |` (- footprint k1 q) = blocks k |` (- footprint k (pk # q))"
    unfolding eq using assms(1,4)
    by (auto simp: restrict_map_def footprint_Cons fun_eq_iff)
  then show "k1\<lparr>blocks := blocks k1 |` (- footprint k1 q)\<rparr>
       = k\<lparr>blocks := blocks k |` (- footprint k (pk # q))\<rparr>"
    by (simp add: assms(4))
qed

lemma queue_rep_after_free:
  assumes "queue_rep k (pk # q) es" and "blocks k pk = Some (Packet ev)"
  shows "queue_rep (k\<lparr>blocks := (blocks k)(ev := None, pk := None)\<rparr>) q (tl es)"
proof -
  from assms obtain e es' where es: "es = e # es'" and rep: "queue_rep k q es'"
    and out: "pk \<notin> footprint k q" "ev \<notin> footprint k q"
    by auto
  from rep have "queue_rep (k\<lparr>blocks := (blocks k)(ev := None, pk := None)\<rparr>) q es'"
    by (rule queue_rep_frame) (use out in auto)
  then show ?thesis by (simp add: es)
qed

theorem free_packets_rep:
  "queue_rep k q es \<Longrightarrow>
     free_packets q k = Inr (k\<lparr>blocks := blocks k |` (- footprint k q)\<rparr>)"
proof (induction q arbitrary: k es)
  case (Cons pk q)
  from Cons.prems obtain ev e where
    pk: "blocks k pk = Some (Packet ev)" and ev: "blocks k ev = Some (Event e)"
    and out: "pk \<notin> footprint k q" "ev \<notin> footprint k q"
    by auto
  let ?k1 = "k\<lparr>blocks := (blocks k)(ev := None, pk := None)\<rparr>"
  have "pk \<noteq> ev" using pk ev by auto
  then have "free_packets (pk # q) k = free_packets q ?k1"
    using pk ev by (simp add: read_packet_def)
  also have "\<dots> = Inr (?k1\<lparr>blocks := blocks ?k1 |` (- footprint ?k1 q)\<rparr>)"
    using queue_rep_after_free [OF Cons.prems pk] by (rule Cons.IH)
  also have "\<dots> = Inr (k\<lparr>blocks := blocks k |` (- footprint k (pk # q))\<rparr>)"
    using restrict_footprint(2) [OF pk out refl] by simp
  finally show ?case .
qed simp

lemma drain_packets_step:
  assumes "blocks k pk = Some (Packet ev)" and "blocks k ev = Some (Event e)"
    and "used < space" and "hdr \<le> esz e" and "esz e \<le> space - used"
    and "unat (esz e) = length (mem e)"
  shows "drain_packets hdr esz mem space used out (pk # q) k =
     drain_packets hdr esz mem space (used + esz e) (out @ mem e) q
       (k\<lparr>blocks := (blocks k)(ev := None, pk := None)\<rparr>)"
proof -
  have "pk \<noteq> ev" using assms(1,2) by auto
  moreover have "hdr \<le> space - used" using assms(4,5) by (rule order_trans)
  ultimately show ?thesis
    using assms by (simp add: read_packet_def read_event_def)
qed

lemma drain_packets_stop:
  assumes "blocks k pk = Some (Packet ev)" and "blocks k ev = Some (Event e)"
    and "\<not> (used < space \<and> esz e \<le> space - used)"
  shows "drain_packets hdr esz mem space used out (pk # q) k = Inr (out, used, pk # q, k)"
  using assms by (auto simp: read_packet_def read_event_def)

text \<open>
  The copy loop delivers exactly what the abstract queue delivers for the room left in the
  buffer, writes the bytes of those events in order, frees exactly their blocks and leaves
  the rest of the queue, and reads no memory outside the events.
\<close>

theorem drain_packets_rep:
  assumes "queue_rep k q es" and "\<forall>e \<in> set es. hdr \<le> esz e \<and> unat (esz e) = length (mem e)"
    and "0 < hdr" and "used \<le> space"
    and "drain_events (\<lambda>e. unat (esz e)) (unat space - unat used) es = (d, r)"
  shows "drain_packets hdr esz mem space used out q k =
    Inr (out @ concat (map mem d), used + of_nat (sum_list (map (\<lambda>e. unat (esz e)) d)),
         drop (length d) q, k\<lparr>blocks := blocks k |` (- footprint k (take (length d) q))\<rparr>)"
  using assms
proof (induction q arbitrary: k es used out d r)
  case (Cons pk q)
  from Cons.prems(1) obtain ev e es' where es: "es = e # es'"
    and pk: "blocks k pk = Some (Packet ev)" and ev: "blocks k ev = Some (Event e)"
    and fp: "pk \<notin> footprint k q" "ev \<notin> footprint k q" and rep: "queue_rep k q es'"
    by auto
  let ?k1 = "k\<lparr>blocks := (blocks k)(ev := None, pk := None)\<rparr>"
  have sz: "hdr \<le> esz e" "unat (esz e) = length (mem e)" using Cons.prems(2) es by auto
  have room: "unat (space - used) = unat space - unat used"
    using Cons.prems(4) by (rule unat_u32_diff)
  have fits_iff: "esz e \<le> space - used \<longleftrightarrow> unat (esz e) \<le> unat space - unat used"
    by (simp add: word_le_nat_alt room)
  show ?case
  proof (cases "esz e \<le> space - used")
    case True
    then have fits: "unat (esz e) \<le> unat space - unat used" by (simp add: fits_iff)
    have pos: "0 < unat (esz e)"
      using sz(1) Cons.prems(3) by (simp add: word_le_nat_alt word_less_nat_alt)
    have used_lt: "used < space" using fits pos by (simp add: word_less_nat_alt)
    have "unat used \<le> unat space" using Cons.prems(4) by (simp add: word_le_nat_alt)
    moreover have "unat space < 2 ^ 32" by simp
    ultimately have "unat used + unat (esz e) < 2 ^ 32" using fits by linarith
    then have sum: "unat (used + esz e) = unat used + unat (esz e)" by (rule unat_u32_add)
    have le: "used + esz e \<le> space"
      using fits Cons.prems(4) by (simp add: word_le_nat_alt sum)
    from Cons.prems(5) fits obtain d' where d': "d = e # d'"
      and dr: "drain_events (\<lambda>e. unat (esz e)) (unat space - unat (used + esz e)) es' = (d', r)"
      by (auto simp: es sum split: prod.splits)
    have rep1: "queue_rep ?k1 q es'" using queue_rep_after_free [OF Cons.prems(1) pk] es by simp
    have "drain_packets hdr esz mem space used out (pk # q) k =
        drain_packets hdr esz mem space (used + esz e) (out @ mem e) q ?k1"
      by (rule drain_packets_step) (use pk ev used_lt sz True in auto)
    also have "\<dots> = Inr ((out @ mem e) @ concat (map mem d'),
        (used + esz e) + of_nat (sum_list (map (\<lambda>e. unat (esz e)) d')), drop (length d') q,
        ?k1\<lparr>blocks := blocks ?k1 |` (- footprint ?k1 (take (length d') q))\<rparr>)"
      by (rule Cons.IH [OF rep1 _ Cons.prems(3) le dr]) (use Cons.prems(2) es in auto)
    also have "?k1\<lparr>blocks := blocks ?k1 |` (- footprint ?k1 (take (length d') q))\<rparr> =
        k\<lparr>blocks := blocks k |` (- footprint k (pk # take (length d') q))\<rparr>"
      by (rule restrict_footprint(2) [OF pk _ _ refl])
         (use fp in \<open>auto simp: footprint_def dest: in_set_takeD\<close>)
    finally show ?thesis by (simp add: d' add.assoc)
  next
    case False
    then have "\<not> unat (esz e) \<le> unat space - unat used" by (simp add: fits_iff)
    then have "d = []" using Cons.prems(5) by (simp add: es)
    moreover have "drain_packets hdr esz mem space used out (pk # q) k = Inr (out, used, pk # q, k)"
      by (rule drain_packets_stop [OF pk ev]) (use False in blast)
    ultimately show ?thesis by simp
  qed
qed simp

end
