(* ===== verification/EventChannel.thy ===== *)
theory EventChannel
  imports EventQueue
begin

text \<open>
  The contract between a driver that queues events and the user-space monitor that polls
  it: a poll with a buffer of \<open>n\<close> bytes takes a prefix of the queue that fits, and something
  whenever the first event fits. The client's facts (nothing lost, nothing reordered, nothing twice, the queue runs empty) are
  proved once from the contract.
\<close>

subsection \<open>Delivery of a prefix\<close>

locale ordered_delivery =
  fixes deliver :: "nat \<Rightarrow> 'e list \<Rightarrow> 'e list \<times> 'e list"
    and weight :: "'e \<Rightarrow> nat"
  assumes deliver_split: "deliver n q = (d, r) \<Longrightarrow> q = d @ r"
    and deliver_fits: "deliver n q = (d, r) \<Longrightarrow> sum_list (map weight d) \<le> n"
    and deliver_progress: "deliver n (e # q) = (d, r) \<Longrightarrow> weight e \<le> n \<Longrightarrow> d \<noteq> []"

text \<open>A channel whose polls take as much as fits.\<close>

locale event_channel = ordered_delivery deliver weight
  for deliver :: "nat \<Rightarrow> 'e list \<Rightarrow> 'e list \<times> 'e list" and weight :: "'e \<Rightarrow> nat" +
  assumes deliver_maximal:
      "deliver n q = (d, r) \<Longrightarrow> r \<noteq> [] \<Longrightarrow> n < sum_list (map weight d) + weight (hd r)"

text \<open>A session of polls, with the buffer size of each.\<close>

fun polls :: "(nat \<Rightarrow> 'e list \<Rightarrow> 'e list \<times> 'e list) \<Rightarrow> nat list \<Rightarrow> 'e list \<Rightarrow>
    'e list list \<times> 'e list" where
  "polls f [] q = ([], q)"
| "polls f (n # ns) q =
     (case f n q of (d, r) \<Rightarrow> (case polls f ns r of (ds, r') \<Rightarrow> (d # ds, r')))"

context ordered_delivery begin

lemma polls_split: "polls deliver ns q = (ds, r) \<Longrightarrow> q = concat ds @ r"
proof (induction ns arbitrary: q ds r)
  case (Cons n ns)
  then show ?case by (auto split: prod.splits dest: deliver_split)
qed simp

lemma deliver_shrinks:
  assumes "deliver n q = (d, r)" and "q \<noteq> []" and "\<forall>e \<in> set q. weight e \<le> n"
  shows "length r < length q"
proof -
  obtain e q' where q: "q = e # q'" using assms(2) by (cases q) auto
  then have "d \<noteq> []" using deliver_progress assms(1,3) by (metis list.set_intros(1))
  with deliver_split [OF assms(1)] show ?thesis by simp
qed

lemma polls_empty_queue:
  "length q \<le> m \<Longrightarrow> \<forall>e \<in> set q. weight e \<le> n \<Longrightarrow>
     snd (polls deliver (replicate m n) q) = []"
proof (induction m arbitrary: q)
  case (Suc m)
  obtain d r where dr: "deliver n q = (d, r)" by (cases "deliver n q")
  then have q: "q = d @ r" by (rule deliver_split)
  have "length r \<le> m"
    using Suc.prems deliver_shrinks [OF dr] q by (cases "q = []"; cases d) auto
  moreover have "\<forall>e \<in> set r. weight e \<le> n" using Suc.prems(2) q by simp
  ultimately have "snd (polls deliver (replicate m n) r) = []" by (rule Suc.IH)
  then show ?case by (cases "polls deliver (replicate m n) r") (simp add: dr)
qed simp

text \<open>Enough polls deliver the whole queue, in order.\<close>

lemma polls_complete:
  assumes "length q \<le> m" and "\<forall>e \<in> set q. weight e \<le> n"
  shows "concat (fst (polls deliver (replicate m n) q)) = q"
proof -
  obtain ds r where p: "polls deliver (replicate m n) q = (ds, r)"
    by (cases "polls deliver (replicate m n) q")
  with polls_empty_queue [OF assms] polls_split [OF p] show ?thesis by simp
qed

text \<open>An event longer than the buffer is never delivered and blocks everything behind it.\<close>

lemma polls_blocked:
  assumes "n < weight e"
  shows "polls deliver (replicate m n) (e # q) = (replicate m [], e # q)"
proof (induction m)
  case (Suc m)
  obtain d r where dr: "deliver n (e # q) = (d, r)" by (cases "deliver n (e # q)")
  have "d = []"
  proof (rule ccontr)
    assume "d \<noteq> []"
    with deliver_split [OF dr] obtain d' where "d = e # d'" by (cases d) auto
    with deliver_fits [OF dr] assms show False by simp
  qed
  with deliver_split [OF dr] dr Suc show ?case by simp
qed simp

end

text \<open>Where as much as fits is taken, a queue that fits is taken whole.\<close>

context event_channel begin

lemma deliver_all:
  assumes "sum_list (map weight q) \<le> n"
  shows "deliver n q = (q, [])"
proof -
  obtain d r where dr: "deliver n q = (d, r)" by (cases "deliver n q")
  have "r = []"
  proof (rule ccontr)
    assume "r \<noteq> []"
    then obtain e r' where r: "r = e # r'" by (cases r) auto
    have "q = d @ r" using dr by (rule deliver_split)
    with r assms have "sum_list (map weight d) + weight e \<le> n" by simp
    with deliver_maximal [OF dr \<open>r \<noteq> []\<close>] r show False by simp
  qed
  with dr deliver_split [OF dr] show ?thesis by simp
qed

end

interpretation drain: event_channel "drain_events w" w for w
  by unfold_locales
     (fact drain_events_split drain_events_fits drain_events_progress drain_events_maximal)+

subsection \<open>A driver that is polled\<close>

text \<open>
  \<open>holds s q\<close>: the driver state \<open>s\<close> is sound and its queue is the list \<open>q\<close> of events.
  \<open>poll\<close> is the driver's request handler as the client sees it (the bytes it gets back).
\<close>

locale polled_driver = ordered_delivery deliver weight
  for deliver :: "nat \<Rightarrow> 'e list \<Rightarrow> 'e list \<times> 'e list" and weight :: "'e \<Rightarrow> nat" +
  fixes holds :: "'s \<Rightarrow> 'e list \<Rightarrow> bool"
    and poll :: "nat \<Rightarrow> 's \<Rightarrow> bugcheck + (u8 list \<times> 's)"
    and encode :: "'e \<Rightarrow> u8 list"
    and legal :: "nat \<Rightarrow> bool"
  assumes poll_refines:
      "holds s q \<Longrightarrow> legal n \<Longrightarrow> deliver n q = (d, r) \<Longrightarrow>
         \<exists>s'. poll n s = Inr (concat (map encode d), s') \<and> holds s' r"
    and encode_length: "holds s q \<Longrightarrow> e \<in> set q \<Longrightarrow> length (encode e) = weight e"

fun poll_session :: "(nat \<Rightarrow> 's \<Rightarrow> bugcheck + (u8 list \<times> 's)) \<Rightarrow> nat list \<Rightarrow> 's \<Rightarrow>
    bugcheck + (u8 list list \<times> 's)" where
  "poll_session f [] s = Inr ([], s)"
| "poll_session f (n # ns) s =
     and_then (f n s) (\<lambda>(bs, s1).
     and_then (poll_session f ns s1) (\<lambda>(bss, s2). Inr (bs # bss, s2)))"

context polled_driver begin

lemma poll_session_refines:
  "holds s q \<Longrightarrow> \<forall>n \<in> set ns. legal n \<Longrightarrow> polls deliver ns q = (ds, r) \<Longrightarrow>
     \<exists>s'. poll_session poll ns s = Inr (map (\<lambda>d. concat (map encode d)) ds, s') \<and> holds s' r"
proof (induction ns arbitrary: s q ds r)
  case (Cons n ns)
  obtain d r1 where d: "deliver n q = (d, r1)" by (cases "deliver n q")
  obtain ds' where p: "polls deliver ns r1 = (ds', r)" and ds: "ds = d # ds'"
    using Cons.prems(3) d by (auto split: prod.splits)
  from poll_refines [OF Cons.prems(1) _ d] Cons.prems(2) obtain s1
    where s1: "poll n s = Inr (concat (map encode d), s1)" "holds s1 r1" by auto
  from Cons.IH [OF s1(2) _ p] Cons.prems(2) s1 show ?case by (auto simp: ds)
qed simp

lemma poll_length:
  assumes "holds s q" and "legal n" and "poll n s = Inr (bs, s')"
  shows "length bs \<le> n"
proof -
  obtain d r where dr: "deliver n q = (d, r)" by (cases "deliver n q")
  from poll_refines [OF assms(1,2) dr] assms(3) have bs: "bs = concat (map encode d)" by auto
  have "\<forall>e \<in> set d. length (encode e) = weight e"
    using deliver_split [OF dr] encode_length [OF assms(1)] by auto
  then have "length (concat (map encode d)) = sum_list (map weight d)"
    by (induction d) auto
  with deliver_fits [OF dr] show ?thesis by (simp add: bs)
qed

text \<open>Enough polls with a buffer that holds any queued event return every event, in order.\<close>

lemma poll_session_complete:
  assumes "holds s q" and "legal n" and "length q \<le> m" and "\<forall>e \<in> set q. weight e \<le> n"
  shows "\<exists>bss s'. poll_session poll (replicate m n) s = Inr (bss, s') \<and>
    concat bss = concat (map encode q) \<and> holds s' []"
proof -
  obtain ds r where p: "polls deliver (replicate m n) q = (ds, r)"
    by (cases "polls deliver (replicate m n) q")
  have "r = []" using polls_empty_queue [OF assms(3,4)] p by simp
  moreover have "concat ds = q" using polls_complete [OF assms(3,4)] p by simp
  moreover have "concat (map (\<lambda>d. concat (map encode d)) ds) = concat (map encode (concat ds))"
    by (induction ds) simp_all
  moreover have "\<forall>x \<in> set (replicate m n). legal x" using assms(2) by simp
  ultimately show ?thesis
    using poll_session_refines [OF assms(1) _ p] by auto
qed

end

end
