(* ===== verification/FileMonitorDriver.thy ===== *)
theory FileMonitorDriver
  imports DeletedFileCopies EventChannel
begin

text \<open>
  The state of the file driver (\<open>CAPTURE_FILE_MANAGER\<close>) and its entry points: the
  callbacks of the minifilter, the message callback of its port, the watchdog, loading and
  unloading. Every handler is one atomic step; the time of day it reads is the argument
  \<open>now\<close> (seconds since 1970, as \<open>GetCurrentTime\<close> returns it).
\<close>

subsection \<open>State\<close>

record fm_state = "file_event kio" +
  bReady :: bool
  bCollectDeletedFiles :: bool
  lQueuedFileEvents :: "addr list"
  logDirectory :: unicode_string
  lastContactTime :: u32
  pFilter :: bool
  pServerPort :: bool
  pClientPort :: bool
  connectionCheckerTimer :: bool

definition USERSPACE_CONNECTION_TIMEOUT :: u32 where
  "USERSPACE_CONNECTION_TIMEOUT = 10"

subsection \<open>The queue\<close>

definition UpdateLastContactTime :: "u32 \<Rightarrow> fm_state \<Rightarrow> fm_state" where
  "UpdateLastContactTime now s = s\<lparr>lastContactTime := now\<rparr>"

definition FreeQueuedEvents :: "fm_state \<Rightarrow> bugcheck + fm_state" where
  "FreeQueuedEvents s =
     and_then (free_packets (lQueuedFileEvents s) s) (\<lambda>s1. Inr (s1\<lparr>lQueuedFileEvents := []\<rparr>))"

text \<open>The difference of the times is taken in 32 bits and compared unsigned.\<close>

definition ConnectionChecker :: "u32 \<Rightarrow> fm_state \<Rightarrow> bugcheck + fm_state" where
  "ConnectionChecker now s =
     (if now - lastContactTime s
         > USERSPACE_CONNECTION_TIMEOUT + USERSPACE_CONNECTION_TIMEOUT div 2
      then FreeQueuedEvents s else Inr s)"

definition QueueFileEvent :: "u32 \<Rightarrow> addr \<Rightarrow> fm_state \<Rightarrow> bool \<times> fm_state" where
  "QueueFileEvent now ev s =
     (if now - lastContactTime s \<le> USERSPACE_CONNECTION_TIMEOUT
      then (case ExAllocatePoolWithTag (Packet ev) s of
              (None, s1) \<Rightarrow> (False, s1)
            | (Some pk, s1) \<Rightarrow>
                (True, s1\<lparr>lQueuedFileEvents := lQueuedFileEvents s1 @ [pk]\<rparr>))
      else (False, s))"

subsection \<open>Before the operation\<close>

text \<open>
  The first half of the path search: the two name queries. Only the normalized query sets
  \<open>pFileNameInformation\<close>; in the branch of the second query the deletion routine is handed
  that pointer all the same.
\<close>

definition name_from_query ::
    "file_request \<Rightarrow> unicode_string \<Rightarrow> fm_state \<Rightarrow>
     bugcheck + (bool \<times> unicode_string \<times> fm_state)" where
  "name_from_query rq path s =
     (case rq_file_object rq of
        None \<Rightarrow> Inr (False, path, s)
      | Some fo \<Rightarrow>
          (case rq_normalized rq of
             Some info \<Rightarrow>
               and_then (CopyFileIfBeingDeleted rq (bCollectDeletedFiles s) (logDirectory s)
                           (Some info) s) (\<lambda>s1.
               Inr (if 0 < Length (fni_Name info)
                    then (True, RtlUnicodeStringCopy path (fni_Name info), s1)
                    else (False, path, s1)))
           | None \<Rightarrow>
               (case rq_opened rq of
                  None \<Rightarrow> Inr (False, path, s)
                | Some info \<Rightarrow>
                    and_then (CopyFileIfBeingDeleted rq (bCollectDeletedFiles s) (logDirectory s)
                                None s) (\<lambda>s1.
                    Inr (if 0 < Length (fni_Name info)
                         then (True, RtlUnicodeStringCopy path (fni_Name info), s1)
                         else (False, path, s1))))))"

definition device_prefix :: unicode_string where
  "device_prefix = RtlInitUnicodeString 0 (BACKSLASH # wide ''Device'')"

text \<open>
  The volume name followed by the name in the file object. \<open>RtlUnicodeStringCat\<close> cuts the
  result at the buffer's capacity, the copy cuts it at that of \<open>path\<close>.
\<close>

definition name_from_volume ::
    "file_request \<Rightarrow> file_object \<Rightarrow> unicode_string \<Rightarrow> fm_state \<Rightarrow>
     bugcheck + (bool \<times> unicode_string \<times> fm_state)" where
  "name_from_volume rq fo path s =
     (if fst (rq_volume rq) = STATUS_BUFFER_TOO_SMALL
      then (let m = MaximumLength (fo_FileName fo) + 2 + ucast (snd (rq_volume rq))
            in case ExAllocatePoolWithTag (Raw (unat m)) s of
                 (None, s1) \<Rightarrow> Inr (False, path, s1)
               | (Some b, s1) \<Rightarrow>
                   (let t = us_set (snd (rq_volume_again rq)) (empty_string m (Some b));
                        r = (if NT_SUCCESS (fst (rq_volume_again rq))
                             then (True, RtlUnicodeStringCopy path
                                           (RtlUnicodeStringCat t (fo_FileName fo)))
                             else (False, path))
                    in and_then (ExFreePoolWithTag (Some b) s1) (\<lambda>s2.
                       Inr (fst r, snd r, s2))))
      else Inr (False, path, s))"

text \<open>
  The second half: the name the file object holds, as it is when it starts with
  \<open>\Device\<close>, behind the volume name otherwise. The result of the first allocation is not
  checked. Before the seven characters are copied the block holds whatever it held.
\<close>

definition name_from_file_object ::
    "file_request \<Rightarrow> file_object \<Rightarrow> unicode_string \<Rightarrow> fm_state \<Rightarrow>
     bugcheck + (bool \<times> unicode_string \<times> fm_state)" where
  "name_from_file_object rq fo path s =
     (let name = fo_FileName fo;
          (d, s1) = ExAllocatePoolWithTag (Raw (unat (MaximumLength name))) s;
          dev0 = \<lparr>Length = Length name, MaximumLength = MaximumLength name, Buffer = d,
                  Chars = take (unat (Length name) div 2) (filePath (rq_garbage rq))\<rparr>;
          dev = (if Length name \<ge> Length device_prefix
                 then RtlUnicodeStringCchCopyN dev0 name 7 else dev0)
      in and_then (RtlEqualUnicodeString (rq_upcase rq) device_prefix dev) (\<lambda>eq.
         and_then (if eq then Inr (True, RtlUnicodeStringCopy path name, s1)
                   else name_from_volume rq fo path s1) (\<lambda>(found, path1, s2).
         and_then (ExFreePoolWithTag d s2) (\<lambda>s3. Inr (found, path1, s3)))))"

definition find_path ::
    "file_request \<Rightarrow> unicode_string \<Rightarrow> fm_state \<Rightarrow> bugcheck + (unicode_string \<times> fm_state)" where
  "find_path rq path s =
     and_then (name_from_query rq path s) (\<lambda>(found, path1, s1).
     and_then (case rq_file_object rq of
                 Some fo \<Rightarrow>
                   (if \<not> found \<and> \<not> fo_hasRelated fo \<and> 0 < Length (fo_FileName fo)
                    then name_from_file_object rq fo path1 s1 else Inr (found, path1, s1))
               | None \<Rightarrow> Inr (found, path1, s1)) (\<lambda>(found, path2, s2).
     Inr (if found then path2 else RtlUnicodeStringCatString path2 (wide ''UNKNOWN''), s2)))"

text \<open>
  The event. A field that is not written keeps what the block held: the status and the
  information until the post-operation callback, the flags when there is no file object.
\<close>

definition major_type :: "file_request \<Rightarrow> u8" where
  "major_type rq =
     (if rq_major rq = IRP_MJ_SET_INFORMATION \<and> rq_disposition rq \<and> rq_delete rq
      then IRP_MJ_DELETE else irp_code (rq_major rq))"

definition new_file_event :: "file_request \<Rightarrow> unicode_string \<Rightarrow> file_event" where
  "new_file_event rq path =
     (let n = of_nat (unat (Length path) + 2) :: u32;
          g = rq_garbage rq
      in g\<lparr>majorFileEventType := major_type rq,
           minorFileEventType := rq_minor rq,
           fe_flags := (case rq_file_object rq of Some fo \<Rightarrow> fo_Flags fo | None \<Rightarrow> fe_flags g),
           fe_time := rq_time rq,
           fe_processId := (case rq_thread rq of Some p \<Rightarrow> p | None \<Rightarrow> rq_current_pid rq),
           filePathLength := n,
           filePath := RtlStringCbCopyUnicodeString (unat n) path\<rparr>)"

subsection \<open>After the operation\<close>

definition PostFileOperationCallback ::
    "u32 \<Rightarrow> ntstatus \<Rightarrow> u32 \<Rightarrow> bool \<Rightarrow> addr option \<Rightarrow> fm_state \<Rightarrow> bugcheck + fm_state" where
  "PostFileOperationCallback now ioStatus ioInformation draining ctx s =
     (case ctx of
        None \<Rightarrow> Inr s
      | Some ev \<Rightarrow>
          if draining then ExFreePoolWithTag (Some ev) s
          else and_then (read_event ev s) (\<lambda>e.
               and_then (write_event ev (e\<lparr>fe_status := ioStatus, fe_information := ioInformation\<rparr>) s)
                 (\<lambda>s1.
               case QueueFileEvent now ev s1 of
                 (True, s2) \<Rightarrow> Inr s2
               | (False, s2) \<Rightarrow> ExFreePoolWithTag (Some ev) s2)))"

datatype preop_status =
    FLT_PREOP_SUCCESS_NO_CALLBACK
  | FLT_PREOP_SUCCESS_WITH_CALLBACK addr

text \<open>
  The pre-operation callback. The shutdown request has no post-operation callback, so the
  event is handed to it directly, with the status block as it is before the operation
  (\<open>ioStatus\<close>, \<open>ioInformation\<close>).
\<close>

definition PreFileOperationCallback ::
    "file_request \<Rightarrow> u32 \<Rightarrow> ntstatus \<Rightarrow> u32 \<Rightarrow> fm_state \<Rightarrow> bugcheck + (preop_status \<times> fm_state)" where
  "PreFileOperationCallback rq now ioStatus ioInformation s =
     (if rq_fs_filter rq then Inr (FLT_PREOP_SUCCESS_NO_CALLBACK, s)
      else case ExAllocatePoolWithTag (Raw 65534) s of
        (None, s1) \<Rightarrow> Inr (FLT_PREOP_SUCCESS_NO_CALLBACK, s1)
      | (Some b, s1) \<Rightarrow>
          and_then (find_path rq (empty_string 65534 (Some b)) s1) (\<lambda>(path, s2).
          case ExAllocatePoolWithTag (Event (rq_garbage rq)) s2 of
            (None, s3) \<Rightarrow>
              and_then (ExFreePoolWithTag (Some b) s3) (\<lambda>s4.
              Inr (FLT_PREOP_SUCCESS_NO_CALLBACK, s4))
          | (Some ev, s3) \<Rightarrow>
              and_then (ExFreePoolWithTag (Some b) s3) (\<lambda>s4.
              and_then (write_event ev (new_file_event rq path) s4) (\<lambda>s5.
              if rq_major rq = IRP_MJ_SHUTDOWN
              then and_then (PostFileOperationCallback now ioStatus ioInformation False (Some ev) s5)
                     (\<lambda>s6. Inr (FLT_PREOP_SUCCESS_NO_CALLBACK, s6))
              else Inr (FLT_PREOP_SUCCESS_WITH_CALLBACK ev, s5)))))"

subsection \<open>Messages from user space\<close>

text \<open>
  A message has an input buffer with the command and an output buffer. \<open>input_fault\<close> is the
  exception the read of the command raises, if any. The setup structure comes in the output
  buffer: a byte, three bytes of padding, the size and 1024 characters.
\<close>

record fm_message =
  InputBuffer :: "u8 list option"
  input_fault :: "ntstatus option"
  OutputBuffer :: "u8 list"

datatype filemonitor_command = GetFileEvents | SetupMonitor | OtherCommand u32

definition filemonitor_command_of :: "u32 \<Rightarrow> filemonitor_command" where
  "filemonitor_command_of w =
     (if w = 0 then GetFileEvents else if w = 1 then SetupMonitor else OtherCommand w)"

record filemonitor_setup =
  fs_collect :: bool
  nLogDirectorySize :: u32
  wszLogDirectory :: wstring

definition sizeof_FILEMONITOR_SETUP :: nat where
  "sizeof_FILEMONITOR_SETUP = 2056"

definition filemonitor_setup_at :: "u8 list \<Rightarrow> filemonitor_setup" where
  "filemonitor_setup_at bs =
     \<lparr>fs_collect = (byte_at bs 0 \<noteq> 0), nLogDirectorySize = u32_at bs 4,
      wszLogDirectory = bytes_wchars (take 2048 (drop 8 bs))\<rparr>"

definition free_log_directory :: "fm_state \<Rightarrow> bugcheck + fm_state" where
  "free_log_directory s =
     (if Buffer (logDirectory s) \<noteq> None
      then and_then (ExFreePoolWithTag (Buffer (logDirectory s)) s) (\<lambda>s1.
           Inr (s1\<lparr>logDirectory := logDirectory s1\<lparr>Buffer := None\<rparr>\<rparr>))
      else Inr s)"

definition nt_prefix :: unicode_string where
  "nt_prefix = RtlInitUnicodeString 0 [BACKSLASH, 0x3F, 0x3F, BACKSLASH]"

text \<open>
  Appending the directory reads up to its terminator or up to the room left in the buffer;
  without a terminator in the structure's array, and with more room, the read leaves it.
\<close>

definition set_log_directory :: "filemonitor_setup \<Rightarrow> fm_state \<Rightarrow> bugcheck + fm_state" where
  "set_log_directory m s =
     (let size16 = MaximumLength nt_prefix + ucast (nLogDirectorySize m) + 2
      in and_then (free_log_directory s) (\<lambda>s1.
         case ExAllocatePoolWithTag (Raw (unat size16 + 8 + 2)) s1 of
           (None, s2) \<Rightarrow> Inr s2
         | (Some b, s2) \<Rightarrow>
             (let dir0 = RtlUnicodeStringCat (empty_string size16 (Some b)) nt_prefix
              in if us_valid dir0 \<and> 0 \<notin> set (wszLogDirectory m) \<and>
                    length (wszLogDirectory m) < us_capacity dir0 - length (Chars dir0)
                 then Inl READ_OVERRUN
                 else Inr (s2\<lparr>bCollectDeletedFiles := fs_collect m,
                              logDirectory := RtlUnicodeStringCatString dir0
                                (takeWhile (\<lambda>c. c \<noteq> 0) (wszLogDirectory m))\<rparr>))))"

definition setup_monitor :: "u8 list \<Rightarrow> fm_state \<Rightarrow> bugcheck + fm_state" where
  "setup_monitor ob s =
     (if length ob = sizeof_FILEMONITOR_SETUP
      then (let m = filemonitor_setup_at ob
            in if fs_collect m then set_log_directory m s
               else free_log_directory (s\<lparr>bCollectDeletedFiles := False\<rparr>))
      else Inr s)"

definition get_file_events :: "u32 \<Rightarrow> u32 \<Rightarrow> fm_state \<Rightarrow> bugcheck + (u8 list \<times> u32 \<times> fm_state)" where
  "get_file_events now space s =
     and_then (drain_packets sizeof_FILE_EVENT file_event_size file_event_bytes space 0 []
                 (lQueuedFileEvents s) (UpdateLastContactTime now s)) (\<lambda>(out, used, q, s1).
     Inr (out, used, s1\<lparr>lQueuedFileEvents := q\<rparr>))"

text \<open>
  \<open>MessageCallback\<close>: the status, what was written at the start of the output buffer, the
  length returned (when it is set) and the new state. The setup case has no \<open>break\<close> and
  falls into the default one.
\<close>

definition MessageCallback ::
    "u32 \<Rightarrow> fm_message \<Rightarrow> fm_state \<Rightarrow>
     bugcheck + (ntstatus \<times> u8 list \<times> u32 option \<times> fm_state)" where
  "MessageCallback now m s =
     (case InputBuffer m of
        None \<Rightarrow> Inr (STATUS_INVALID_PARAMETER, [], None, s)
      | Some ib \<Rightarrow>
          if length ib < 4 then Inr (STATUS_INVALID_PARAMETER, [], None, s)
          else (case input_fault m of
              Some code \<Rightarrow> Inr (code, [], None, s)
            | None \<Rightarrow>
                (case filemonitor_command_of (u32_at ib 0) of
                   GetFileEvents \<Rightarrow>
                     and_then (get_file_events now (of_nat (length (OutputBuffer m))) s)
                       (\<lambda>(out, used, s1). Inr (STATUS_SUCCESS, out, Some used, s1))
                 | SetupMonitor \<Rightarrow>
                     and_then (setup_monitor (OutputBuffer m) s) (\<lambda>s1.
                     Inr (STATUS_INVALID_PARAMETER, [], None, s1))
                 | OtherCommand w \<Rightarrow> Inr (STATUS_INVALID_PARAMETER, [], None, s))))"

subsection \<open>Connecting, attaching, loading and unloading\<close>

definition ConnectCallback :: "fm_state \<Rightarrow> ntstatus \<times> fm_state" where
  "ConnectCallback s = (STATUS_SUCCESS, s\<lparr>pClientPort := True\<rparr>)"

definition DisconnectCallback :: "fm_state \<Rightarrow> bugcheck + fm_state" where
  "DisconnectCallback s =
     and_then (FreeQueuedEvents s) (\<lambda>s1.
     and_then (free_log_directory s1) (\<lambda>s2.
     Inr (s2\<lparr>bCollectDeletedFiles := False, pClientPort := False\<rparr>)))"

text \<open>The device type \<open>FILE_DEVICE_NETWORK_FILE_SYSTEM\<close> is \<open>0x14\<close>.\<close>

definition SetupCallback :: "u32 \<Rightarrow> ntstatus" where
  "SetupCallback VolumeDeviceType =
     (if VolumeDeviceType = 0x14 then STATUS_FLT_DO_NOT_ATTACH else STATUS_SUCCESS)"

text \<open>
  Unregistering the filter gives every pending completion context back: the filter manager
  calls the post-operation callback on it with the draining flag. \<open>pending\<close> are those
  contexts in the order it does so.
\<close>

fun drain_contexts :: "u32 \<Rightarrow> addr list \<Rightarrow> fm_state \<Rightarrow> bugcheck + fm_state" where
  "drain_contexts now [] s = Inr s"
| "drain_contexts now (ev # evs) s =
     and_then (PostFileOperationCallback now 0 0 True (Some ev) s) (drain_contexts now evs)"

definition FilterUnload :: "u32 \<Rightarrow> addr list \<Rightarrow> fm_state \<Rightarrow> bugcheck + (ntstatus \<times> fm_state)" where
  "FilterUnload now pending s =
     (let s1 = s\<lparr>pServerPort := False\<rparr>
      in and_then (if bReady s1
                   then and_then (drain_contexts now pending (s1\<lparr>pFilter := False\<rparr>)) (\<lambda>s2.
                        Inr (s2\<lparr>connectionCheckerTimer := False\<rparr>))
                   else Inr s1) (\<lambda>s3.
         and_then (free_log_directory s3) (\<lambda>s4.
         and_then (FreeQueuedEvents (s4\<lparr>bCollectDeletedFiles := False\<rparr>)) (\<lambda>s5.
         Inr (STATUS_SUCCESS, s5)))))"

text \<open>
  Loading. The argument has the statuses of the four services called in turn; the state is
  that of the freshly loaded image, whose globals are zero.
\<close>

record load_env =
  register_filter :: ntstatus
  build_descriptor :: ntstatus
  create_port :: ntstatus
  start_filtering :: ntstatus

definition DriverEntry :: "load_env \<Rightarrow> u32 \<Rightarrow> fm_state \<Rightarrow> ntstatus \<times> fm_state" where
  "DriverEntry env now s =
     (let s1 = s\<lparr>bReady := False, bCollectDeletedFiles := False, lQueuedFileEvents := []\<rparr>
      in if \<not> NT_SUCCESS (register_filter env) then (register_filter env, s1)
      else let s2 = s1\<lparr>pFilter := True\<rparr>
      in if \<not> NT_SUCCESS (build_descriptor env) then (build_descriptor env, s2)
      else let ok = NT_SUCCESS (create_port env);
               s3 = (if ok then s2\<lparr>pServerPort := True\<rparr> else s2);
               status = (if ok then start_filtering env else create_port env)
      in if \<not> NT_SUCCESS status then (status, s3\<lparr>pServerPort := False, pFilter := False\<rparr>)
      else (STATUS_SUCCESS,
            (UpdateLastContactTime now s3)\<lparr>connectionCheckerTimer := True, bReady := True,
               logDirectory := (logDirectory s3)\<lparr>Length := 0, Buffer := None\<rparr>\<rparr>))"

end
