(* ===== verification/FileMonitorInvariant.thy ===== *)
theory FileMonitorInvariant
  imports FileMonitorDriver
begin

text \<open>
  The invariant of the file driver: which pool blocks it owns, that they are live and
  disjoint, that every queued event is well-formed; and that each handler keeps it.
\<close>

subsection \<open>Ownership\<close>

text \<open>
  \<open>C\<close> are the completion contexts the filter manager holds between the two callbacks. With
  \<open>strict\<close> set, the blocks owned are all there are: nothing has been leaked.
\<close>

definition owned :: "fm_state \<Rightarrow> addr set \<Rightarrow> addr set" where
  "owned s C = footprint s (lQueuedFileEvents s) \<union> C \<union> set_option (Buffer (logDirectory s))"

definition context_ok :: "fm_state \<Rightarrow> addr \<Rightarrow> bool" where
  "context_ok s c \<longleftrightarrow> (\<exists>e. blocks s c = Some (Event e) \<and> file_event_wf e)"

definition log_buffer_ok :: "fm_state \<Rightarrow> bool" where
  "log_buffer_ok s \<longleftrightarrow>
     (\<forall>b. Buffer (logDirectory s) = Some b \<longrightarrow> (\<exists>n. blocks s b = Some (Raw n)))"

definition fm_inv :: "bool \<Rightarrow> fm_state \<Rightarrow> addr set \<Rightarrow> file_event list \<Rightarrow> bool" where
  "fm_inv strict s C es \<longleftrightarrow>
     pool_wf s \<and> queue_rep s (lQueuedFileEvents s) es \<and> (\<forall>e \<in> set es. file_event_wf e) \<and>
     (\<forall>c \<in> C. c \<notin> footprint s (lQueuedFileEvents s) \<and> context_ok s c) \<and>
     log_buffer_ok s \<and> (strict \<longrightarrow> dom (blocks s) \<subseteq> owned s C)"

lemma fm_invD:
  assumes "fm_inv strict s C es"
  shows "pool_wf s" and "queue_rep s (lQueuedFileEvents s) es"
    and "\<forall>e \<in> set es. file_event_wf e"
    and "c \<in> C \<Longrightarrow> c \<notin> footprint s (lQueuedFileEvents s)" and "c \<in> C \<Longrightarrow> context_ok s c"
    and "log_buffer_ok s"
    and "strict \<Longrightarrow> dom (blocks s) \<subseteq> owned s C"
  using assms by (auto simp: fm_inv_def)

text \<open>Queue blocks are events or packets, so they are not the raw block of the directory.\<close>

lemma footprint_kind:
  "queue_rep k q es \<Longrightarrow> a \<in> footprint k q \<Longrightarrow>
     \<exists>e. blocks k a = Some (Event e) \<or> (\<exists>ev. blocks k a = Some (Packet ev))"
  by (induction q arbitrary: es) (auto simp: footprint_Cons)

lemma log_buffer_apart:
  assumes "fm_inv strict s C es" and "Buffer (logDirectory s) = Some b"
  shows "b \<notin> footprint s (lQueuedFileEvents s)" and "b \<notin> C"
proof -
  obtain n where n: "blocks s b = Some (Raw n)"
    using fm_invD(6) [OF assms(1)] assms(2) by (auto simp: log_buffer_ok_def)
  show "b \<notin> footprint s (lQueuedFileEvents s)"
    using footprint_kind [OF fm_invD(2) [OF assms(1)]] n by fastforce
  show "b \<notin> C" using fm_invD(5) [OF assms(1), of b] n by (auto simp: context_ok_def)
qed

lemma owned_live:
  assumes "fm_inv strict s C es" and "a \<in> owned s C"
  shows "blocks s a \<noteq> None"
proof -
  consider "a \<in> footprint s (lQueuedFileEvents s)" | "a \<in> C" | "Buffer (logDirectory s) = Some a"
    using assms(2) by (auto simp: owned_def)
  then show ?thesis
    using footprint_live [OF fm_invD(2) [OF assms(1)]] fm_invD(5) [OF assms(1), of a]
      fm_invD(6) [OF assms(1)]
    by cases (auto simp: context_ok_def log_buffer_ok_def)
qed

subsection \<open>Routines that only touch the pool\<close>

lemma io_frame_fm:
  fixes s s' :: fm_state
  assumes "io_frame s s'"
  shows "lQueuedFileEvents s' = lQueuedFileEvents s" and "logDirectory s' = logDirectory s"
    and "bCollectDeletedFiles s' = bCollectDeletedFiles s"
    and "lastContactTime s' = lastContactTime s" and "bReady s' = bReady s"
    and "pFilter s' = pFilter s" and "pServerPort s' = pServerPort s"
    and "pClientPort s' = pClientPort s"
    and "connectionCheckerTimer s' = connectionCheckerTimer s"
  using assms by (cases s; cases s'; simp add: io_frame_def)+

text \<open>
  A routine that adds the events \<open>A\<close> and leaves the blocks \<open>L\<close> behind keeps the invariant,
  with \<open>A\<close> among the contexts; in the strict reading \<open>L\<close> has to be empty.
\<close>

lemma fm_inv_extends:
  assumes inv: "fm_inv strict s C es" and ext: "io_extends s (A \<union> L) s'"
    and A: "\<forall>a \<in> A. context_ok s' a" and L: "strict \<longrightarrow> L = {}"
  shows "fm_inv strict s' (C \<union> A) es"
proof -
  have wf: "pool_wf s" using fm_invD(1) [OF inv] .
  note f = io_frame_fm [OF io_extendsD(1) [OF ext]]
  have fresh: "a \<in> A \<union> L \<Longrightarrow> blocks s a = None" for a
    using io_extendsD(5) [OF ext, of a] pool_wfD [OF wf, of a] by simp
  have same: "blocks s a \<noteq> None \<Longrightarrow> blocks s' a = blocks s a" for a
    using fresh [of a] io_extendsD(3) [OF ext, of a] by metis
  let ?q = "lQueuedFileEvents s"
  have fp: "\<forall>a \<in> footprint s ?q. blocks s' a = blocks s a"
    using footprint_live [OF fm_invD(2) [OF inv]] same by blast
  then have fpeq: "footprint s' ?q = footprint s ?q"
    by (intro footprint_frame) (auto simp: footprint_def)
  have ctx: "c \<notin> footprint s ?q \<and> context_ok s' c" if "c \<in> C \<union> A" for c
  proof (cases "c \<in> C")
    case True
    then show ?thesis
      using fm_invD(4,5) [OF inv True] same [of c] by (auto simp: context_ok_def)
  next
    case False
    with that have "c \<in> A" by simp
    then show ?thesis
      using A fresh [of c] footprint_live [OF fm_invD(2) [OF inv], of c] by blast
  qed
  have "dom (blocks s') \<subseteq> owned s' (C \<union> A)" if strict
  proof
    fix a assume a: "a \<in> dom (blocks s')"
    show "a \<in> owned s' (C \<union> A)"
    proof (cases "a \<in> A")
      case False
      then have "blocks s' a = blocks s a" using L that io_extendsD(3) [OF ext] by auto
      then have "a \<in> dom (blocks s)" using a by (simp add: dom_def)
      then have "a \<in> owned s C" using fm_invD(7) [OF inv that] by blast
      then show ?thesis by (auto simp: owned_def f fpeq)
    qed (simp add: owned_def)
  qed
  moreover have "log_buffer_ok s'"
    using fm_invD(6) [OF inv] same by (fastforce simp: log_buffer_ok_def f)
  ultimately show ?thesis
    using io_extends_wf [OF ext wf] queue_rep_frame [OF fm_invD(2) [OF inv] fp]
      fm_invD(3) [OF inv] ctx by (simp add: fm_inv_def f fpeq)
qed

text \<open>Changes of the fields that own nothing.\<close>

lemma fm_inv_fields [simp]:
  "fm_inv strict (s\<lparr>bReady := v1\<rparr>) C es = fm_inv strict s C es"
  "fm_inv strict (s\<lparr>bCollectDeletedFiles := v2\<rparr>) C es = fm_inv strict s C es"
  "fm_inv strict (s\<lparr>lastContactTime := v3\<rparr>) C es = fm_inv strict s C es"
  "fm_inv strict (s\<lparr>pFilter := v4\<rparr>) C es = fm_inv strict s C es"
  "fm_inv strict (s\<lparr>pServerPort := v5\<rparr>) C es = fm_inv strict s C es"
  "fm_inv strict (s\<lparr>pClientPort := v6\<rparr>) C es = fm_inv strict s C es"
  "fm_inv strict (s\<lparr>connectionCheckerTimer := v7\<rparr>) C es = fm_inv strict s C es"
proof -
  have frame: "fm_inv strict s' C es = fm_inv strict s C es"
    if "blocks s' = blocks s" "ticks s' = ticks s" "logDirectory s' = logDirectory s"
      "lQueuedFileEvents s' = lQueuedFileEvents s" for s' :: fm_state
  proof -
    have "footprint s' q = footprint s q" for q using that by (intro footprint_frame) simp
    moreover have "queue_rep s' q es = queue_rep s q es" for q
      using queue_rep_frame [of s q es s'] queue_rep_frame [of s' q es s] that by auto
    ultimately show ?thesis
      using that
      by (simp add: fm_inv_def pool_wf_def context_ok_def log_buffer_ok_def owned_def)
  qed
  show "fm_inv strict (s\<lparr>bReady := v1\<rparr>) C es = fm_inv strict s C es"
    "fm_inv strict (s\<lparr>bCollectDeletedFiles := v2\<rparr>) C es = fm_inv strict s C es"
    "fm_inv strict (s\<lparr>lastContactTime := v3\<rparr>) C es = fm_inv strict s C es"
    "fm_inv strict (s\<lparr>pFilter := v4\<rparr>) C es = fm_inv strict s C es"
    "fm_inv strict (s\<lparr>pServerPort := v5\<rparr>) C es = fm_inv strict s C es"
    "fm_inv strict (s\<lparr>pClientPort := v6\<rparr>) C es = fm_inv strict s C es"
    "fm_inv strict (s\<lparr>connectionCheckerTimer := v7\<rparr>) C es = fm_inv strict s C es"
    by (rule frame; simp)+
qed

subsection \<open>Finding the path\<close>

text \<open>
  What a request must satisfy for the driver to survive it: the drive name is well-formed
  and not too long, a deletion does not meet the branch that hands over the unset pointer,
  and where the path has to come from the file object its allocation is served.
  \<open>leak_free\<close> is what keeps every block accounted for.
\<close>

definition wild_pointer_request :: "file_request \<Rightarrow> bool" where
  "wild_pointer_request rq \<longleftrightarrow>
     being_deleted rq \<and> rq_file_object rq \<noteq> None \<and> rq_normalized rq = None \<and>
     rq_opened rq \<noteq> None"

definition query_names :: "file_request \<Rightarrow> bool" where
  "query_names rq \<longleftrightarrow>
     (case rq_normalized rq of Some info \<Rightarrow> 0 < Length (fni_Name info)
      | None \<Rightarrow> (case rq_opened rq of Some info \<Rightarrow> 0 < Length (fni_Name info) | None \<Rightarrow> False))"

definition request_ok :: "(nat \<Rightarrow> bool) \<Rightarrow> file_request \<Rightarrow> bool" where
  "request_ok g rq \<longleftrightarrow>
     drive_ok (rq_fs rq) \<and> \<not> wild_pointer_request rq \<and> (query_names rq \<or> (\<forall>n. g n))"

definition leak_free :: "(nat \<Rightarrow> bool) \<Rightarrow> file_request \<Rightarrow> bool" where
  "leak_free g rq \<longleftrightarrow> \<not> being_deleted rq \<or> (\<forall>n. g n)"

lemma CopyFileIfBeingDeleted_extends:
  assumes "pool_wf k" and "drive_ok (rq_fs rq)" and "being_deleted rq \<longrightarrow> pInfo \<noteq> None"
  shows "\<exists>k' L. CopyFileIfBeingDeleted rq collect logDir pInfo k = Inr k' \<and> io_extends k L k' \<and>
    (leak_free (granted k) rq \<longrightarrow> L = {})"
proof (cases "being_deleted rq \<and> NT_SUCCESS (rq_parse rq) \<and> collect")
  case True
  then obtain info where "pInfo = Some info" using assms(3) by auto
  with True CollectDeletedFile_extends [OF assms(1,2), of logDir info] show ?thesis
    by (auto simp: CopyFileIfBeingDeleted_def leak_free_def)
next
  case False
  then have "CopyFileIfBeingDeleted rq collect logDir pInfo k = Inr k"
    using assms(3) by (auto simp: CopyFileIfBeingDeleted_def split: option.splits)
  then show ?thesis by (intro exI [of _ k] exI [of _ "{}"]) simp
qed

lemma name_from_query_extends:
  fixes s :: fm_state
  assumes "pool_wf s" and "drive_ok (rq_fs rq)" and "\<not> wild_pointer_request rq" and "us_wf path"
  shows "\<exists>found path' s' L. name_from_query rq path s = Inr (found, path', s') \<and>
    io_extends s L s' \<and> us_wf path' \<and> (leak_free (granted s) rq \<longrightarrow> L = {}) \<and>
    (rq_file_object rq \<noteq> None \<longrightarrow> found = query_names rq)"
proof -
  consider (none) "rq_file_object rq = None" | (norm) fo info where
      "rq_file_object rq = Some fo" "rq_normalized rq = Some info"
    | (unnamed) fo where
      "rq_file_object rq = Some fo" "rq_normalized rq = None" "rq_opened rq = None"
    | (opened) fo info where "rq_file_object rq = Some fo" "rq_normalized rq = None"
      "rq_opened rq = Some info"
    by fastforce
  then show ?thesis
  proof cases
    case norm
    obtain k' L where "CopyFileIfBeingDeleted rq (bCollectDeletedFiles s) (logDirectory s)
        (Some info) s = Inr k'" "io_extends s L k'" "leak_free (granted s) rq \<longrightarrow> L = {}"
      using CopyFileIfBeingDeleted_extends [OF assms(1,2), of "Some info"] by blast
    with norm assms(4) show ?thesis
      by (auto simp: name_from_query_def query_names_def)
  next
    case opened
    then have "\<not> being_deleted rq" using assms(3) by (simp add: wild_pointer_request_def)
    then obtain k' L where "CopyFileIfBeingDeleted rq (bCollectDeletedFiles s) (logDirectory s)
        None s = Inr k'" "io_extends s L k'" "leak_free (granted s) rq \<longrightarrow> L = {}"
      using CopyFileIfBeingDeleted_extends [OF assms(1,2), of None] by blast
    with opened assms(4) show ?thesis
      by (auto simp: name_from_query_def query_names_def)
  next
    case none
    then show ?thesis using assms(4)
      by (intro exI [of _ False] exI [of _ path] exI [of _ s] exI [of _ "{}"])
         (simp add: name_from_query_def)
  next
    case unnamed
    then show ?thesis using assms(4)
      by (intro exI [of _ False] exI [of _ path] exI [of _ s] exI [of _ "{}"])
         (simp add: name_from_query_def query_names_def)
  qed
qed

lemma name_from_volume_extends:
  fixes s :: fm_state
  assumes "pool_wf s" and "us_wf path"
  shows "\<exists>found path' s'. name_from_volume rq fo path s = Inr (found, path', s') \<and>
    io_extends s {} s' \<and> us_wf path'"
proof (cases "fst (rq_volume rq) = STATUS_BUFFER_TOO_SMALL")
  case True
  let ?m = "MaximumLength (fo_FileName fo) + 2 + ucast (snd (rq_volume rq)) :: u16"
  obtain r s1 where al: "ExAllocatePoolWithTag (Raw (unat ?m)) s = (r, s1)"
    by (cases "ExAllocatePoolWithTag (Raw (unat ?m)) s")
  have ext: "io_extends s (set_option r) s1"
    using io_extends_alloc(1) [OF io_extends_refl al assms(1)] by simp
  show ?thesis
  proof (cases r)
    case None
    with True al ext assms(2) show ?thesis
      by (intro exI [of _ False] exI [of _ path] exI [of _ s1])
         (simp add: name_from_volume_def Let_def)
  next
    case (Some b)
    from io_extends_free [of s "{b}" s1 b] ext Some assms(1) obtain s2
      where "ExFreePoolWithTag (Some b) s1 = Inr s2" "io_extends s {} s2"
      by (auto simp del: ExFreePoolWithTag.simps)
    with True al Some assms(2) show ?thesis
      by (simp add: name_from_volume_def Let_def us_wf_Copy del: ExFreePoolWithTag.simps)
  qed
next
  case False
  then show ?thesis using assms(2)
    by (intro exI [of _ False] exI [of _ path] exI [of _ s]) (simp add: name_from_volume_def)
qed

lemma RtlEqualUnicodeString_buffers:
  "Buffer b \<noteq> None \<Longrightarrow> Buffer a \<noteq> None \<Longrightarrow> \<exists>eq. RtlEqualUnicodeString up a b = Inr eq"
  by (cases "RtlEqualUnicodeString up a b") (auto simp: RtlEqualUnicodeString_def split: if_splits)

lemma name_from_file_object_extends:
  fixes s :: fm_state
  assumes "pool_wf s" and "us_wf path" and "\<forall>n. granted s n"
  shows "\<exists>found path' s'. name_from_file_object rq fo path s = Inr (found, path', s') \<and>
    io_extends s {} s' \<and> us_wf path'"
proof -
  let ?name = "fo_FileName fo"
  obtain s1 where al: "ExAllocatePoolWithTag (Raw (unat (MaximumLength ?name))) s
      = (Some (ticks s), s1)"
    using granted_alloc [OF assms(3)] by blast
  have ext: "io_extends s {ticks s} s1"
    using io_extends_alloc(1) [OF io_extends_refl al assms(1)] by simp
  have wf1: "pool_wf s1" using io_extends_wf [OF ext assms(1)] .
  let ?d = "Some (ticks s)"
  define dev0 where "dev0 = \<lparr>Length = Length ?name, MaximumLength = MaximumLength ?name,
    Buffer = ?d, Chars = take (unat (Length ?name) div 2) (filePath (rq_garbage rq))\<rparr>"
  define dev where "dev = (if Length ?name \<ge> Length device_prefix
    then RtlUnicodeStringCchCopyN dev0 ?name 7 else dev0)"
  have "Buffer dev = ?d" by (simp add: dev_def dev0_def)
  moreover have "Buffer device_prefix \<noteq> None"
    by (simp add: device_prefix_def RtlInitUnicodeString_def)
  ultimately obtain eq where eq: "RtlEqualUnicodeString (rq_upcase rq) device_prefix dev = Inr eq"
    using RtlEqualUnicodeString_buffers by blast
  obtain found path1 s2 where inner: "(if eq then Inr (True, RtlUnicodeStringCopy path ?name, s1)
      else name_from_volume rq fo path s1) = Inr (found, path1, s2)"
    and e2: "io_extends s1 {} s2" and p1: "us_wf path1"
  proof (cases eq)
    case True
    then show ?thesis using that [of True "RtlUnicodeStringCopy path ?name" s1] assms(2) by simp
  next
    case False
    then show ?thesis using that name_from_volume_extends [OF wf1 assms(2), of rq fo] by auto
  qed
  have "io_extends s {ticks s} s2" using io_extends_trans0 [OF ext e2] .
  from io_extends_free [OF this _ assms(1)] obtain s3
    where s3: "ExFreePoolWithTag ?d s2 = Inr s3" "io_extends s {} s3"
    by (auto simp del: ExFreePoolWithTag.simps)
  have "name_from_file_object rq fo path s = Inr (found, path1, s3)"
    using al eq inner s3(1) unfolding dev_def dev0_def
    by (simp add: name_from_file_object_def Let_def del: ExFreePoolWithTag.simps)
  with s3(2) p1 show ?thesis by blast
qed

lemma find_path_extends:
  fixes s :: fm_state
  assumes "pool_wf s" and "request_ok (granted s) rq" and "us_wf path"
  shows "\<exists>path' s' L. find_path rq path s = Inr (path', s') \<and> io_extends s L s' \<and>
    us_wf path' \<and> (leak_free (granted s) rq \<longrightarrow> L = {})"
proof -
  have ok: "drive_ok (rq_fs rq)" "\<not> wild_pointer_request rq"
    using assms(2) by (simp_all add: request_ok_def)
  obtain found path1 s1 L where q: "name_from_query rq path s = Inr (found, path1, s1)"
    and e1: "io_extends s L s1" and p1: "us_wf path1"
    and L: "leak_free (granted s) rq \<longrightarrow> L = {}"
    and found: "rq_file_object rq \<noteq> None \<longrightarrow> found = query_names rq"
    using name_from_query_extends [OF assms(1) ok assms(3)] by blast
  have wf1: "pool_wf s1" using io_extends_wf [OF e1 assms(1)] .
  define inner where "inner = (case rq_file_object rq of
      Some fo \<Rightarrow> (if \<not> found \<and> \<not> fo_hasRelated fo \<and> 0 < Length (fo_FileName fo)
        then name_from_file_object rq fo path1 s1 else Inr (found, path1, s1))
    | None \<Rightarrow> Inr (found, path1, s1))"
  have "\<exists>found2 path2 s2. inner = Inr (found2, path2, s2) \<and> io_extends s1 {} s2 \<and> us_wf path2"
  proof (cases "\<exists>fo. rq_file_object rq = Some fo \<and>
      \<not> found \<and> \<not> fo_hasRelated fo \<and> 0 < Length (fo_FileName fo)")
    case True
    then obtain fo where fo: "rq_file_object rq = Some fo" "\<not> found"
      "\<not> fo_hasRelated fo \<and> 0 < Length (fo_FileName fo)" by blast
    have "\<forall>n. granted s1 n"
      using fo(1,2) found assms(2) io_extends_granted [OF e1] by (auto simp: request_ok_def)
    from name_from_file_object_extends [OF wf1 p1 this, of rq fo] show ?thesis
      using fo by (simp add: inner_def)
  next
    case False
    then have "inner = Inr (found, path1, s1)" by (auto simp: inner_def split: option.splits)
    then show ?thesis using p1
      by (intro exI [of _ found] exI [of _ path1] exI [of _ s1]) simp
  qed
  then obtain found2 path2 s2 where i: "inner = Inr (found2, path2, s2)"
    and e2: "io_extends s1 {} s2" and p2: "us_wf path2" by blast
  have "find_path rq path s = Inr (if found2 then path2
      else RtlUnicodeStringCatString path2 (wide ''UNKNOWN''), s2)"
    using q i by (simp add: find_path_def inner_def)
  moreover have "us_wf (if found2 then path2
      else RtlUnicodeStringCatString path2 (wide ''UNKNOWN''))" using p2 by simp
  ultimately show ?thesis using io_extends_trans0 [OF e1 e2] L by blast
qed

text \<open>The event made from a path is well-formed, and the path in it is terminated.\<close>

lemma new_file_event_path:
  assumes "us_wf path"
  shows "filePath (new_file_event rq path) = Chars path @ [0]"
    and "unat (filePathLength (new_file_event rq path)) = 2 * length (Chars path) + 2"
proof -
  have "unat (Length path) + 2 < 4294967296"
    using unat_u16_bound [of "Length path"] by linarith
  then have n: "unat (of_nat (unat (Length path) + 2) :: u32) = unat (Length path) + 2"
    using unat_of_nat_small32 [of "unat (Length path) + 2"] by simp
  show "unat (filePathLength (new_file_event rq path)) = 2 * length (Chars path) + 2"
    using us_wf_length [OF assms] n by (simp add: new_file_event_def Let_def)
  show "filePath (new_file_event rq path) = Chars path @ [0]"
    using StringCbCopy_exact [OF assms] n by (simp add: new_file_event_def Let_def)
qed

lemma new_file_event_wf:
  assumes "us_wf path" shows "file_event_wf (new_file_event rq path)"
proof -
  have "length (Chars path) \<le> 32767"
    using us_wf_fits [OF assms] us_capacity_le [of path] by simp
  then show ?thesis
    using new_file_event_path [OF assms, of rq] by (simp add: file_event_wf_def)
qed

subsection \<open>The handlers keep the invariant\<close>

text \<open>Releasing a context that is still pending.\<close>

lemma fm_inv_free_context:
  assumes inv: "fm_inv strict s C es" and c: "c \<in> C"
  shows "\<exists>s'. ExFreePoolWithTag (Some c) s = Inr s' \<and> fm_inv strict s' (C - {c}) es \<and> io_frame s s'"
proof -
  obtain e where e: "blocks s c = Some (Event e)"
    using fm_invD(5) [OF inv c] by (auto simp: context_ok_def)
  let ?s' = "s\<lparr>blocks := (blocks s)(c := None)\<rparr>"
  have out: "c \<notin> footprint s (lQueuedFileEvents s)" using fm_invD(4) [OF inv c] .
  have fp: "footprint ?s' (lQueuedFileEvents s) = footprint s (lQueuedFileEvents s)"
    using out by (intro footprint_frame) (auto simp: footprint_def)
  have log: "Buffer (logDirectory s) \<noteq> Some c" using log_buffer_apart(2) [OF inv] c by blast
  have "queue_rep ?s' (lQueuedFileEvents s) es"
    using out by (intro queue_rep_frame [OF fm_invD(2) [OF inv]]) auto
  moreover have "log_buffer_ok ?s'"
    using fm_invD(6) [OF inv] log by (auto simp: log_buffer_ok_def)
  moreover have "dom (blocks ?s') \<subseteq> owned ?s' (C - {c})" if strict
    using fm_invD(7) [OF inv that] by (auto simp: owned_def fp)
  ultimately have "fm_inv strict ?s' (C - {c}) es"
    using fm_invD(1,3) [OF inv] fm_invD(4,5) [OF inv]
    by (simp add: fm_inv_def fp context_ok_def)
  then show ?thesis using e by simp
qed

text \<open>Rewriting the event of a context.\<close>

lemma fm_inv_write_context:
  assumes inv: "fm_inv strict s C es" and c: "c \<in> C" and wf: "file_event_wf e"
  shows "write_event c e s = Inr (s\<lparr>blocks := (blocks s)(c \<mapsto> Event e)\<rparr>)"
    and "fm_inv strict (s\<lparr>blocks := (blocks s)(c \<mapsto> Event e)\<rparr>) C es"
proof -
  obtain e0 where e0: "blocks s c = Some (Event e0)"
    using fm_invD(5) [OF inv c] by (auto simp: context_ok_def)
  then show "write_event c e s = Inr (s\<lparr>blocks := (blocks s)(c \<mapsto> Event e)\<rparr>)"
    by (rule write_event_live)
  let ?s' = "s\<lparr>blocks := (blocks s)(c \<mapsto> Event e)\<rparr>"
  have out: "c \<notin> footprint s (lQueuedFileEvents s)" using fm_invD(4) [OF inv c] .
  have fp: "footprint ?s' (lQueuedFileEvents s) = footprint s (lQueuedFileEvents s)"
    using out by (intro footprint_frame) (auto simp: footprint_def)
  have log: "Buffer (logDirectory s) \<noteq> Some c" using log_buffer_apart(2) [OF inv] c by blast
  have "queue_rep ?s' (lQueuedFileEvents s) es"
    using out by (intro queue_rep_frame [OF fm_invD(2) [OF inv]]) auto
  moreover have "log_buffer_ok ?s'"
    using fm_invD(6) [OF inv] log by (auto simp: log_buffer_ok_def)
  moreover have "dom (blocks ?s') \<subseteq> owned ?s' C" if strict
    using fm_invD(7) [OF inv that] c by (auto simp: owned_def fp)
  moreover have "pool_wf ?s'" using fm_invD(1) [OF inv] e0 by (auto simp: pool_wf_def)
  ultimately show "fm_inv strict ?s' C es"
    using fm_invD(3) [OF inv] fm_invD(4,5) [OF inv] wf
    by (auto simp: fm_inv_def fp context_ok_def)
qed

text \<open>Queueing a context: it becomes the last event, or the routine reports failure.\<close>

lemma QueueFileEvent_inv:
  assumes inv: "fm_inv strict s C es" and c: "c \<in> C" and e: "blocks s c = Some (Event e)"
  obtains s' where "QueueFileEvent now c s = (True, s')"
      "now - lastContactTime s \<le> USERSPACE_CONNECTION_TIMEOUT"
      "fm_inv strict s' (C - {c}) (es @ [e])" "lastContactTime s' = lastContactTime s"
      "granted s (ticks s)" "granted s' = granted s"
    | s' where "QueueFileEvent now c s = (False, s')" "fm_inv strict s' C es"
      "now - lastContactTime s > USERSPACE_CONNECTION_TIMEOUT \<or> \<not> granted s (ticks s)"
      "lastContactTime s' = lastContactTime s" "granted s' = granted s"
proof (cases "now - lastContactTime s \<le> USERSPACE_CONNECTION_TIMEOUT")
  case False
  then have "QueueFileEvent now c s = (False, s)" by (simp add: QueueFileEvent_def)
  then show ?thesis using that(2) [of s] inv False by (simp add: not_le)
next
  case True
  show ?thesis
  proof (cases "granted s (ticks s)")
    case False
    let ?s1 = "s\<lparr>ticks := Suc (ticks s)\<rparr>"
    have "io_extends s ({} \<union> {}) ?s1" by (simp add: io_extends_def pool_grows_def)
    from fm_inv_extends [OF inv this] have "fm_inv strict ?s1 C es" by simp
    then show ?thesis using that(2) [of ?s1] True False
      by (simp add: QueueFileEvent_def alloc_refused)
  next
    case served: True
    let ?pk = "ticks s" and ?q = "lQueuedFileEvents s"
    let ?s1 = "s\<lparr>ticks := Suc (ticks s), blocks := (blocks s)(?pk \<mapsto> Packet c)\<rparr>"
    let ?s2 = "?s1\<lparr>lQueuedFileEvents := ?q @ [?pk]\<rparr>"
    have none: "blocks s ?pk = None" using fm_invD(1) [OF inv] by simp
    have ne: "c \<noteq> ?pk" using e none by auto
    have live: "a \<in> footprint s ?q \<Longrightarrow> a \<noteq> ?pk" for a
      using footprint_live [OF fm_invD(2) [OF inv]] none by blast
    have same: "\<forall>a \<in> footprint s ?q. blocks ?s2 a = blocks s a" using live by auto
    then have fp: "footprint ?s2 ?q = footprint s ?q"
      by (intro footprint_frame) (auto simp: footprint_def)
    have rep: "queue_rep ?s2 ?q es" using queue_rep_frame [OF fm_invD(2) [OF inv] same] .
    have rep2: "queue_rep ?s2 (?q @ [?pk]) (es @ [e])"
      by (rule queue_rep_snoc [OF rep, of _ c]) (use e ne live fm_invD(4) [OF inv c] fp in auto)
    have fp2: "footprint ?s2 (?q @ [?pk]) = footprint s ?q \<union> {?pk, c}"
      using fp by (auto simp: footprint_append footprint_Cons)
    have ctx: "d \<notin> footprint s ?q \<union> {?pk, c} \<and> context_ok ?s2 d" if "d \<in> C - {c}" for d
      using fm_invD(4,5) [OF inv, of d] that none by (auto simp: context_ok_def)
    have log: "log_buffer_ok ?s2"
      using fm_invD(6) [OF inv] none by (fastforce simp: log_buffer_ok_def)
    have dom: "dom (blocks ?s2) \<subseteq> footprint s ?q \<union> {?pk, c} \<union> (C - {c}) \<union>
        set_option (Buffer (logDirectory s))" if strict
      using fm_invD(7) [OF inv that] by (auto simp: owned_def)
    have "pool_wf ?s2" using fm_invD(1) [OF inv] by (auto simp: pool_wf_def less_Suc_eq)
    moreover have "file_event_wf e" using fm_invD(5) [OF inv c] e by (auto simp: context_ok_def)
    ultimately have "fm_inv strict ?s2 (C - {c}) (es @ [e])"
      unfolding fm_inv_def owned_def using rep2 ctx log dom fm_invD(1,3) [OF inv]
      by (simp add: fp2)
    then show ?thesis using that(1) [of ?s2] True served
      by (simp add: QueueFileEvent_def alloc_granted)
  qed
qed

end
