(* ===== verification/FileMonitorHandlers.thy ===== *)
theory FileMonitorHandlers
  imports FileMonitorInvariant
begin

text \<open>
  Every handler of the file driver runs to its end from a state of the invariant and leaves
  one, and does to the queue of events what it should: the facts the step relation and the
  properties are built from.
\<close>

subsection \<open>After the operation\<close>

definition completed :: "ntstatus \<Rightarrow> u32 \<Rightarrow> file_event \<Rightarrow> file_event" where
  "completed ioStatus ioInformation e =
     e\<lparr>fe_status := ioStatus, fe_information := ioInformation\<rparr>"

lemma completed_wf [simp]: "file_event_wf (completed st info e) = file_event_wf e"
  by (simp add: completed_def file_event_wf_def)

lemma PostFileOperationCallback_draining:
  assumes "fm_inv strict s C es" and "c \<in> C"
  shows "\<exists>s'. PostFileOperationCallback now st info True (Some c) s = Inr s' \<and>
    fm_inv strict s' (C - {c}) es \<and> io_frame s s'"
  using fm_inv_free_context [OF assms]
  by (simp add: PostFileOperationCallback_def del: ExFreePoolWithTag.simps)

text \<open>
  The event is queued exactly when user space was heard of in the last ten seconds and its
  packet could be allocated; otherwise it is freed.
\<close>

lemma PostFileOperationCallback_inv:
  assumes inv: "fm_inv strict s C es" and c: "c \<in> C" and e: "blocks s c = Some (Event e)"
  shows "\<exists>s'. PostFileOperationCallback now st info False (Some c) s = Inr s' \<and>
    fm_inv strict s' (C - {c})
      (if now - lastContactTime s \<le> USERSPACE_CONNECTION_TIMEOUT \<and> granted s (ticks s)
       then es @ [completed st info e] else es) \<and>
    lastContactTime s' = lastContactTime s \<and> granted s' = granted s"
proof -
  let ?e = "completed st info e"
  let ?s1 = "s\<lparr>blocks := (blocks s)(c \<mapsto> Event ?e)\<rparr>"
  have wf: "file_event_wf ?e" using fm_invD(5) [OF inv c] e by (simp add: context_ok_def)
  have w: "write_event c ?e s = Inr ?s1" and inv1: "fm_inv strict ?s1 C es"
    using fm_inv_write_context [OF inv c wf] by simp_all
  have post: "PostFileOperationCallback now st info False (Some c) s =
      (case QueueFileEvent now c ?s1 of (True, s2) \<Rightarrow> Inr s2
       | (False, s2) \<Rightarrow> ExFreePoolWithTag (Some c) s2)"
    using e w by (simp add: PostFileOperationCallback_def read_event_def completed_def)
  have ev: "blocks ?s1 c = Some (Event ?e)" by simp
  show ?thesis
  proof (cases rule: QueueFileEvent_inv [OF inv1 c ev, of now])
    case (1 s2)
    then show ?thesis using post by simp
  next
    case (2 s2)
    obtain s3 where s3: "ExFreePoolWithTag (Some c) s2 = Inr s3" "fm_inv strict s3 (C - {c}) es"
        "io_frame s2 s3"
      using fm_inv_free_context [OF 2(2) c] by blast
    then show ?thesis
      using post 2 io_frame_fm(4) [OF s3(3)] io_frame_granted [OF s3(3)]
      by (auto simp: not_le [symmetric] simp del: ExFreePoolWithTag.simps)
  qed
qed

subsection \<open>Before the operation\<close>

text \<open>The path is what the search finds from some later state of the pool.\<close>

definition path_found :: "file_request \<Rightarrow> fm_state \<Rightarrow> unicode_string \<Rightarrow> bool" where
  "path_found rq s path \<longleftrightarrow>
     (\<exists>b s1 s2. find_path rq (empty_string 65534 (Some b)) s1 = Inr (path, s2) \<and>
        granted s1 = granted s \<and> pool_wf s1)"

lemma PreFileOperationCallback_event:
  fixes s :: fm_state
  assumes inv: "fm_inv strict s C es" and ok: "request_ok (granted s) rq"
    and leak: "strict \<longrightarrow> leak_free (granted s) rq" and fs: "\<not> rq_fs_filter rq"
  shows "(\<exists>s'. PreFileOperationCallback rq now st info s = Inr (FLT_PREOP_SUCCESS_NO_CALLBACK, s') \<and>
      fm_inv strict s' C es \<and> io_frame s s' \<and> \<not> (\<forall>n. granted s n)) \<or>
    (\<exists>s' ev path. ev \<notin> C \<and> us_wf path \<and> fm_inv strict s' (insert ev C) es \<and> io_frame s s' \<and>
      blocks s' ev = Some (Event (new_file_event rq path)) \<and>
      path_found rq s path \<and>
      PreFileOperationCallback rq now st info s =
        (if rq_major rq = IRP_MJ_SHUTDOWN
         then and_then (PostFileOperationCallback now st info False (Some ev) s')
                (\<lambda>s6. Inr (FLT_PREOP_SUCCESS_NO_CALLBACK, s6))
         else Inr (FLT_PREOP_SUCCESS_WITH_CALLBACK ev, s')))"
proof -
  have wf: "pool_wf s" using fm_invD(1) [OF inv] .
  obtain r s1 where al: "ExAllocatePoolWithTag (Raw 65534) s = (r, s1)"
    by (cases "ExAllocatePoolWithTag (Raw 65534) s")
  have e1: "io_extends s (set_option r) s1"
    using io_extends_alloc(1) [OF io_extends_refl al wf] by simp
  show ?thesis
  proof (cases r)
    case None
    then have "\<not> granted s (ticks s)"
      using al by (auto simp: ExAllocatePoolWithTag_def split: if_splits)
    moreover have "fm_inv strict s1 C es"
      using fm_inv_extends [OF inv, of "{}" "{}" s1] e1 None by simp
    ultimately show ?thesis
      using al None fs io_extendsD(1) [OF e1] by (auto simp: PreFileOperationCallback_def)
  next
    case (Some b)
    have wf1: "pool_wf s1" using io_extends_wf [OF e1 wf] .
    have g1: "granted s1 = granted s" using io_extends_granted [OF e1] .
    have u0: "us_wf (empty_string 65534 (Some b))" by (rule us_wf_empty_string) simp_all
    obtain path s2 L where p: "find_path rq (empty_string 65534 (Some b)) s1 = Inr (path, s2)"
      and e2: "io_extends s1 L s2" and up: "us_wf path" and L: "leak_free (granted s1) rq \<longrightarrow> L = {}"
      using find_path_extends [OF wf1 _ u0, of rq] ok g1 by auto
    have e12: "io_extends s ({b} \<union> L) s2" and bL: "b \<notin> L"
      using io_extends_seq [OF e1 e2] Some by auto
    obtain r3 s3 where al3: "ExAllocatePoolWithTag (Event (rq_garbage rq)) s2 = (r3, s3)"
      by (cases "ExAllocatePoolWithTag (Event (rq_garbage rq)) s2")
    have e3: "io_extends s ({b} \<union> L \<union> set_option r3) s3"
      and d3: "set_option r3 \<inter> ({b} \<union> L) = {}"
      using io_extends_alloc [OF e12 al3 wf] by simp_all
    obtain s4 where s4: "ExFreePoolWithTag (Some b) s3 = Inr s4"
      and e4: "io_extends s ({b} \<union> L \<union> set_option r3 - {b}) s4"
      using io_extends_free [OF e3 _ wf, of b] by auto
    have set4: "{b} \<union> L \<union> set_option r3 - {b} = set_option r3 \<union> L" using d3 bL by auto
    have Ls: "strict \<longrightarrow> L = {}" using L leak g1 by simp
    show ?thesis
    proof (cases r3)
      case None
      have "\<not> (\<forall>n. granted s n)"
        using al3 None io_extends_granted [OF e12]
        by (auto simp: ExAllocatePoolWithTag_def split: if_splits)
      moreover have "fm_inv strict s4 C es"
        using fm_inv_extends [OF inv, of "{}" L s4] e4 set4 None Ls by simp
      ultimately show ?thesis
        using al Some fs p al3 None s4 io_extendsD(1) [OF e4]
        by (simp add: PreFileOperationCallback_def del: ExFreePoolWithTag.simps)
    next
      case ev: (Some ev)
      let ?e = "new_file_event rq path"
      have "ev \<noteq> b" using d3 ev by auto
      have "blocks s3 ev = Some (Event (rq_garbage rq))"
        using al3 ev by (auto simp: ExAllocatePoolWithTag_def split: if_splits)
      with s4 \<open>ev \<noteq> b\<close> have old: "blocks s4 ev = Some (Event (rq_garbage rq))"
        by (auto split: option.splits)
      let ?s5 = "s4\<lparr>blocks := (blocks s4)(ev \<mapsto> Event ?e)\<rparr>"
      have w: "write_event ev ?e s4 = Inr ?s5" by (rule write_event_live [OF old])
      have "io_extends s ({ev} \<union> L) ?s5" using e4 set4 ev by (auto simp: io_extends_def pool_grows_def)
      then have "fm_inv strict ?s5 (C \<union> {ev}) es"
        using Ls new_file_event_wf [OF up]
        by (intro fm_inv_extends [OF inv]) (auto simp: context_ok_def)
      then have inv5: "fm_inv strict ?s5 (insert ev C) es" by simp
      have new: "ev \<notin> C"
      proof
        assume "ev \<in> C"
        then have "blocks s ev \<noteq> None"
          using fm_invD(5) [OF inv, of ev] by (auto simp: context_ok_def)
        moreover have "ticks s \<le> ev" using io_extendsD(5) [OF e3, of ev] ev by simp
        ultimately show False using pool_wfD [OF wf, of ev] by simp
      qed
      have fr: "io_frame s ?s5" using io_extendsD(1) [OF e4] by simp
      have res: "PreFileOperationCallback rq now st info s =
        (if rq_major rq = IRP_MJ_SHUTDOWN
         then and_then (PostFileOperationCallback now st info False (Some ev) ?s5)
                (\<lambda>s6. Inr (FLT_PREOP_SUCCESS_NO_CALLBACK, s6))
         else Inr (FLT_PREOP_SUCCESS_WITH_CALLBACK ev, ?s5))"
        using al Some fs p al3 ev s4 w
        by (simp add: PreFileOperationCallback_def del: ExFreePoolWithTag.simps)
      have "path_found rq s path" unfolding path_found_def using p g1 wf1 by blast
      moreover have "blocks ?s5 ev = Some (Event ?e)" by simp
      ultimately show ?thesis
        using new up inv5 fr res
        by (intro disjI2 exI [of _ ?s5] exI [of _ ev] exI [of _ path] conjI)
    qed
  qed
qed

subsection \<open>The queue and the log directory\<close>

text \<open>Releasing the front part of the queue.\<close>

lemma fm_inv_drop_queue:
  assumes inv: "fm_inv strict s C es" and q: "lQueuedFileEvents s = p @ q"
  shows "fm_inv strict (s\<lparr>blocks := blocks s |` (- footprint s p), lQueuedFileEvents := q\<rparr>) C
    (drop (length p) es)"
proof -
  let ?s' = "s\<lparr>blocks := blocks s |` (- footprint s p), lQueuedFileEvents := q\<rparr>"
  have rep: "queue_rep s q (drop (length p) es)" and dis: "footprint s p \<inter> footprint s q = {}"
    using queue_rep_append [OF fm_invD(2) [OF inv] q] by simp_all
  have all: "footprint s (lQueuedFileEvents s) = footprint s p \<union> footprint s q"
    by (simp add: q footprint_append)
  have same: "\<forall>a \<in> footprint s q. blocks ?s' a = blocks s a"
    using dis by (auto simp: restrict_map_def)
  then have fp: "footprint ?s' q = footprint s q"
    by (intro footprint_frame) (auto simp: footprint_def)
  have ctx: "c \<notin> footprint s q \<and> context_ok ?s' c" if "c \<in> C" for c
    using fm_invD(4,5) [OF inv that] all by (auto simp: context_ok_def)
  have "log_buffer_ok ?s'"
    using fm_invD(6) [OF inv] log_buffer_apart(1) [OF inv] all by (auto simp: log_buffer_ok_def)
  moreover have "pool_wf ?s'" using fm_invD(1) [OF inv] by (auto simp: pool_wf_def restrict_map_def)
  moreover have "dom (blocks ?s') \<subseteq> footprint s q \<union> C \<union> set_option (Buffer (logDirectory s))"
    if strict using fm_invD(7) [OF inv that] all by (auto simp: owned_def)
  moreover have "\<forall>e \<in> set (drop (length p) es). file_event_wf e"
    using fm_invD(3) [OF inv] by (auto dest: in_set_dropD)
  ultimately show ?thesis
    using ctx queue_rep_frame [OF rep same] by (simp add: fm_inv_def owned_def fp)
qed

definition same_flags :: "fm_state \<Rightarrow> fm_state \<Rightarrow> bool" where
  "same_flags s s' \<longleftrightarrow>
     bReady s' = bReady s \<and> pFilter s' = pFilter s \<and> pServerPort s' = pServerPort s \<and>
     pClientPort s' = pClientPort s \<and> connectionCheckerTimer s' = connectionCheckerTimer s"

lemma FreeQueuedEvents_inv:
  assumes "fm_inv strict s C es"
  shows "\<exists>s'. FreeQueuedEvents s = Inr s' \<and> fm_inv strict s' C [] \<and>
    lQueuedFileEvents s' = [] \<and> logDirectory s' = logDirectory s \<and> same_flags s s' \<and>
    lastContactTime s' = lastContactTime s \<and> granted s' = granted s"
proof -
  let ?q = "lQueuedFileEvents s"
  have len: "length ?q = length es" using queue_rep_length [OF fm_invD(2) [OF assms]] .
  have "FreeQueuedEvents s =
      Inr (s\<lparr>blocks := blocks s |` (- footprint s ?q), lQueuedFileEvents := []\<rparr>)"
    using free_packets_rep [OF fm_invD(2) [OF assms]] by (simp add: FreeQueuedEvents_def)
  with fm_inv_drop_queue [OF assms, of ?q "[]"] len show ?thesis by (simp add: same_flags_def)
qed

lemma ConnectionChecker_inv:
  assumes "fm_inv strict s C es"
  shows "\<exists>s'. ConnectionChecker now s = Inr s' \<and>
    fm_inv strict s' C (if now - lastContactTime s > 15 then [] else es) \<and>
    lastContactTime s' = lastContactTime s \<and> granted s' = granted s"
proof -
  have "USERSPACE_CONNECTION_TIMEOUT + USERSPACE_CONNECTION_TIMEOUT div 2 = 15"
    by (simp add: USERSPACE_CONNECTION_TIMEOUT_def)
  with FreeQueuedEvents_inv [OF assms] assms show ?thesis
    by (auto simp: ConnectionChecker_def)
qed

lemma free_log_directory_inv:
  assumes inv: "fm_inv strict s C es"
  shows "\<exists>s'. free_log_directory s = Inr s' \<and> fm_inv strict s' C es \<and>
    Buffer (logDirectory s') = None \<and> lQueuedFileEvents s' = lQueuedFileEvents s \<and>
    same_flags s s' \<and> lastContactTime s' = lastContactTime s \<and> granted s' = granted s \<and>
    bCollectDeletedFiles s' = bCollectDeletedFiles s"
proof (cases "Buffer (logDirectory s)")
  case None
  then show ?thesis using inv by (simp add: free_log_directory_def same_flags_def)
next
  case (Some b)
  let ?q = "lQueuedFileEvents s"
  obtain n where n: "blocks s b = Some (Raw n)"
    using fm_invD(6) [OF inv] Some by (auto simp: log_buffer_ok_def)
  let ?s' = "s\<lparr>blocks := (blocks s)(b := None), logDirectory := (logDirectory s)\<lparr>Buffer := None\<rparr>\<rparr>"
  have out: "b \<notin> footprint s ?q" "b \<notin> C" using log_buffer_apart [OF inv Some] .
  have fp: "footprint ?s' ?q = footprint s ?q"
    using out by (intro footprint_frame) (auto simp: footprint_def)
  have "queue_rep ?s' ?q es"
    using out by (intro queue_rep_frame [OF fm_invD(2) [OF inv]]) auto
  moreover have "c \<notin> footprint s ?q \<and> context_ok ?s' c" if "c \<in> C" for c
    using fm_invD(4,5) [OF inv that] that out by (auto simp: context_ok_def)
  moreover have "pool_wf ?s'" using fm_invD(1) [OF inv] by (auto simp: pool_wf_def)
  moreover have "dom (blocks ?s') \<subseteq> footprint s ?q \<union> C" if strict
    using fm_invD(7) [OF inv that] Some by (auto simp: owned_def)
  ultimately have "fm_inv strict ?s' C es"
    using fm_invD(3) [OF inv] by (simp add: fm_inv_def owned_def fp log_buffer_ok_def)
  then show ?thesis using Some n by (simp add: free_log_directory_def same_flags_def)
qed

text \<open>A new directory string whose buffer is a fresh raw block.\<close>

lemma fm_inv_new_log_directory:
  assumes inv: "fm_inv strict s C es" and none: "Buffer (logDirectory s) = None"
    and al: "ExAllocatePoolWithTag (Raw n) s = (Some b, s1)" and buf: "Buffer dir = Some b"
  shows "fm_inv strict (s1\<lparr>bCollectDeletedFiles := c, logDirectory := dir\<rparr>) C es"
proof -
  let ?q = "lQueuedFileEvents s"
  let ?s' = "s1\<lparr>bCollectDeletedFiles := c, logDirectory := dir\<rparr>"
  have wf: "pool_wf s" using fm_invD(1) [OF inv] .
  have b: "b = ticks s" and s1: "s1 = s\<lparr>ticks := Suc (ticks s), blocks := (blocks s)(ticks s \<mapsto> Raw n)\<rparr>"
    using al by (auto simp: ExAllocatePoolWithTag_def split: if_splits)
  have free: "blocks s b = None" using wf b by simp
  have out: "b \<notin> footprint s ?q" using footprint_live [OF fm_invD(2) [OF inv]] free by blast
  have fp: "footprint ?s' ?q = footprint s ?q"
    using out b s1 by (intro footprint_frame) (auto simp: footprint_def)
  have "queue_rep ?s' ?q es"
    using out b s1 by (intro queue_rep_frame [OF fm_invD(2) [OF inv]]) auto
  moreover have "d \<notin> footprint s ?q \<and> context_ok ?s' d" if "d \<in> C" for d
    using fm_invD(4,5) [OF inv that] free b s1 by (auto simp: context_ok_def)
  moreover have "pool_wf ?s'" using wf s1 by (auto simp: pool_wf_def less_Suc_eq)
  moreover have "dom (blocks ?s') \<subseteq> footprint s ?q \<union> C \<union> set_option (Buffer dir)" if strict
    using fm_invD(7) [OF inv that] none buf b s1 by (auto simp: owned_def)
  moreover have "log_buffer_ok ?s'" using buf b s1 by (simp add: log_buffer_ok_def)
  moreover have "lQueuedFileEvents ?s' = ?q" using s1 by simp
  ultimately show ?thesis
    using fm_invD(3) [OF inv] by (simp add: fm_inv_def owned_def fp)
qed

subsection \<open>Messages\<close>

text \<open>A poll takes the maximal prefix that fits, returns its bytes and frees its blocks.\<close>

lemma unat_u32_eq_iff: "n < 2 ^ 32 \<Longrightarrow> unat w = n \<Longrightarrow> w = (of_nat n :: u32)"
  by (metis unat_of_nat_small32 word_unat_eq_iff)

lemma get_file_events_inv:
  assumes inv: "fm_inv strict s C es"
    and d: "drain_events (\<lambda>e. unat (file_event_size e)) (unat space) es = (d, r)"
  shows "\<exists>s'. get_file_events now space s = Inr (concat (map file_event_bytes d),
      of_nat (sum_list (map (\<lambda>e. unat (file_event_size e)) d)), s') \<and>
    fm_inv strict s' C r \<and> lastContactTime s' = now \<and> granted s' = granted s"
proof -
  let ?s0 = "UpdateLastContactTime now s" and ?q = "lQueuedFileEvents s"
  have inv0: "fm_inv strict ?s0 C es" using inv by (simp add: UpdateLastContactTime_def)
  have q0: "lQueuedFileEvents ?s0 = ?q" by (simp add: UpdateLastContactTime_def)
  have rep: "queue_rep ?s0 ?q es" using fm_invD(2) [OF inv0] by (simp add: q0)
  have sizes: "\<forall>e \<in> set es. sizeof_FILE_EVENT \<le> file_event_size e \<and>
      unat (file_event_size e) = length (file_event_bytes e)"
    using fm_invD(3) [OF inv] sizeof_le_file_event_size file_event_size_bytes by blast
  have "drain_packets sizeof_FILE_EVENT file_event_size file_event_bytes space 0 [] ?q ?s0 =
    Inr ([] @ concat (map file_event_bytes d),
      0 + of_nat (sum_list (map (\<lambda>e. unat (file_event_size e)) d)), drop (length d) ?q,
      ?s0\<lparr>blocks := blocks ?s0 |` (- footprint ?s0 (take (length d) ?q))\<rparr>)"
    by (rule drain_packets_rep [OF rep sizes]) (use d in \<open>simp_all add: sizeof_FILE_EVENT_def\<close>)
  moreover have "fm_inv strict (?s0\<lparr>blocks := blocks ?s0 |` (- footprint ?s0 (take (length d) ?q)),
      lQueuedFileEvents := drop (length d) ?q\<rparr>) C r"
  proof -
    have es: "es = d @ r" using drain_events_split [OF d] .
    have "length (take (length d) ?q) = length d"
      using queue_rep_length [OF fm_invD(2) [OF inv]] es by simp
    with fm_inv_drop_queue [OF inv0, of "take (length d) ?q" "drop (length d) ?q"] q0 es
    show ?thesis by simp
  qed
  ultimately show ?thesis
    by (simp add: get_file_events_def UpdateLastContactTime_def)
qed

text \<open>The setup reads its structure inside the output buffer when the directory ends in it.\<close>

definition setup_terminated :: "u8 list \<Rightarrow> bool" where
  "setup_terminated ob \<longleftrightarrow> 0 \<in> set (wszLogDirectory (filemonitor_setup_at ob))"

lemma set_log_directory_inv:
  assumes inv: "fm_inv strict s C es" and zt: "0 \<in> set (wszLogDirectory m)"
  shows "\<exists>s'. set_log_directory m s = Inr s' \<and> fm_inv strict s' C es \<and>
    lastContactTime s' = lastContactTime s \<and> granted s' = granted s"
proof -
  let ?z = "MaximumLength nt_prefix + ucast (nLogDirectorySize m) + 2 :: u16"
  obtain s1 where s1: "free_log_directory s = Inr s1" and inv1: "fm_inv strict s1 C es"
    and none: "Buffer (logDirectory s1) = None" and g1: "granted s1 = granted s"
    and t1: "lastContactTime s1 = lastContactTime s"
    using free_log_directory_inv [OF inv] by blast
  obtain r s2 where al: "ExAllocatePoolWithTag (Raw (unat ?z + 8 + 2)) s1 = (r, s2)"
    by (cases "ExAllocatePoolWithTag (Raw (unat ?z + 8 + 2)) s1")
  have ext: "io_extends s1 (set_option r) s2"
    using io_extends_alloc(1) [OF io_extends_refl al fm_invD(1) [OF inv1]] by simp
  note t2 = io_frame_fm(4) [OF io_extendsD(1) [OF ext]] and g2 = io_extends_granted [OF ext]
  show ?thesis
  proof (cases r)
    case None
    then have "fm_inv strict s2 C es" using fm_inv_extends [OF inv1, of "{}" "{}" s2] ext by simp
    with s1 al None g1 g2 t1 t2 show ?thesis by (simp add: set_log_directory_def Let_def)
  next
    case (Some b)
    let ?dir = "RtlUnicodeStringCatString (RtlUnicodeStringCat (empty_string ?z (Some b)) nt_prefix)
      (takeWhile (\<lambda>c. c \<noteq> 0) (wszLogDirectory m))"
    have al': "ExAllocatePoolWithTag (Raw (unat ?z + 8 + 2)) s1 = (Some b, s2)" using al Some by simp
    have "fm_inv strict (s2\<lparr>bCollectDeletedFiles := fs_collect m, logDirectory := ?dir\<rparr>) C es"
      by (rule fm_inv_new_log_directory [OF inv1 none al']) simp
    with s1 al Some zt g1 g2 t1 t2 show ?thesis by (simp add: set_log_directory_def Let_def)
  qed
qed

lemma setup_monitor_inv:
  assumes inv: "fm_inv strict s C es" and zt: "setup_terminated ob"
  shows "\<exists>s'. setup_monitor ob s = Inr s' \<and> fm_inv strict s' C es \<and>
    lastContactTime s' = lastContactTime s \<and> granted s' = granted s"
proof -
  have "fm_inv strict (s\<lparr>bCollectDeletedFiles := False\<rparr>) C es" using inv by simp
  from free_log_directory_inv [OF this] set_log_directory_inv [OF inv, of "filemonitor_setup_at ob"]
    inv zt show ?thesis by (auto simp: setup_monitor_def setup_terminated_def Let_def)
qed

subsection \<open>Disconnecting and unloading\<close>

lemma DisconnectCallback_inv:
  assumes "fm_inv strict s C es"
  shows "\<exists>s'. DisconnectCallback s = Inr s' \<and> fm_inv strict s' C [] \<and>
    Buffer (logDirectory s') = None \<and> \<not> bCollectDeletedFiles s' \<and> granted s' = granted s"
proof -
  obtain s1 where s1: "FreeQueuedEvents s = Inr s1" and i1: "fm_inv strict s1 C []"
    and g1: "granted s1 = granted s"
    using FreeQueuedEvents_inv [OF assms] by blast
  obtain s2 where "free_log_directory s1 = Inr s2" "fm_inv strict s2 C []"
    "Buffer (logDirectory s2) = None" "granted s2 = granted s1"
    using free_log_directory_inv [OF i1] by blast
  with s1 g1 show ?thesis by (simp add: DisconnectCallback_def)
qed

lemma drain_contexts_inv:
  "fm_inv strict s C es \<Longrightarrow> set cs \<subseteq> C \<Longrightarrow> distinct cs \<Longrightarrow>
     \<exists>s'. drain_contexts now cs s = Inr s' \<and> fm_inv strict s' (C - set cs) es \<and> io_frame s s'"
proof (induction cs arbitrary: s C)
  case (Cons c cs)
  obtain s1 where s1: "PostFileOperationCallback now 0 0 True (Some c) s = Inr s1"
    and i1: "fm_inv strict s1 (C - {c}) es" and f1: "io_frame s s1"
    using PostFileOperationCallback_draining [OF Cons.prems(1), of c now 0 0] Cons.prems(2) by auto
  have "set cs \<subseteq> C - {c}" "distinct cs" using Cons.prems(2,3) by auto
  from Cons.IH [OF i1 this] obtain s2 where s2: "drain_contexts now cs s1 = Inr s2"
    "fm_inv strict s2 (C - {c} - set cs) es" "io_frame s1 s2" by blast
  moreover have "C - {c} - set cs = C - set (c # cs)" by auto
  ultimately show ?case using s1 io_frame_trans [OF f1 s2(3)] by simp
qed simp

text \<open>Unloading with every pending context handed back leaves the driver owning nothing.\<close>

lemma FilterUnload_inv:
  assumes inv: "fm_inv strict s (set cs) es" and cs: "distinct cs" and ready: "bReady s"
  shows "\<exists>s'. FilterUnload now cs s = Inr (STATUS_SUCCESS, s') \<and> fm_inv strict s' {} [] \<and>
    owned s' {} = {} \<and> (strict \<longrightarrow> blocks s' = Map.empty) \<and> \<not> pFilter s' \<and> \<not> pServerPort s' \<and>
    \<not> connectionCheckerTimer s'"
proof -
  let ?s0 = "s\<lparr>pServerPort := False, pFilter := False\<rparr>"
  have "fm_inv strict ?s0 (set cs) es" using inv by simp
  from drain_contexts_inv [OF this _ cs] obtain s2 where
    s2: "drain_contexts now cs ?s0 = Inr s2" "fm_inv strict s2 {} es" "io_frame ?s0 s2" by auto
  let ?s3 = "s2\<lparr>connectionCheckerTimer := False\<rparr>"
  have i3: "fm_inv strict ?s3 {} es" using s2(2) by simp
  obtain s4 where s4: "free_log_directory ?s3 = Inr s4" "fm_inv strict s4 {} es"
    "Buffer (logDirectory s4) = None" "same_flags ?s3 s4"
    using free_log_directory_inv [OF i3] by blast
  have "fm_inv strict (s4\<lparr>bCollectDeletedFiles := False\<rparr>) {} es" using s4(2) by simp
  from FreeQueuedEvents_inv [OF this] obtain s5 where
    s5: "FreeQueuedEvents (s4\<lparr>bCollectDeletedFiles := False\<rparr>) = Inr s5" "fm_inv strict s5 {} []"
    "lQueuedFileEvents s5 = []" "logDirectory s5 = logDirectory s4"
    "same_flags (s4\<lparr>bCollectDeletedFiles := False\<rparr>) s5" by auto
  have own: "owned s5 {} = {}" using s5(3,4) s4(3) by (simp add: owned_def)
  have gone: "strict \<longrightarrow> blocks s5 = Map.empty" using fm_invD(7) [OF s5(2)] own by auto
  have flags: "\<not> pFilter s5 \<and> \<not> pServerPort s5 \<and> \<not> connectionCheckerTimer s5"
    using s4(4) s5(5) io_frame_fm(6,7) [OF s2(3)] by (simp add: same_flags_def)
  show ?thesis
    using s2(1) s4(1) s5 own gone flags ready by (simp add: FilterUnload_def Let_def)
qed

end
