(* ===== verification/FileMonitorSystem.thy ===== *)
theory FileMonitorSystem
  imports FileMonitorHandlers
begin

text \<open>
  The file driver as a machine: the calls it can receive, in any order, from loading to
  unloading; the states it can reach; and the driver as a provider of the polled interface.
\<close>

subsection \<open>Calls\<close>

datatype fm_input =
    PreOp file_request u32 ntstatus u32
  | PostOp addr u32 ntstatus u32 bool
  | Message u32 fm_message
  | Connect
  | Disconnect
  | Tick u32

text \<open>
  A state of the machine is the driver's state and the completion contexts the filter
  manager holds. A pre-operation callback that asks for its post-operation callback hands
  its event over, and the post-operation callback takes it back.
\<close>

fun fm_exec :: "fm_input \<Rightarrow> fm_state \<Rightarrow> addr set \<Rightarrow> bugcheck + (fm_state \<times> addr set)" where
  "fm_exec (PreOp rq now st info) s C =
     and_then (PreFileOperationCallback rq now st info s) (\<lambda>(r, s').
     Inr (s', case r of FLT_PREOP_SUCCESS_NO_CALLBACK \<Rightarrow> C
              | FLT_PREOP_SUCCESS_WITH_CALLBACK ev \<Rightarrow> insert ev C))"
| "fm_exec (PostOp c now st info draining) s C =
     and_then (PostFileOperationCallback now st info draining (Some c) s) (\<lambda>s'.
     Inr (s', C - {c}))"
| "fm_exec (Message now m) s C =
     and_then (MessageCallback now m s) (\<lambda>(st, out, n, s'). Inr (s', C))"
| "fm_exec Connect s C = Inr (snd (ConnectCallback s), C)"
| "fm_exec Disconnect s C = and_then (DisconnectCallback s) (\<lambda>s'. Inr (s', C))"
| "fm_exec (Tick now) s C = and_then (ConnectionChecker now s) (\<lambda>s'. Inr (s', C))"

text \<open>
  What the environment has to respect: a post-operation callback is given a pending
  context; requests are as \<open>request_ok\<close> says; a setup message holds a terminated path. In
  the strict reading a deletion is only collected while allocations are served.
\<close>

definition message_ok :: "fm_message \<Rightarrow> bool" where
  "message_ok m \<longleftrightarrow> length (OutputBuffer m) < 2 ^ 32 \<and>
     (length (OutputBuffer m) = sizeof_FILEMONITOR_SETUP \<longrightarrow> setup_terminated (OutputBuffer m))"

fun fm_allowed :: "bool \<Rightarrow> fm_input \<Rightarrow> fm_state \<Rightarrow> addr set \<Rightarrow> bool" where
  "fm_allowed strict (PreOp rq now st info) s C \<longleftrightarrow>
     request_ok (granted s) rq \<and> (strict \<longrightarrow> leak_free (granted s) rq)"
| "fm_allowed strict (PostOp c now st info draining) s C \<longleftrightarrow> c \<in> C"
| "fm_allowed strict (Message now m) s C \<longleftrightarrow> message_ok m"
| "fm_allowed strict Connect s C \<longleftrightarrow> True"
| "fm_allowed strict Disconnect s C \<longleftrightarrow> True"
| "fm_allowed strict (Tick now) s C \<longleftrightarrow> True"

lemma Message_inv:
  assumes inv: "fm_inv strict s C es" and ok: "message_ok m"
  shows "\<exists>st out n s' es'. MessageCallback now m s = Inr (st, out, n, s') \<and>
    fm_inv strict s' C es' \<and> granted s' = granted s"
proof -
  obtain d r where d: "drain_events (\<lambda>e. unat (file_event_size e))
      (unat (of_nat (length (OutputBuffer m)) :: u32)) es = (d, r)"
    by (cases "drain_events (\<lambda>e. unat (file_event_size e))
      (unat (of_nat (length (OutputBuffer m)) :: u32)) es")
  note poll = get_file_events_inv [OF inv d, of now]
  have smon: "\<exists>s'. setup_monitor (OutputBuffer m) s = Inr s' \<and> fm_inv strict s' C es \<and>
      granted s' = granted s"
  proof (cases "length (OutputBuffer m) = sizeof_FILEMONITOR_SETUP")
    case True
    with ok have "setup_terminated (OutputBuffer m)" by (simp add: message_ok_def)
    from setup_monitor_inv [OF inv this] show ?thesis by blast
  qed (use inv in \<open>simp add: setup_monitor_def\<close>)
  show ?thesis
  proof (cases "InputBuffer m")
    case None
    then show ?thesis using inv by (auto simp: MessageCallback_def)
  next
    case (Some ib)
    show ?thesis
    proof (cases "length ib < 4 \<or> input_fault m \<noteq> None")
      case True
      then show ?thesis using Some inv by (auto simp: MessageCallback_def split: option.splits)
    next
      case False
      then have ib: "\<not> length ib < 4" "input_fault m = None" by auto
      show ?thesis
        using poll smon inv Some ib
        by (cases "filemonitor_command_of (u32_at ib 0)") (auto simp: MessageCallback_def)
    qed
  qed
qed

text \<open>Every allowed call runs to its end and keeps the invariant.\<close>

lemma fm_exec_inv:
  assumes inv: "fm_inv strict s C es" and ok: "fm_allowed strict i s C"
  shows "\<exists>s' C' es'. fm_exec i s C = Inr (s', C') \<and> fm_inv strict s' C' es' \<and>
    granted s' = granted s"
proof (cases i)
  case (PreOp rq now st info)
  show ?thesis
  proof (cases "rq_fs_filter rq")
    case True
    then show ?thesis using PreOp inv by (auto simp: PreFileOperationCallback_def)
  next
    case False
    have "request_ok (granted s) rq" "strict \<longrightarrow> leak_free (granted s) rq"
      using ok PreOp by simp_all
    from PreFileOperationCallback_event [OF inv this False, of now st info] show ?thesis
    proof (elim disjE exE conjE)
      fix s' assume "PreFileOperationCallback rq now st info s =
          Inr (FLT_PREOP_SUCCESS_NO_CALLBACK, s')" "fm_inv strict s' C es" "io_frame s s'"
      then show ?thesis using PreOp io_frame_granted by auto
    next
      fix s' ev path
      assume ev: "ev \<notin> C" and i': "fm_inv strict s' (insert ev C) es" and fr: "io_frame s s'"
        and b: "blocks s' ev = Some (Event (new_file_event rq path))"
        and run: "PreFileOperationCallback rq now st info s =
          (if rq_major rq = IRP_MJ_SHUTDOWN
           then and_then (PostFileOperationCallback now st info False (Some ev) s')
                  (\<lambda>s6. Inr (FLT_PREOP_SUCCESS_NO_CALLBACK, s6))
           else Inr (FLT_PREOP_SUCCESS_WITH_CALLBACK ev, s'))"
      obtain s6 es6 where s6: "PostFileOperationCallback now st info False (Some ev) s' = Inr s6"
        "fm_inv strict s6 (insert ev C - {ev}) es6" "granted s6 = granted s'"
        using PostFileOperationCallback_inv [OF i' _ b] by blast
      moreover have "insert ev C - {ev} = C" using ev by auto
      ultimately show ?thesis using PreOp run i' io_frame_granted [OF fr]
        by (cases "rq_major rq = IRP_MJ_SHUTDOWN") auto
    qed
  qed
next
  case (PostOp c now st info draining)
  then have c: "c \<in> C" using ok by simp
  obtain e where e: "blocks s c = Some (Event e)"
    using fm_invD(5) [OF inv c] by (auto simp: context_ok_def)
  show ?thesis
  proof (cases draining)
    case True
    then show ?thesis
      using PostOp PostFileOperationCallback_draining [OF inv c, of now st info] io_frame_granted
      by fastforce
  next
    case False
    then show ?thesis
      using PostOp PostFileOperationCallback_inv [OF inv c e, of now st info] by auto
  qed
next
  case (Message now m)
  then show ?thesis using Message_inv [OF inv, of m now] ok by auto
next
  case Connect
  then show ?thesis using inv by (auto simp: ConnectCallback_def)
next
  case Disconnect
  then show ?thesis using DisconnectCallback_inv [OF inv] by auto
next
  case (Tick now)
  then show ?thesis using ConnectionChecker_inv [OF inv, of now] by auto
qed

subsection \<open>Loading and reachable states\<close>

definition image_loaded :: "fm_state \<Rightarrow> bool" where
  "image_loaded s \<longleftrightarrow>
     blocks s = Map.empty \<and> \<not> pFilter s \<and> \<not> pServerPort s \<and> \<not> pClientPort s \<and>
     \<not> connectionCheckerTimer s \<and> Buffer (logDirectory s) = None"

text \<open>The load succeeds exactly when the four services do.\<close>

lemma DriverEntry_success_iff:
  "fst (DriverEntry env now s) = STATUS_SUCCESS \<and> bReady (snd (DriverEntry env now s)) \<longleftrightarrow>
     NT_SUCCESS (register_filter env) \<and> NT_SUCCESS (build_descriptor env) \<and>
     NT_SUCCESS (create_port env) \<and> NT_SUCCESS (start_filtering env)"
  by (auto simp: DriverEntry_def Let_def)

lemma DriverEntry_inv:
  assumes img: "image_loaded s" and run: "DriverEntry env now s = (st, s')" and ready: "bReady s'"
  shows "fm_inv strict s' {} [] \<and> lastContactTime s' = now \<and> granted s' = granted s \<and>
    connectionCheckerTimer s' \<and> pFilter s' \<and> pServerPort s' \<and> st = STATUS_SUCCESS"
proof -
  have "s' = (UpdateLastContactTime now (s\<lparr>bReady := False, bCollectDeletedFiles := False,
      lQueuedFileEvents := [], pFilter := True, pServerPort := True\<rparr>))
      \<lparr>connectionCheckerTimer := True, bReady := True,
       logDirectory := (logDirectory s)\<lparr>Length := 0, Buffer := None\<rparr>\<rparr> \<and> st = STATUS_SUCCESS"
    using run ready by (auto simp: DriverEntry_def Let_def split: if_splits)
  then show ?thesis
    using img
    by (simp add: UpdateLastContactTime_def fm_inv_def pool_wf_def log_buffer_ok_def image_loaded_def)
qed

inductive fm_reachable :: "bool \<Rightarrow> fm_state \<Rightarrow> addr set \<Rightarrow> bool" for strict where
  load: "image_loaded s \<Longrightarrow> DriverEntry env now s = (st, s') \<Longrightarrow> bReady s' \<Longrightarrow>
     fm_reachable strict s' {}"
| call: "fm_reachable strict s C \<Longrightarrow> fm_allowed strict i s C \<Longrightarrow> fm_exec i s C = Inr (s', C') \<Longrightarrow>
     fm_reachable strict s' C'"

inductive_cases fm_reachable_cases: "fm_reachable strict s C"

lemma fm_reachable_inv: "fm_reachable strict s C \<Longrightarrow> \<exists>es. fm_inv strict s C es"
proof (induction rule: fm_reachable.induct)
  case (load s env now st s')
  then show ?case using DriverEntry_inv by blast
next
  case (call s C i s' C')
  then obtain es where "fm_inv strict s C es" by blast
  from fm_exec_inv [OF this call.hyps(2)] call.hyps(3) show ?case by auto
qed

subsection \<open>The driver as a polled driver\<close>

text \<open>\<open>poll_file now n\<close>: a message for events with a buffer of \<open>n\<close> bytes, as the client sends it.\<close>

definition poll_message :: "nat \<Rightarrow> fm_message" where
  "poll_message n = \<lparr>InputBuffer = Some (le32 0), input_fault = None, OutputBuffer = replicate n 0\<rparr>"

definition poll_file :: "u32 \<Rightarrow> nat \<Rightarrow> fm_state \<Rightarrow> bugcheck + (u8 list \<times> fm_state)" where
  "poll_file now n s =
     and_then (MessageCallback now (poll_message n) s) (\<lambda>(st, out, m, s'). Inr (out, s'))"

definition holds_file_events :: "fm_state \<Rightarrow> file_event list \<Rightarrow> bool" where
  "holds_file_events s es \<longleftrightarrow> (\<exists>C. fm_inv False s C es)"

abbreviation file_weight :: "file_event \<Rightarrow> nat" where
  "file_weight e \<equiv> unat (file_event_size e)"

lemma u32_at_le32_0: "u32_at (le32 w) 0 = w"
  using u32_at_le32 [of "[]" w "[]"] by simp

lemma MessageCallback_poll:
  assumes inv: "fm_inv strict s C es" and n: "n < 2 ^ 32" and d: "drain_events file_weight n es = (d, r)"
  shows "\<exists>s'. MessageCallback now (poll_message n) s = Inr (STATUS_SUCCESS,
      concat (map file_event_bytes d), Some (of_nat (sum_list (map file_weight d))), s') \<and>
    fm_inv strict s' C r \<and> lastContactTime s' = now"
proof -
  have "unat (of_nat n :: u32) = n" using n by (rule unat_of_nat_small32)
  then obtain s' where "get_file_events now (of_nat n) s = Inr (concat (map file_event_bytes d),
      of_nat (sum_list (map file_weight d)), s')" "fm_inv strict s' C r" "lastContactTime s' = now"
    using get_file_events_inv [OF inv, of "of_nat n" d r now] d by auto
  then show ?thesis
    by (simp add: MessageCallback_def poll_message_def filemonitor_command_of_def u32_at_le32_0)
qed

interpretation filemon: polled_driver "drain_events file_weight" file_weight
  holds_file_events "poll_file now" file_event_bytes "\<lambda>n. n < 2 ^ 32" for now
proof unfold_locales
  fix s q n d r
  assume h: "holds_file_events s q" and n: "n < (2 :: nat) ^ 32"
    and d: "drain_events file_weight n q = (d, r)"
  obtain C where inv: "fm_inv False s C q" using h by (auto simp: holds_file_events_def)
  obtain s' where "MessageCallback now (poll_message n) s = Inr (STATUS_SUCCESS,
      concat (map file_event_bytes d), Some (of_nat (sum_list (map file_weight d))), s')"
    and "fm_inv False s' C r"
    using MessageCallback_poll [OF inv n d] by blast
  then show "\<exists>s'. poll_file now n s = Inr (concat (map file_event_bytes d), s') \<and>
      holds_file_events s' r"
    by (auto simp: holds_file_events_def poll_file_def)
next
  fix s q e
  assume "holds_file_events s q" and "e \<in> set q"
  then show "length (file_event_bytes e) = file_weight e"
    using file_event_size_bytes by (auto simp: holds_file_events_def dest: fm_invD(3))
qed

text \<open>Dropping the strict reading.\<close>

lemma fm_inv_weaken: "fm_inv strict s C es \<Longrightarrow> fm_inv False s C es"
  by (simp add: fm_inv_def)

subsection \<open>The log directory a setup message installs\<close>

lemma us_wf_nt_prefix: "us_wf nt_prefix" "Chars nt_prefix = [BACKSLASH, 0x3F, 0x3F, BACKSLASH]"
    "unat (MaximumLength nt_prefix) = 10"
  by (simp_all add: nt_prefix_def RtlInitUnicodeString_def us_wf_def us_valid_def)

text \<open>
  With the size the client sends (twice the number of characters) the buffer holds the
  prefix and the whole directory.
\<close>

lemma set_log_directory_result:
  assumes inv: "fm_inv strict s C es" and all: "\<forall>n. granted s n"
    and dir: "takeWhile (\<lambda>c. c \<noteq> 0) (wszLogDirectory m) = dir" and zt: "0 \<in> set (wszLogDirectory m)"
    and size: "nLogDirectorySize m = of_nat (2 * length dir)" and len: "length dir \<le> 1024"
  shows "\<exists>s'. set_log_directory m s = Inr s' \<and> bCollectDeletedFiles s' = fs_collect m \<and>
    us_wf (logDirectory s') \<and> Chars (logDirectory s') = Chars nt_prefix @ dir"
proof -
  obtain s1 where s1: "free_log_directory s = Inr s1" and g1: "granted s1 = granted s"
    using free_log_directory_inv [OF inv] by blast
  let ?z = "MaximumLength nt_prefix + ucast (nLogDirectorySize m) + 2 :: u16"
  have u: "unat (ucast (nLogDirectorySize m) :: u16) = 2 * length dir"
  proof -
    have "unat (of_nat (2 * length dir) :: u32) = 2 * length dir"
      by (rule unat_of_nat_small32) (use len in simp)
    moreover have "take_bit 16 (2 * length dir) = 2 * length dir"
      by (rule take_bit_nat_eq_self) (use len in simp)
    ultimately show ?thesis unfolding size by (simp add: unsigned_ucast_eq del: of_nat_mult)
  qed
  have z: "unat ?z = 2 * length dir + 12"
    using unat_u16_sum [of "MaximumLength nt_prefix" "ucast (nLogDirectorySize m)" 2]
      us_wf_nt_prefix(3) u len by simp
  obtain b s2 where al: "ExAllocatePoolWithTag (Raw (unat ?z + 8 + 2)) s1 = (Some b, s2)"
    using granted_alloc [of s1 "Raw (unat ?z + 8 + 2)"] all g1 by (metis (no_types))
  let ?d0 = "RtlUnicodeStringCat (empty_string ?z (Some b)) nt_prefix"
  let ?d1 = "RtlUnicodeStringCatString ?d0 dir"
  have e0: "us_wf (empty_string ?z (Some b))" by (rule us_wf_empty_string) (use z len in auto)
  have cap: "us_capacity (empty_string ?z (Some b)) = length dir + 6"
    by (simp only: us_capacity_def unicode_string.simps z)
  have d0: "us_wf ?d0" "Chars ?d0 = Chars nt_prefix"
    using Cat_step [OF e0 us_wf_nt_prefix(1)] cap us_wf_nt_prefix(2) e0 by simp_all
  have "Chars ?d1 = Chars ?d0 @ dir"
    by (rule Chars_CatString_fits) (use d0 cap us_wf_nt_prefix(2) in auto)
  moreover have "us_wf ?d1" using d0(1) by blast
  ultimately show ?thesis
    using s1 al zt d0(2) by (simp add: set_log_directory_def Let_def dir)
qed

text \<open>A setup message, as the client sends it.\<close>

definition setup_message :: "u8 list \<Rightarrow> fm_message" where
  "setup_message ob = \<lparr>InputBuffer = Some (le32 1), input_fault = None, OutputBuffer = ob\<rparr>"

lemma MessageCallback_setup:
  "MessageCallback now (setup_message ob) s =
     and_then (setup_monitor ob s) (\<lambda>s1. Inr (STATUS_INVALID_PARAMETER, [], None, s1))"
  by (simp add: MessageCallback_def setup_message_def filemonitor_command_of_def u32_at_le32_0)

text \<open>When the buffer is refused, the old flag stays and the directory has no buffer.\<close>

lemma set_log_directory_refused:
  assumes inv: "fm_inv strict s C es" and no: "\<forall>n. \<not> granted s n"
  shows "\<exists>s'. set_log_directory m s = Inr s' \<and> Buffer (logDirectory s') = None \<and>
    bCollectDeletedFiles s' = bCollectDeletedFiles s"
proof -
  obtain s1 where s1: "free_log_directory s = Inr s1" "Buffer (logDirectory s1) = None"
    "granted s1 = granted s" "bCollectDeletedFiles s1 = bCollectDeletedFiles s"
    using free_log_directory_inv [OF inv] by blast
  then show ?thesis using no
    by (simp add: set_log_directory_def Let_def alloc_refused)
qed

subsection \<open>Calls that bring the machine down\<close>

text \<open>The branch of the second name query hands the deletion routine an unset pointer.\<close>

lemma PreFileOperationCallback_wild:
  assumes "wild_pointer_request rq" and "\<not> rq_fs_filter rq" and "granted s (ticks s)"
  shows "PreFileOperationCallback rq now st info s = Inl WILD_POINTER"
  using assms
  by (auto simp: PreFileOperationCallback_def alloc_granted find_path_def name_from_query_def
      CopyFileIfBeingDeleted_def wild_pointer_request_def)

text \<open>The allocation in the fallback search is used without a check.\<close>

lemma and_then_bad_free:
  "\<exists>b. and_then x (\<lambda>eq. and_then (y eq) (\<lambda>(f, p, s2).
     and_then (ExFreePoolWithTag None s2) (\<lambda>s3. Inr (f, p, s3)))) = Inl b"
proof (cases x)
  case (Inr eq)
  then show ?thesis by (cases "y eq") auto
qed simp

lemma name_from_file_object_unchecked:
  assumes "\<not> granted s (ticks s)"
  shows "\<exists>b. name_from_file_object rq fo path s = Inl b"
  unfolding name_from_file_object_def Let_def alloc_refused [OF assms] prod.case
  by (rule and_then_bad_free)

lemma PreFileOperationCallback_unchecked:
  assumes "\<not> rq_fs_filter rq" and "granted s (ticks s)" and "\<not> granted s (Suc (ticks s))"
    and "rq_file_object rq = Some fo" and "rq_normalized rq = None" and "rq_opened rq = None"
    and "\<not> fo_hasRelated fo" and "0 < Length (fo_FileName fo)"
  shows "\<exists>b. PreFileOperationCallback rq now st info s = Inl b"
proof -
  let ?s1 = "s\<lparr>ticks := Suc (ticks s), blocks := (blocks s)(ticks s \<mapsto> Raw 65534)\<rparr>"
  let ?p = "empty_string 65534 (Some (ticks s))"
  have "\<not> granted ?s1 (ticks ?s1)" using assms(3) by simp
  then obtain b where "name_from_file_object rq fo ?p ?s1 = Inl b"
    using name_from_file_object_unchecked by blast
  then have "find_path rq ?p ?s1 = Inl b"
    using assms(4-8) by (simp add: find_path_def name_from_query_def)
  then show ?thesis using assms(1,2) by (simp add: PreFileOperationCallback_def alloc_granted)
qed

text \<open>An event is handed on only for operations whose post-operation callback is registered.\<close>

lemma PreFileOperationCallback_registered:
  assumes "PreFileOperationCallback rq now st info s = Inr (FLT_PREOP_SUCCESS_WITH_CALLBACK ev, s')"
  shows "post_registered (rq_major rq)"
proof (rule ccontr)
  assume "\<not> post_registered (rq_major rq)"
  then have sd: "rq_major rq = IRP_MJ_SHUTDOWN" by (simp add: post_registered_iff)
  obtain r s1 where al: "ExAllocatePoolWithTag (Raw 65534) s = (r, s1)"
    by (cases "ExAllocatePoolWithTag (Raw 65534) s")
  obtain b where b: "r = Some b" "\<not> rq_fs_filter rq"
    using assms al by (cases r) (auto simp: PreFileOperationCallback_def split: if_splits)
  obtain path s2 where p: "find_path rq (empty_string 65534 (Some b)) s1 = Inr (path, s2)"
    using assms al b by (auto simp: PreFileOperationCallback_def and_then_Inr_iff)
  obtain r3 s3 where al3: "ExAllocatePoolWithTag (Event (rq_garbage rq)) s2 = (r3, s3)"
    by (cases "ExAllocatePoolWithTag (Event (rq_garbage rq)) s2")
  show False
    using assms al b p al3 sd
    by (cases r3) (auto simp: PreFileOperationCallback_def and_then_Inr_iff
      simp del: ExFreePoolWithTag.simps)
qed

end
