(* ===== verification/FilePathSearch.thy ===== *)
theory FilePathSearch
  imports FileMonitorSystem
begin

text \<open>
  Which path the file driver reports: the normalized or the opened name when a query gives
  one, the name in the file object (behind the volume name if it is not complete) when none
  does, and a fixed text when there is nothing to go by.
\<close>

abbreviation path_buffer :: "addr \<Rightarrow> unicode_string" where
  "path_buffer b \<equiv> empty_string 65534 (Some b)"

lemma path_buffer: "us_wf (path_buffer b)" "us_capacity (path_buffer b) = 32767"
  by (rule us_wf_empty_string) (simp_all add: us_capacity_def)

lemma Copy_to_path_buffer:
  assumes "us_wf name"
  shows "Chars (RtlUnicodeStringCopy (path_buffer b) name) = Chars name"
  by (rule Chars_Copy_fits)
     (use assms path_buffer us_wf_fits [OF assms] us_capacity_le [of name] in auto)

text \<open>The name a query gives is the path, whole.\<close>

lemma find_path_named:
  assumes "rq_file_object rq = Some fo" and "\<not> being_deleted rq"
    and "rq_normalized rq = Some info \<or> rq_normalized rq = None \<and> rq_opened rq = Some info"
    and "us_wf (fni_Name info)" and "Chars (fni_Name info) \<noteq> []"
    and "find_path rq (path_buffer b) s = Inr (path, s')"
  shows "Chars path = Chars (fni_Name info)"
proof -
  have "0 < Length (fni_Name info)" using us_wf_nonempty [OF assms(4)] assms(5) by simp
  then have "name_from_query rq (path_buffer b) s =
      Inr (True, RtlUnicodeStringCopy (path_buffer b) (fni_Name info), s)"
    using assms(1-3) by (auto simp: name_from_query_def CopyFileIfBeingDeleted_def)
  then have "find_path rq (path_buffer b) s =
      Inr (RtlUnicodeStringCopy (path_buffer b) (fni_Name info), s)"
    using assms(1) by (simp add: find_path_def)
  then show ?thesis using assms(6) Copy_to_path_buffer [OF assms(4)] by auto
qed

text \<open>Nothing to go by: no file object, or one that is relative or has no name.\<close>

lemma find_path_unknown:
  assumes "rq_file_object rq = None \<or>
      (\<exists>fo. rq_file_object rq = Some fo \<and> rq_normalized rq = None \<and> rq_opened rq = None \<and>
         (fo_hasRelated fo \<or> Length (fo_FileName fo) = 0))"
    and "find_path rq (path_buffer b) s = Inr (path, s')"
  shows "Chars path = wide ''UNKNOWN''"
proof -
  have "find_path rq (path_buffer b) s =
      Inr (RtlUnicodeStringCatString (path_buffer b) (wide ''UNKNOWN''), s)"
    using assms(1) by (auto simp: find_path_def name_from_query_def)
  moreover have "Chars (RtlUnicodeStringCatString (path_buffer b) (wide ''UNKNOWN'')) =
      wide ''UNKNOWN''"
    using Chars_CatString_fits [of "path_buffer b" "wide ''UNKNOWN''"] path_buffer by simp
  ultimately show ?thesis using assms(2) by simp
qed

subsection \<open>The name in the file object\<close>

text \<open>Whether a name starts with \<open>\Device\<close>, case folded.\<close>

definition is_device_name :: "(wchar \<Rightarrow> wchar) \<Rightarrow> wstring \<Rightarrow> bool" where
  "is_device_name upcase cs \<longleftrightarrow>
     map upcase (BACKSLASH # wide ''Device'') = map upcase (take 7 cs)"

lemma device_prefix_parts:
  "unat (Length device_prefix) = 14" "Length device_prefix \<noteq> 0" "Buffer device_prefix = Some 0"
  "Chars device_prefix = BACKSLASH # wide ''Device''"
  by (simp_all add: device_prefix_def RtlInitUnicodeString_def wide_def)

lemma device_test:
  fixes d :: addr
  defines "dev0 n cs \<equiv> \<lparr>Length = Length n, MaximumLength = MaximumLength n, Buffer = Some d, Chars = cs\<rparr>"
  assumes n: "us_wf name"
  shows "RtlEqualUnicodeString up device_prefix
     (if Length name \<ge> Length device_prefix
      then RtlUnicodeStringCchCopyN (dev0 name cs) name 7 else dev0 name cs)
    = Inr (is_device_name up (Chars name))"
proof -
  have len: "unat (Length name) = 2 * length (Chars name)" using us_wf_length [OF n] .
  have cap: "length (Chars name) \<le> us_capacity name" using us_wf_fits [OF n] .
  have val: "us_valid (dev0 name cs)" using us_wf_valid [OF n] by (auto simp: us_valid_def dev0_def)
  have capd: "us_capacity (dev0 name cs) = us_capacity name" by (simp add: us_capacity_def dev0_def)
  show ?thesis
  proof (cases "Length name \<ge> Length device_prefix")
    case True
    then have long: "7 \<le> length (Chars name)"
      using device_prefix_parts(1) len by (simp add: word_le_nat_alt)
    let ?dev = "RtlUnicodeStringCchCopyN (dev0 name cs) name 7"
    have dev: "?dev = us_set (take 7 (Chars name)) (dev0 name cs)"
      using val us_wf_valid [OF n] long cap
      by (simp add: RtlUnicodeStringCchCopyN_def capd min_def)
    have "unat (Length ?dev) = 14"
      using unat_us_set_Length [of "take 7 (Chars name)" "dev0 name cs"] long cap
      by (simp add: dev capd)
    then have "Length ?dev = Length device_prefix"
      using device_prefix_parts(1) by (metis word_unat_eq_iff)
    moreover have "Chars ?dev = take 7 (Chars name)" and "Buffer ?dev = Some d"
      unfolding dev by (simp_all add: dev0_def)
    ultimately have "RtlEqualUnicodeString up device_prefix ?dev = Inr (is_device_name up (Chars name))"
      using device_prefix_parts(2-4) by (simp only: RtlEqualUnicodeString_def is_device_name_def) simp
    then show ?thesis using True by simp
  next
    case False
    then have "length (Chars name) < 7"
      using device_prefix_parts(1) len by (simp add: word_le_nat_alt)
    then have "\<not> is_device_name up (Chars name)"
      by (auto simp: is_device_name_def wide_def dest!: arg_cong [of _ _ length])
    moreover have "Length device_prefix \<noteq> Length (dev0 name cs)" using False by (auto simp: dev0_def)
    ultimately show ?thesis using False by (simp add: RtlEqualUnicodeString_def)
  qed
qed

text \<open>
  A complete name is the path; any other is put behind the name of its volume, if the two
  fit (the length of the volume name is what the first of the two calls said).
\<close>

lemma name_from_volume_chars:
  assumes n: "us_wf (fo_FileName fo)" and v: "rq_volume rq = (STATUS_BUFFER_TOO_SMALL, of_nat (2 * length vol))"
    "rq_volume_again rq = (STATUS_SUCCESS, vol)"
    and fit: "unat (MaximumLength (fo_FileName fo)) + 2 * length vol + 2 \<le> 65534"
    and all: "\<forall>n. granted s n"
    and run: "name_from_volume rq fo (path_buffer b) s = Inr (found, path, s')"
  shows "found \<and> Chars path = vol @ Chars (fo_FileName fo)"
proof -
  let ?n = "fo_FileName fo"
  let ?m = "MaximumLength ?n + 2 + ucast (of_nat (2 * length vol) :: u32) :: u16"
  have "unat (of_nat (2 * length vol) :: u32) = 2 * length vol"
    by (rule unat_of_nat_small32) (use fit in simp)
  moreover have "take_bit 16 (2 * length vol) = 2 * length vol"
    by (rule take_bit_nat_eq_self) (use fit in simp)
  ultimately have u: "unat (ucast (of_nat (2 * length vol) :: u32) :: u16) = 2 * length vol"
    by (simp add: unsigned_ucast_eq del: of_nat_mult)
  have m: "unat ?m = unat (MaximumLength ?n) + 2 + 2 * length vol"
    using unat_u16_sum [of "MaximumLength ?n" 2 "ucast (of_nat (2 * length vol) :: u32)"] fit
    unfolding u by simp
  note mx = us_wf_max [OF n]
  obtain d s1 where al: "ExAllocatePoolWithTag (Raw (unat ?m)) s = (Some d, s1)"
    using granted_alloc [OF all] by blast
  let ?t = "us_set vol (empty_string ?m (Some d))"
  have e: "us_wf (empty_string ?m (Some d))"
    by (rule us_wf_empty_string) (use m mx fit in auto)
  have cap: "us_capacity (empty_string ?m (Some d)) = unat (MaximumLength ?n) div 2 + 1 + length vol"
    using m mx by (simp only: us_capacity_def unicode_string.simps)
  have t: "us_wf ?t" by (rule us_wf_set) (use e cap in auto)
  have fits: "length (Chars ?n) \<le> unat (MaximumLength ?n) div 2" using mx by linarith
  have c: "Chars (RtlUnicodeStringCat ?t ?n) = vol @ Chars ?n" "us_wf (RtlUnicodeStringCat ?t ?n)"
    using Cat_step [OF t n] fits cap by simp_all
  obtain s2 where "path = RtlUnicodeStringCopy (path_buffer b) (RtlUnicodeStringCat ?t ?n)" "found"
    using run v al
    by (auto simp: name_from_volume_def Let_def and_then_Inr_iff simp del: of_nat_mult)
  with Copy_to_path_buffer [OF c(2)] c(1) show ?thesis by simp
qed

lemma name_from_file_object_chars:
  assumes n: "us_wf (fo_FileName fo)" and all: "\<forall>n. granted s n" and wf: "pool_wf s"
    and v: "rq_volume rq = (STATUS_BUFFER_TOO_SMALL, of_nat (2 * length vol))"
      "rq_volume_again rq = (STATUS_SUCCESS, vol)"
    and fit: "unat (MaximumLength (fo_FileName fo)) + 2 * length vol + 2 \<le> 65534"
    and run: "name_from_file_object rq fo (path_buffer b) s = Inr (found, path, s')"
  shows "found \<and> Chars path = (if is_device_name (rq_upcase rq) (Chars (fo_FileName fo))
    then Chars (fo_FileName fo) else vol @ Chars (fo_FileName fo))"
proof -
  let ?n = "fo_FileName fo"
  obtain s1 where al: "ExAllocatePoolWithTag (Raw (unat (MaximumLength ?n))) s = (Some (ticks s), s1)"
    using granted_alloc [OF all] by blast
  have ext: "io_extends s {ticks s} s1"
    using io_extends_alloc(1) [OF io_extends_refl al wf] by simp
  have g1: "\<forall>n. granted s1 n" using all io_extends_granted [OF ext] by simp
  let ?eq = "is_device_name (rq_upcase rq) (Chars ?n)"
  obtain s2 where inner: "(if ?eq then Inr (True, RtlUnicodeStringCopy (path_buffer b) ?n, s1)
      else name_from_volume rq fo (path_buffer b) s1) = Inr (found, path, s2)"
    using run al device_test [OF n, where d = "ticks s"]
    by (auto simp: name_from_file_object_def Let_def and_then_Inr_iff)
  show ?thesis
  proof (cases ?eq)
    case True
    then show ?thesis using inner Copy_to_path_buffer [OF n] by auto
  next
    case False
    then show ?thesis using inner name_from_volume_chars [OF n v fit g1] by auto
  qed
qed

lemma find_path_file_object:
  assumes fo: "rq_file_object rq = Some fo" "rq_normalized rq = None" "rq_opened rq = None"
      "\<not> fo_hasRelated fo" "Chars (fo_FileName fo) \<noteq> []"
    and n: "us_wf (fo_FileName fo)" and all: "\<forall>n. granted s n" and wf: "pool_wf s"
    and v: "rq_volume rq = (STATUS_BUFFER_TOO_SMALL, of_nat (2 * length vol))"
      "rq_volume_again rq = (STATUS_SUCCESS, vol)"
    and fit: "unat (MaximumLength (fo_FileName fo)) + 2 * length vol + 2 \<le> 65534"
    and run: "find_path rq (path_buffer b) s = Inr (path, s')"
  shows "Chars path = (if is_device_name (rq_upcase rq) (Chars (fo_FileName fo))
    then Chars (fo_FileName fo) else vol @ Chars (fo_FileName fo))"
proof -
  have "0 < Length (fo_FileName fo)" using us_wf_nonempty [OF n] fo(5) by simp
  moreover have "name_from_query rq (path_buffer b) s = Inr (False, path_buffer b, s)"
    using fo by (simp add: name_from_query_def)
  ultimately obtain found p2 s2
    where r: "name_from_file_object rq fo (path_buffer b) s = Inr (found, p2, s2)"
      and p: "path = (if found then p2 else RtlUnicodeStringCatString p2 (wide ''UNKNOWN''))"
    using run fo by (auto simp: find_path_def and_then_Inr_iff)
  from name_from_file_object_chars [OF n all wf v fit r] p show ?thesis by simp
qed

subsection \<open>The event of a request\<close>

text \<open>
  With every allocation served a request that is not the shutdown leaves one new pending
  event, made from the path that was found.
\<close>

lemma PreFileOperationCallback_new_event:
  assumes inv: "fm_inv strict s C es" and all: "\<forall>n. granted s n" and fs: "\<not> rq_fs_filter rq"
    and sd: "rq_major rq \<noteq> IRP_MJ_SHUTDOWN" and ok: "request_ok (granted s) rq"
  obtains s' ev path where
    "PreFileOperationCallback rq now st info s = Inr (FLT_PREOP_SUCCESS_WITH_CALLBACK ev, s')"
    "ev \<notin> C" "us_wf path" "fm_inv strict s' (insert ev C) es"
    "blocks s' ev = Some (Event (new_file_event rq path))" "path_found rq s path"
proof -
  have "strict \<longrightarrow> leak_free (granted s) rq" using all by (simp add: leak_free_def)
  from PreFileOperationCallback_event [OF inv ok this fs, of now st info] all sd that
  show ?thesis by auto
qed

lemma new_file_event_fields:
  assumes "us_wf path"
  shows "majorFileEventType (new_file_event rq path) = major_type rq"
    "minorFileEventType (new_file_event rq path) = rq_minor rq"
    "fe_processId (new_file_event rq path) =
       (case rq_thread rq of Some p \<Rightarrow> p | None \<Rightarrow> rq_current_pid rq)"
    "fe_time (new_file_event rq path) = rq_time rq"
    "filePath (new_file_event rq path) = Chars path @ [0]"
  using new_file_event_path [OF assms] by (simp_all add: new_file_event_def Let_def)

text \<open>What the event of a request says, given the path.\<close>

definition describes :: "file_event \<Rightarrow> file_request \<Rightarrow> wstring \<Rightarrow> bool" where
  "describes e rq path \<longleftrightarrow>
     filePath e = path @ [0] \<and> majorFileEventType e = major_type rq \<and>
     minorFileEventType e = rq_minor rq \<and> fe_time e = rq_time rq \<and>
     fe_processId e = (case rq_thread rq of Some p \<Rightarrow> p | None \<Rightarrow> rq_current_pid rq)"

lemma describes_new: "us_wf path \<Longrightarrow> describes (new_file_event rq path) rq (Chars path)"
  by (simp add: describes_def new_file_event_fields)

end
