(* ===== verification/FileClaims.thy ===== *)
theory FileClaims
  imports FilePathSearch
begin

text \<open>The properties of the file driver, with sample states and requests to apply them to.\<close>

subsection \<open>Sample states\<close>

text \<open>A freshly loaded image in a system that serves every allocation, and the loaded driver.\<close>

definition image0 :: fm_state where
  "image0 = \<lparr>granted = \<lambda>n. True, ticks = 0, blocks = Map.empty, files = [], handles = 0,
     bReady = False, bCollectDeletedFiles = False, lQueuedFileEvents = [],
     logDirectory = \<lparr>Length = 0, MaximumLength = 0, Buffer = None, Chars = []\<rparr>,
     lastContactTime = 0, pFilter = False, pServerPort = False, pClientPort = False,
     connectionCheckerTimer = False\<rparr>"

definition loaded0 :: fm_state where
  "loaded0 = snd (DriverEntry \<lparr>register_filter = 0, build_descriptor = 0, create_port = 0,
     start_filtering = 0\<rparr> 100 image0)"


lemma loaded0_inv: "fm_inv strict loaded0 {} []"
  using DriverEntry_inv [of image0 "\<lparr>register_filter = 0, build_descriptor = 0,
    create_port = 0, start_filtering = 0\<rparr>" 100 0 loaded0]
  by (simp add: image_loaded_def image0_def loaded0_def DriverEntry_def Let_def
      UpdateLastContactTime_def)

subsection \<open>The file driver\<close>





text \<open>A pending context and a queued event.\<close>

definition event0 :: file_event where
  "event0 = \<lparr>majorFileEventType = 4, minorFileEventType = 0, fe_status = 0, fe_information = 0,
     fe_flags = 0, fe_time = \<lparr>Year = 2009, Month = 1, Day = 2, Hour = 3, Minute = 4, Second = 5,
     Milliseconds = 6, Weekday = 5\<rparr>, fe_processId = 17, filePathLength = 8,
     filePath = [BACKSLASH, 0x61, 0x62, 0]\<rparr>"

definition pending0 :: fm_state where
  "pending0 = loaded0\<lparr>ticks := 1, blocks := [0 \<mapsto> Event event0]\<rparr>"

definition queued0 :: fm_state where
  "queued0 = loaded0\<lparr>ticks := 2, blocks := [0 \<mapsto> Event event0, 1 \<mapsto> Packet 0],
     lQueuedFileEvents := [1]\<rparr>"

lemma loaded0_fields [simp]:
  "granted loaded0 n" "lastContactTime loaded0 = 100" "lQueuedFileEvents loaded0 = []"
  "Buffer (logDirectory loaded0) = None" "bReady loaded0" "blocks loaded0 = Map.empty"
  by (simp_all add: loaded0_def image0_def DriverEntry_def Let_def UpdateLastContactTime_def)

lemma event0_wf [simp]: "file_event_wf event0"
  by (simp add: file_event_wf_def event0_def)

lemma pending0_inv: "fm_inv strict pending0 {0} []"
  by (simp add: fm_inv_def pending0_def pool_wf_def context_ok_def log_buffer_ok_def owned_def)

lemma queued0_inv: "fm_inv strict queued0 {} [event0]"
  by (auto simp: fm_inv_def queued0_def pool_wf_def log_buffer_ok_def owned_def footprint_Cons
      packet_event_def)

text \<open>
  C14. Completion. When the post-operation callback is given a pending event, the event is
  appended to the queue, with the status and the information of the completed operation,
  exactly when user space asked for events in the last ten seconds and the packet could be
  allocated; otherwise it is freed and the queue is as before. The context is no longer
  pending.
\<close>

theorem post_operation_queues:
  assumes "fm_inv strict s C es" and "c \<in> C" and "blocks s c = Some (Event e)"
  shows "\<exists>s'. PostFileOperationCallback now st info False (Some c) s = Inr s' \<and>
    fm_inv strict s' (C - {c})
      (if now - lastContactTime s \<le> 10 \<and> granted s (ticks s)
       then es @ [e\<lparr>fe_status := st, fe_information := info\<rparr>] else es)"
  using PostFileOperationCallback_inv [OF assms, of now st info]
  unfolding completed_def USERSPACE_CONNECTION_TIMEOUT_def by blast

theorem post_operation_queues_witness:
  "\<exists>s'. PostFileOperationCallback 105 0 1 False (Some 0) pending0 = Inr s' \<and>
    fm_inv True s' ({0} - {0})
      (if (105 :: u32) - lastContactTime pending0 \<le> 10 \<and> granted pending0 (ticks pending0)
       then [] @ [event0\<lparr>fe_status := 0, fe_information := 1\<rparr>] else [])"
  by (rule post_operation_queues [OF pending0_inv]) (simp_all add: pending0_def)

text \<open>
  C3. A request for events. The driver answers with success, writes the bytes of the longest
  prefix of the queue that fits the caller's buffer, in order and nothing else, returns their
  length, keeps the rest of the queue, and remembers the time of the contact.
\<close>

theorem get_file_events_delivers:
  assumes "fm_inv strict s C es" and "n < 2 ^ 32"
    and "drain_events (\<lambda>e. 40 + 2 * length (filePath e)) n es = (d, r)"
  shows "\<exists>s'. MessageCallback now (poll_message n) s = Inr (STATUS_SUCCESS,
      concat (map file_event_bytes d),
      Some (of_nat (length (concat (map file_event_bytes d)))), s') \<and>
    fm_inv strict s' C r \<and> lastContactTime s' = now \<and> es = d @ r \<and>
    length (concat (map file_event_bytes d)) \<le> n"
proof -
  have size: "\<forall>e \<in> set es. file_weight e = 40 + 2 * length (filePath e)"
    using fm_invD(3) [OF assms(1)] file_event_size_bytes by auto
  then have dr: "drain_events file_weight n es = (d, r)"
    using assms(3) drain_events_cong [of es file_weight "\<lambda>e. 40 + 2 * length (filePath e)" n] by simp
  have es: "es = d @ r" using drain_events_split [OF dr] .
  have len: "length (concat (map file_event_bytes d)) = sum_list (map file_weight d)"
    using size unfolding es by (induction d) auto
  with drain_events_fits [OF dr] MessageCallback_poll [OF assms(1,2) dr, of now] es
  show ?thesis by auto
qed

theorem get_file_events_delivers_witness:
  "\<exists>s'. MessageCallback 120 (poll_message 100) queued0 = Inr (STATUS_SUCCESS,
      concat (map file_event_bytes [event0]),
      Some (of_nat (length (concat (map file_event_bytes [event0])))), s') \<and>
    fm_inv True s' {} [] \<and> lastContactTime s' = 120 \<and> [event0] = [event0] @ [] \<and>
    length (concat (map file_event_bytes [event0])) \<le> 100"
  by (rule get_file_events_delivers [OF queued0_inv]) (simp_all add: event0_def)

text \<open>
  C16. Nothing is lost, reordered or delivered twice, and nothing blocks: a client that polls
  \<open>m\<close> times with its buffer of 327680 bytes gets every one of at most \<open>m\<close> queued events, in
  the order they were queued, and the queue is empty afterwards.
\<close>

theorem filemon_session_complete:
  assumes "fm_inv strict s C es" and "length es \<le> m"
  shows "\<exists>bss s'. poll_session (poll_file now) (replicate m (5 * 65536)) s = Inr (bss, s') \<and>
    concat bss = concat (map file_event_bytes es) \<and> (\<exists>C'. fm_inv False s' C' [])"
proof -
  have holds: "holds_file_events s es"
    using fm_inv_weaken [OF assms(1)] by (auto simp: holds_file_events_def)
  have "\<forall>e \<in> set es. file_weight e \<le> 5 * 65536"
    using fm_invD(3) [OF assms(1)] unat_file_event_size by (fastforce simp: file_event_wf_def)
  from filemon.poll_session_complete [OF holds _ assms(2) this] show ?thesis
    by (simp add: holds_file_events_def)
qed

theorem filemon_session_complete_witness:
  "\<exists>bss s'. poll_session (poll_file 120) (replicate 3 (5 * 65536)) queued0 = Inr (bss, s') \<and>
    concat bss = concat (map file_event_bytes [event0]) \<and> (\<exists>C'. fm_inv False s' C' [])"
  by (rule filemon_session_complete [OF queued0_inv]) simp

text \<open>
  The watchdog. When nothing was asked for in more than fifteen seconds (the difference
  of the two times is taken modulo \<open>2 ^ 32\<close>) the whole queue is freed; otherwise nothing
  changes.
\<close>

theorem connection_checker_clears:
  assumes "fm_inv strict s C es"
  shows "\<exists>s'. ConnectionChecker now s = Inr s' \<and>
    fm_inv strict s' C (if unat (now - lastContactTime s) > 15 then [] else es)"
proof -
  have "unat (now - lastContactTime s) > 15 \<longleftrightarrow> now - lastContactTime s > 15"
    by (simp add: word_less_nat_alt)
  with ConnectionChecker_inv [OF assms, of now] show ?thesis by auto
qed

theorem connection_checker_clears_witness:
  "\<exists>s'. ConnectionChecker 116 queued0 = Inr s' \<and>
    fm_inv True s' {} (if unat (116 - lastContactTime queued0) > 15 then [] else [event0])"
  by (rule connection_checker_clears [OF queued0_inv])

text \<open>
  C31. Unloading. When the filter manager hands every pending context back (in any order)
  and nothing had leaked, the unload routine leaves no live block of the driver, no filter,
  no port and no timer.
\<close>

theorem filter_unload_frees_all:
  assumes "fm_inv True s (set pending) es" and "distinct pending" and "bReady s"
  shows "\<exists>s'. FilterUnload now pending s = Inr (STATUS_SUCCESS, s') \<and> blocks s' = Map.empty \<and>
    \<not> pFilter s' \<and> \<not> pServerPort s' \<and> \<not> connectionCheckerTimer s'"
  using FilterUnload_inv [OF assms] by auto

theorem filter_unload_frees_all_witness:
  "\<exists>s'. FilterUnload 130 [0] pending0 = Inr (STATUS_SUCCESS, s') \<and> blocks s' = Map.empty \<and>
    \<not> pFilter s' \<and> \<not> pServerPort s' \<and> \<not> connectionCheckerTimer s'"
  by (rule filter_unload_frees_all [of _ _ "[]"])
     (use pending0_inv [of True] in \<open>simp_all add: pending0_def\<close>)

text \<open>
  C15. What a file event says. If a name query gives a name and the file is not one to be
  collected, the pre-operation callback leaves one new pending event whose path is that
  whole name with its terminator, and whose type, time and process are those of the request.
\<close>

theorem pre_operation_named:
  assumes "fm_inv strict s C es" and "\<forall>n. granted s n" and "\<not> rq_fs_filter rq"
    and "rq_major rq \<noteq> IRP_MJ_SHUTDOWN" and "request_ok (granted s) rq"
    and "rq_file_object rq = Some fo" and "\<not> being_deleted rq"
    and "rq_normalized rq = Some name \<or> rq_normalized rq = None \<and> rq_opened rq = Some name"
    and "us_wf (fni_Name name)" and "Chars (fni_Name name) \<noteq> []"
  shows "\<exists>ev s' e. PreFileOperationCallback rq now st info s =
      Inr (FLT_PREOP_SUCCESS_WITH_CALLBACK ev, s') \<and> ev \<notin> C \<and> blocks s' ev = Some (Event e) \<and>
    describes e rq (Chars (fni_Name name)) \<and> fm_inv strict s' (insert ev C) es"
proof (rule PreFileOperationCallback_new_event [OF assms(1-5), of now st info])
  fix s' ev path
  assume r: "PreFileOperationCallback rq now st info s = Inr (FLT_PREOP_SUCCESS_WITH_CALLBACK ev, s')"
    "ev \<notin> C" "us_wf path" "fm_inv strict s' (insert ev C) es"
    "blocks s' ev = Some (Event (new_file_event rq path))" and p: "path_found rq s path"
  have "Chars path = Chars (fni_Name name)"
    using p find_path_named [OF assms(6-10)] by (auto simp: path_found_def)
  with r describes_new [OF r(3), of rq] show ?thesis by auto
qed

text \<open>A request to write to a named file.\<close>

definition str0 :: unicode_string where
  "str0 = \<lparr>Length = 0, MaximumLength = 0, Buffer = None, Chars = []\<rparr>"

definition name0 :: unicode_string where
  "name0 = \<lparr>Length = 6, MaximumLength = 8, Buffer = Some 0, Chars = [BACKSLASH, 0x61, 0x62]\<rparr>"

definition info0 :: file_name_information where
  "info0 = \<lparr>fni_Name = name0, fni_Share = str0, fni_ParentDir = str0, fni_FinalComponent = str0\<rparr>"

definition fs_env0 :: fs_env where
  "fs_env0 = \<lparr>dos_name = None, mkdir_status = \<lambda>p. (0, 0), query_std = (0, 3),
     create_copy = \<lambda>p. 0, ob_reference = 0, content = [1, 2, 3], read_status = \<lambda>n. 0,
     write_status = \<lambda>n. 0\<rparr>"

definition object0 :: file_object where
  "object0 = \<lparr>fo_Flags = 2, fo_hasRelated = False, fo_FileName = name0\<rparr>"

definition request0 :: file_request where
  "request0 = \<lparr>rq_fs_filter = False, rq_major = IRP_MJ_WRITE, rq_minor = 0,
     rq_disposition = False, rq_delete = False, rq_synchronous = True, rq_directory = False,
     rq_parse = 0, rq_file_object = Some object0, rq_thread = Some 17, rq_current_pid = 4,
     rq_normalized = Some info0, rq_opened = None,
     rq_volume = (STATUS_BUFFER_TOO_SMALL, 8), rq_volume_again = (0, [BACKSLASH, 0x44, 0x65, 0x76]),
     rq_upcase = \<lambda>c. c, rq_time = fe_time event0, rq_garbage = event0, rq_fs = fs_env0\<rparr>"

lemma name0_wf [simp]: "us_wf name0" "Chars name0 = [BACKSLASH, 0x61, 0x62]"
  by (simp_all add: name0_def us_wf_def us_valid_def)

lemma request0_ok: "request_ok (granted s) request0" "\<not> being_deleted request0"
  by (simp_all add: request_ok_def request0_def drive_ok_def fs_env0_def query_names_def
      wild_pointer_request_def being_deleted_def info0_def name0_def)

theorem pre_operation_named_witness:
  "\<exists>ev s' e. PreFileOperationCallback request0 101 0 0 loaded0 =
      Inr (FLT_PREOP_SUCCESS_WITH_CALLBACK ev, s') \<and> ev \<notin> {} \<and> blocks s' ev = Some (Event e) \<and>
    describes e request0 (Chars (fni_Name info0)) \<and> fm_inv True s' (insert ev {}) []"
  by (rule pre_operation_named [OF loaded0_inv, of request0 object0])
     (use request0_ok in \<open>simp_all add: request0_def info0_def\<close>)

text \<open>
  The fallback. If no name query succeeds and the file object is not relative, the path
  of the event is the name in the file object, as it is when it starts with \<open>\Device\<close> (case
  folded), and behind the name of its volume otherwise, provided the two fit 65534 bytes.
\<close>

theorem pre_operation_file_object:
  assumes "fm_inv strict s C es" and "\<forall>n. granted s n" and "\<not> rq_fs_filter rq"
    and "rq_major rq \<noteq> IRP_MJ_SHUTDOWN" and "request_ok (granted s) rq"
    and "rq_file_object rq = Some fo" and "rq_normalized rq = None" and "rq_opened rq = None"
    and "\<not> fo_hasRelated fo" and "Chars (fo_FileName fo) \<noteq> []" and "us_wf (fo_FileName fo)"
    and "rq_volume rq = (STATUS_BUFFER_TOO_SMALL, of_nat (2 * length vol))"
    and "rq_volume_again rq = (STATUS_SUCCESS, vol)"
    and "unat (MaximumLength (fo_FileName fo)) + 2 * length vol + 2 \<le> 65534"
  shows "\<exists>ev s' e. PreFileOperationCallback rq now st info s =
      Inr (FLT_PREOP_SUCCESS_WITH_CALLBACK ev, s') \<and> ev \<notin> C \<and> blocks s' ev = Some (Event e) \<and>
    describes e rq (if is_device_name (rq_upcase rq) (Chars (fo_FileName fo))
      then Chars (fo_FileName fo) else vol @ Chars (fo_FileName fo)) \<and>
    fm_inv strict s' (insert ev C) es"
proof (rule PreFileOperationCallback_new_event [OF assms(1-5), of now st info])
  fix s' ev path
  assume r: "PreFileOperationCallback rq now st info s = Inr (FLT_PREOP_SUCCESS_WITH_CALLBACK ev, s')"
    "ev \<notin> C" "us_wf path" "fm_inv strict s' (insert ev C) es"
    "blocks s' ev = Some (Event (new_file_event rq path))" and p: "path_found rq s path"
  obtain b s1 s2 where f: "find_path rq (path_buffer b) s1 = Inr (path, s2)" and
    g: "\<forall>n. granted s1 n" "pool_wf s1"
    using p assms(2) by (auto simp: path_found_def)
  note find_path_file_object [OF assms(6-11) g assms(12-14) f]
  with r describes_new [OF r(3), of rq] show ?thesis by auto
qed

definition request1 :: file_request where
  "request1 = request0\<lparr>rq_normalized := None\<rparr>"

theorem pre_operation_file_object_witness:
  "\<exists>ev s' e. PreFileOperationCallback request1 101 0 0 loaded0 =
      Inr (FLT_PREOP_SUCCESS_WITH_CALLBACK ev, s') \<and> ev \<notin> {} \<and> blocks s' ev = Some (Event e) \<and>
    describes e request1 (if is_device_name (rq_upcase request1) (Chars (fo_FileName object0))
      then Chars (fo_FileName object0)
      else [BACKSLASH, 0x44, 0x65, 0x76] @ Chars (fo_FileName object0)) \<and>
    fm_inv True s' (insert ev {}) []"
proof (rule pre_operation_file_object [OF loaded0_inv])
  show "request_ok (granted loaded0) request1"
    by (simp add: request_ok_def request1_def request0_def drive_ok_def fs_env0_def
        wild_pointer_request_def)
qed (simp_all add: request1_def request0_def object0_def name0_def us_wf_def us_valid_def)

text \<open>
  The pre-operation callback asks for a post-operation callback only for operations
  that have one in the registration table, so every event it hands over comes back.
\<close>

theorem pre_operation_registered:
  assumes "PreFileOperationCallback rq now st info s =
    Inr (FLT_PREOP_SUCCESS_WITH_CALLBACK ev, s')"
  shows "post_registered (rq_major rq) \<and> pre_registered (rq_major rq)"
  using PreFileOperationCallback_registered [OF assms] by simp

theorem pre_operation_registered_witness:
  "\<exists>ev s'. PreFileOperationCallback request0 101 0 0 loaded0 =
      Inr (FLT_PREOP_SUCCESS_WITH_CALLBACK ev, s') \<and>
    post_registered (rq_major request0) \<and> pre_registered (rq_major request0)"
proof (rule PreFileOperationCallback_new_event [OF loaded0_inv, of request0 101 0 0])
  fix s' ev path
  assume r: "PreFileOperationCallback request0 101 0 0 loaded0 =
    Inr (FLT_PREOP_SUCCESS_WITH_CALLBACK ev, s')"
  from r pre_operation_registered [OF r] show ?thesis by blast
qed (use request0_ok in \<open>simp_all add: request0_def\<close>)

text \<open>
  The structure the two sides share: a well-formed event is read back, field by field,
  from the bytes the driver lays out, whatever follows them in the buffer.
\<close>

theorem file_event_round_trip:
  assumes "file_event_wf e"
  shows "file_event_at (file_event_bytes e @ rest) = e \<and>
    length (file_event_bytes e) = unat (file_event_size e)"
  using file_event_at_bytes [OF assms] file_event_size_bytes [OF assms] by simp

theorem file_event_round_trip_witness:
  "file_event_at (file_event_bytes event0 @ [9, 9, 9]) = event0 \<and>
    length (file_event_bytes event0) = unat (file_event_size event0)"
  by (rule file_event_round_trip) simp

subsection \<open>Copies of deleted files\<close>

text \<open>
  C40. Collecting a deleted file. When every service succeeds, the driver creates the
  directories of \<open>\<drive>\<directory>\<close> under the log directory, one for each separator
  and from the top down, then the copy \<open><log directory>\<drive>\<directory>\<file>\<close>, whose
  bytes are in the end those of the file; it frees every block it allocated.
\<close>

theorem collect_deleted_file:
  fixes k :: "('e, 'x) kio_scheme"
  assumes "collectable env name logDir info"
    and "transfers env (Chars logDir @ drive_component name @ Chars (fni_ParentDir info)
      @ Chars (fni_FinalComponent info))"
    and "\<forall>n. granted k n" and "pool_wf k"
  shows "\<exists>(k' :: ('e, 'x) kio_scheme) ops. CollectDeletedFile env logDir info k = Inr k' \<and>
    files k' = files k @
      map (\<lambda>j. MkDir (Chars logDir @
          take j (drive_component name @ Chars (fni_ParentDir info))))
        (separators 0 (drive_component name @ Chars (fni_ParentDir info))) @
      CreateCopy (Chars logDir @ drive_component name @ Chars (fni_ParentDir info)
        @ Chars (fni_FinalComponent info)) (snd (query_std env)) # ops \<and>
    apply_writes ops [] = content env \<and> blocks k' = blocks k"
  using CollectDeletedFile_files [OF assms] io_extends_blocks0 by blast

definition logdir0 :: unicode_string where
  "logdir0 = \<lparr>Length = 4, MaximumLength = 6, Buffer = Some 0, Chars = [0x43, BACKSLASH]\<rparr>"

definition drive0 :: unicode_string where
  "drive0 = \<lparr>Length = 4, MaximumLength = 6, Buffer = Some 0, Chars = [0x43, COLON]\<rparr>"

definition deleted0 :: file_name_information where
  "deleted0 = \<lparr>fni_Name = name0, fni_Share = str0,
     fni_ParentDir = \<lparr>Length = 6, MaximumLength = 8, Buffer = Some 0,
       Chars = [BACKSLASH, 0x61, BACKSLASH]\<rparr>,
     fni_FinalComponent = \<lparr>Length = 2, MaximumLength = 4, Buffer = Some 0, Chars = [0x62]\<rparr>\<rparr>"

definition fs_env1 :: fs_env where
  "fs_env1 = fs_env0\<lparr>dos_name := Some drive0\<rparr>"

theorem collect_deleted_file_witness:
  "\<exists>(k' :: fm_state) ops. CollectDeletedFile fs_env1 logdir0 deleted0 loaded0 = Inr k' \<and>
    files k' = files loaded0 @
      map (\<lambda>j. MkDir (Chars logdir0 @
          take j (drive_component drive0 @ Chars (fni_ParentDir deleted0))))
        (separators 0 (drive_component drive0 @ Chars (fni_ParentDir deleted0))) @
      CreateCopy (Chars logdir0 @ drive_component drive0 @ Chars (fni_ParentDir deleted0)
        @ Chars (fni_FinalComponent deleted0)) (snd (query_std fs_env1)) # ops \<and>
    apply_writes ops [] = content fs_env1 \<and> blocks k' = blocks loaded0"
  by (rule collect_deleted_file)
     (simp_all add: collectable_def transfers_def fs_env1_def fs_env0_def logdir0_def drive0_def
      deleted0_def us_wf_def us_valid_def pool_wf_def)

text \<open>
  A failing disk goes unnoticed: when no write succeeds the copy stays empty, and
  \<open>CopyFile\<close> returns \<open>STATUS_SUCCESS\<close> all the same.
\<close>

theorem copy_file_hides_failed_writes:
  assumes "NT_SUCCESS (fst (query_std env))" and "NT_SUCCESS (create_copy env path)"
    and "NT_SUCCESS (ob_reference env)" and "\<forall>p. \<not> NT_SUCCESS (write_status env p)"
    and "CopyFile env path k = Inr (status, k')"
  shows "status = STATUS_SUCCESS \<and>
    files k' = files k @ [CreateCopy path (snd (query_std env))]"
  using CopyFile_failed_writes [OF assms] .

definition fs_env2 :: fs_env where
  "fs_env2 = fs_env0\<lparr>write_status := \<lambda>p. STATUS_UNSUCCESSFUL\<rparr>"

theorem copy_file_hides_failed_writes_witness:
  "\<exists>status k'. CopyFile fs_env2 [0x62] loaded0 = Inr (status, k') \<and>
    status = STATUS_SUCCESS \<and> files k' = files loaded0 @ [CreateCopy [0x62] (snd (query_std fs_env2))]"
proof -
  have "pool_wf loaded0" by (simp add: pool_wf_def)
  then obtain status k' where r: "CopyFile fs_env2 [0x62] loaded0 = Inr (status, k')"
    using CopyFile_extends by blast
  have "status = STATUS_SUCCESS \<and>
      files k' = files loaded0 @ [CreateCopy [0x62] (snd (query_std fs_env2))]"
    by (rule copy_file_hides_failed_writes [OF _ _ _ _ r]) (simp_all add: fs_env2_def fs_env0_def)
  with r show ?thesis by blast
qed

subsection \<open>Setting up, loading, and what goes wrong\<close>

text \<open>
  The setup message. A setup that switches the collection on, with the size the client
  sends, makes the log directory the given one behind \<open>\??\<close>; the driver answers
  \<open>STATUS_INVALID_PARAMETER\<close> although it has done what was asked.
\<close>

theorem setup_message_installs:
  assumes "fm_inv strict s C es" and "\<forall>n. granted s n"
    and "length ob = sizeof_FILEMONITOR_SETUP" and "filemonitor_setup_at ob = m"
    and "fs_collect m" and "0 \<in> set (wszLogDirectory m)"
    and "takeWhile (\<lambda>c. c \<noteq> 0) (wszLogDirectory m) = dir" and "length dir \<le> 1024"
    and "nLogDirectorySize m = of_nat (2 * length dir)"
  shows "\<exists>s'. MessageCallback now (setup_message ob) s =
      Inr (STATUS_INVALID_PARAMETER, [], None, s') \<and> bCollectDeletedFiles s' \<and>
    us_wf (logDirectory s') \<and>
    Chars (logDirectory s') = [BACKSLASH, 0x3F, 0x3F, BACKSLASH] @ dir"
proof -
  obtain s' where "set_log_directory m s = Inr s'" "bCollectDeletedFiles s' = fs_collect m"
    "us_wf (logDirectory s')" "Chars (logDirectory s') = Chars nt_prefix @ dir"
    using set_log_directory_result [OF assms(1,2,7,6,9,8)] by blast
  then show ?thesis
    using assms(3-5) us_wf_nt_prefix(2) by (simp add: MessageCallback_setup setup_monitor_def)
qed

definition setup0 :: "u8 list" where
  "setup0 = [1, 0, 0, 0] @ le32 4 @ wchars_bytes ([0x43, BACKSLASH] @ replicate 1022 0)"

lemma setup0_fields: "length setup0 = sizeof_FILEMONITOR_SETUP"
  "filemonitor_setup_at setup0 = \<lparr>fs_collect = True, nLogDirectorySize = 4,
     wszLogDirectory = [0x43, BACKSLASH] @ replicate 1022 0\<rparr>"
proof -
  let ?d = "[0x43, BACKSLASH] @ replicate 1022 0 :: wstring"
  show "length setup0 = sizeof_FILEMONITOR_SETUP"
    by (simp add: setup0_def sizeof_FILEMONITOR_SETUP_def)
  have "u32_at setup0 4 = 4"
    unfolding setup0_def by (rule u32_at_le32_at) simp
  moreover have "byte_at setup0 0 = 1" by (simp add: setup0_def byte_at_def)
  moreover have "take 2048 (drop 8 setup0) = wchars_bytes ?d"
    by (simp only: setup0_def) simp
  ultimately show "filemonitor_setup_at setup0 = \<lparr>fs_collect = True, nLogDirectorySize = 4,
     wszLogDirectory = ?d\<rparr>"
    by (simp only: filemonitor_setup_at_def bytes_wchars_inverse) simp
qed

theorem setup_message_installs_witness:
  "\<exists>s'. MessageCallback 101 (setup_message setup0) loaded0 =
      Inr (STATUS_INVALID_PARAMETER, [], None, s') \<and> bCollectDeletedFiles s' \<and>
    us_wf (logDirectory s') \<and>
    Chars (logDirectory s') = [BACKSLASH, 0x3F, 0x3F, BACKSLASH] @ [0x43, BACKSLASH]"
  by (rule setup_message_installs [OF loaded0_inv _ setup0_fields]) simp_all

text \<open>
  A refused buffer leaves a stale flag: when the allocation of the log directory is
  refused, a setup that switches the collection on leaves no directory, yet the driver goes
  on collecting if it did before.
\<close>

theorem setup_message_stale_flag:
  assumes "fm_inv strict s C es" and "\<forall>n. \<not> granted s n" and "bCollectDeletedFiles s"
    and "length ob = sizeof_FILEMONITOR_SETUP" and "fs_collect (filemonitor_setup_at ob)"
  shows "\<exists>s'. MessageCallback now (setup_message ob) s =
      Inr (STATUS_INVALID_PARAMETER, [], None, s') \<and>
    Buffer (logDirectory s') = None \<and> bCollectDeletedFiles s'"
  using set_log_directory_refused [OF assms(1,2), of "filemonitor_setup_at ob"] assms(3-5)
  by (auto simp: MessageCallback_setup setup_monitor_def)

definition starved0 :: fm_state where
  "starved0 = loaded0\<lparr>granted := \<lambda>n. False, bCollectDeletedFiles := True\<rparr>"

lemma starved0_inv: "fm_inv strict starved0 {} []"
  by (simp add: fm_inv_def starved0_def pool_wf_def log_buffer_ok_def owned_def)

theorem setup_message_stale_flag_witness:
  "\<exists>s'. MessageCallback 101 (setup_message setup0) starved0 =
      Inr (STATUS_INVALID_PARAMETER, [], None, s') \<and>
    Buffer (logDirectory s') = None \<and> bCollectDeletedFiles s'"
  by (rule setup_message_stale_flag [OF starved0_inv])
     (simp_all add: starved0_def setup0_fields)

text \<open>
  Loading. The driver reports success exactly when registering the filter, building the
  security descriptor, creating the port and starting the filter all succeed; after a failed
  load no port is left, and a filter is left behind in exactly one case: when the descriptor
  could not be built.
\<close>

theorem driver_entry_outcome:
  assumes "image_loaded s" and "DriverEntry env now s = (st, s')"
  shows "(NT_SUCCESS st \<longleftrightarrow> NT_SUCCESS (register_filter env) \<and> NT_SUCCESS (build_descriptor env) \<and>
      NT_SUCCESS (create_port env) \<and> NT_SUCCESS (start_filtering env)) \<and>
    (\<not> NT_SUCCESS st \<longrightarrow> \<not> pServerPort s' \<and> \<not> bReady s' \<and>
      (pFilter s' \<longleftrightarrow> NT_SUCCESS (register_filter env) \<and> \<not> NT_SUCCESS (build_descriptor env)))"
  using assms by (auto simp: DriverEntry_def image_loaded_def Let_def split: if_splits)

theorem driver_entry_outcome_witness:
  "let env = \<lparr>register_filter = 0, build_descriptor = STATUS_UNSUCCESSFUL, create_port = 0,
       start_filtering = 0\<rparr>; st = fst (DriverEntry env 100 image0); s' = snd (DriverEntry env 100 image0)
   in (NT_SUCCESS st \<longleftrightarrow> NT_SUCCESS (register_filter env) \<and> NT_SUCCESS (build_descriptor env) \<and>
      NT_SUCCESS (create_port env) \<and> NT_SUCCESS (start_filtering env)) \<and>
    (\<not> NT_SUCCESS st \<longrightarrow> \<not> pServerPort s' \<and> \<not> bReady s' \<and>
      (pFilter s' \<longleftrightarrow> NT_SUCCESS (register_filter env) \<and> \<not> NT_SUCCESS (build_descriptor env)))"
  unfolding Let_def by (rule driver_entry_outcome) (simp_all add: image_loaded_def image0_def)

text \<open>
  The unset pointer. A synchronous deletion of a file whose normalized name cannot be
  had, while its opened name can, makes the pre-operation callback follow a pointer that was
  never set.
\<close>

theorem pre_operation_wild_pointer:
  assumes "being_deleted rq" and "rq_file_object rq \<noteq> None" and "rq_normalized rq = None"
    and "rq_opened rq \<noteq> None" and "\<not> rq_fs_filter rq" and "granted s (ticks s)"
  shows "PreFileOperationCallback rq now st info s = Inl WILD_POINTER"
  by (rule PreFileOperationCallback_wild) (use assms in \<open>simp_all add: wild_pointer_request_def\<close>)

definition request2 :: file_request where
  "request2 = request0\<lparr>rq_major := IRP_MJ_SET_INFORMATION, rq_disposition := True,
     rq_delete := True, rq_normalized := None, rq_opened := Some info0\<rparr>"

theorem pre_operation_wild_pointer_witness:
  "PreFileOperationCallback request2 101 0 0 loaded0 = Inl WILD_POINTER"
  by (rule pre_operation_wild_pointer)
     (simp_all add: request2_def request0_def being_deleted_def)

text \<open>
  The unchecked allocation. When no name query succeeds, the file object has a name of
  its own, and the block for its first characters is refused, the pre-operation callback
  brings the machine down.
\<close>

theorem pre_operation_unchecked_allocation:
  assumes "\<not> rq_fs_filter rq" and "granted s (ticks s)" and "\<not> granted s (Suc (ticks s))"
    and "rq_file_object rq = Some fo" and "rq_normalized rq = None" and "rq_opened rq = None"
    and "\<not> fo_hasRelated fo" and "0 < Length (fo_FileName fo)"
  shows "\<exists>b. PreFileOperationCallback rq now st info s = Inl b"
  using PreFileOperationCallback_unchecked [OF assms] .

theorem pre_operation_unchecked_allocation_witness:
  "\<exists>b. PreFileOperationCallback request1 101 0 0 (loaded0\<lparr>granted := \<lambda>n. n = 0\<rparr>) = Inl b"
proof (rule pre_operation_unchecked_allocation [where fo = object0])
  have "ticks loaded0 = 0"
    by (simp add: loaded0_def image0_def DriverEntry_def Let_def UpdateLastContactTime_def)
  then show "granted (loaded0\<lparr>granted := \<lambda>n. n = 0\<rparr>) (ticks (loaded0\<lparr>granted := \<lambda>n. n = 0\<rparr>))"
    by simp
qed (simp_all add: request1_def request0_def object0_def name0_def)

end
