(* ===== verification/RegistryEvent.thy ===== *)
theory RegistryEvent
  imports FileEvent
begin

text \<open>
  The registry event of the registry driver: the classes of notification, the structure
  with its path and data in one array, its memory layout on 32-bit Windows and the reader
  of that layout.
\<close>

subsection \<open>Notification classes\<close>

text \<open>
  \<open>REG_NOTIFY_CLASS\<close>. Where the enumeration has two names for a value, the constructor is
  the one with \<open>Pre\<close> in it.
\<close>

datatype reg_notify_class =
    RegNtPreDeleteKey | RegNtPreSetValueKey | RegNtPreDeleteValueKey
  | RegNtPreSetInformationKey | RegNtPreRenameKey | RegNtPreEnumerateKey
  | RegNtPreEnumerateValueKey | RegNtPreQueryKey | RegNtPreQueryValueKey
  | RegNtPreQueryMultipleValueKey | RegNtPreCreateKey | RegNtPostCreateKey
  | RegNtPreOpenKey | RegNtPostOpenKey | RegNtPreKeyHandleClose
  | RegNtPostDeleteKey | RegNtPostSetValueKey | RegNtPostDeleteValueKey
  | RegNtPostSetInformationKey | RegNtPostRenameKey | RegNtPostEnumerateKey
  | RegNtPostEnumerateValueKey | RegNtPostQueryKey | RegNtPostQueryValueKey
  | RegNtPostQueryMultipleValueKey | RegNtPostKeyHandleClose | RegNtPreCreateKeyEx
  | RegNtPostCreateKeyEx | RegNtPreOpenKeyEx | RegNtPostOpenKeyEx
  | RegNtPreFlushKey | RegNtPostFlushKey | RegNtPreLoadKey
  | RegNtPostLoadKey | RegNtPreUnLoadKey | RegNtPostUnLoadKey
  | RegNtPreQueryKeySecurity | RegNtPostQueryKeySecurity | RegNtPreSetKeySecurity
  | RegNtPostSetKeySecurity | RegNtCallbackContextCleanup

fun reg_code :: "reg_notify_class \<Rightarrow> u32" where
  "reg_code RegNtPreDeleteKey = 0"
| "reg_code RegNtPreSetValueKey = 1"
| "reg_code RegNtPreDeleteValueKey = 2"
| "reg_code RegNtPreSetInformationKey = 3"
| "reg_code RegNtPreRenameKey = 4"
| "reg_code RegNtPreEnumerateKey = 5"
| "reg_code RegNtPreEnumerateValueKey = 6"
| "reg_code RegNtPreQueryKey = 7"
| "reg_code RegNtPreQueryValueKey = 8"
| "reg_code RegNtPreQueryMultipleValueKey = 9"
| "reg_code RegNtPreCreateKey = 10"
| "reg_code RegNtPostCreateKey = 11"
| "reg_code RegNtPreOpenKey = 12"
| "reg_code RegNtPostOpenKey = 13"
| "reg_code RegNtPreKeyHandleClose = 14"
| "reg_code RegNtPostDeleteKey = 15"
| "reg_code RegNtPostSetValueKey = 16"
| "reg_code RegNtPostDeleteValueKey = 17"
| "reg_code RegNtPostSetInformationKey = 18"
| "reg_code RegNtPostRenameKey = 19"
| "reg_code RegNtPostEnumerateKey = 20"
| "reg_code RegNtPostEnumerateValueKey = 21"
| "reg_code RegNtPostQueryKey = 22"
| "reg_code RegNtPostQueryValueKey = 23"
| "reg_code RegNtPostQueryMultipleValueKey = 24"
| "reg_code RegNtPostKeyHandleClose = 25"
| "reg_code RegNtPreCreateKeyEx = 26"
| "reg_code RegNtPostCreateKeyEx = 27"
| "reg_code RegNtPreOpenKeyEx = 28"
| "reg_code RegNtPostOpenKeyEx = 29"
| "reg_code RegNtPreFlushKey = 30"
| "reg_code RegNtPostFlushKey = 31"
| "reg_code RegNtPreLoadKey = 32"
| "reg_code RegNtPostLoadKey = 33"
| "reg_code RegNtPreUnLoadKey = 34"
| "reg_code RegNtPostUnLoadKey = 35"
| "reg_code RegNtPreQueryKeySecurity = 36"
| "reg_code RegNtPostQueryKeySecurity = 37"
| "reg_code RegNtPreSetKeySecurity = 38"
| "reg_code RegNtPostSetKeySecurity = 39"
| "reg_code RegNtCallbackContextCleanup = 40"

lemma reg_code_inj: "reg_code a = reg_code b \<Longrightarrow> a = b"
proof -
  define cs where "cs = [RegNtPreDeleteKey, RegNtPreSetValueKey, RegNtPreDeleteValueKey, RegNtPreSetInformationKey, RegNtPreRenameKey, RegNtPreEnumerateKey, RegNtPreEnumerateValueKey, RegNtPreQueryKey, RegNtPreQueryValueKey, RegNtPreQueryMultipleValueKey, RegNtPreCreateKey, RegNtPostCreateKey, RegNtPreOpenKey, RegNtPostOpenKey, RegNtPreKeyHandleClose, RegNtPostDeleteKey, RegNtPostSetValueKey, RegNtPostDeleteValueKey, RegNtPostSetInformationKey, RegNtPostRenameKey, RegNtPostEnumerateKey, RegNtPostEnumerateValueKey, RegNtPostQueryKey, RegNtPostQueryValueKey, RegNtPostQueryMultipleValueKey, RegNtPostKeyHandleClose, RegNtPreCreateKeyEx, RegNtPostCreateKeyEx, RegNtPreOpenKeyEx, RegNtPostOpenKeyEx, RegNtPreFlushKey, RegNtPostFlushKey, RegNtPreLoadKey, RegNtPostLoadKey, RegNtPreUnLoadKey, RegNtPostUnLoadKey, RegNtPreQueryKeySecurity, RegNtPostQueryKeySecurity, RegNtPreSetKeySecurity, RegNtPostSetKeySecurity, RegNtCallbackContextCleanup]"
  have d: "distinct (map reg_code cs)" unfolding cs_def by code_simp
  have all: "x \<in> set cs" for x by (cases x) (simp_all add: cs_def)
  assume "reg_code a = reg_code b"
  with d all [of a] all [of b] show "a = b" by (auto simp: distinct_map dest: inj_onD)
qed

subsection \<open>The event\<close>

record registry_event =
  re_eventType :: u32
  re_time :: time_fields
  re_processId :: u32
  re_dataType :: u32
  dataLengthB :: u32
  registryPathLengthB :: u32
  registryData :: "u8 list"

definition sizeof_REGISTRY_EVENT :: u32 where
  "sizeof_REGISTRY_EVENT = 36"

definition registry_event_bytes :: "registry_event \<Rightarrow> u8 list" where
  "registry_event_bytes e =
     le32 (re_eventType e) @ time_fields_bytes (re_time e) @ le32 (re_processId e) @
     le32 (re_dataType e) @ le32 (dataLengthB e) @ le32 (registryPathLengthB e) @ registryData e"

text \<open>The size the driver computes for an event, in 32 bits.\<close>

definition registry_event_size :: "registry_event \<Rightarrow> u32" where
  "registry_event_size e = sizeof_REGISTRY_EVENT + registryPathLengthB e + dataLengthB e"

definition registry_event_at :: "u8 list \<Rightarrow> registry_event" where
  "registry_event_at bs =
     \<lparr>re_eventType = u32_at bs 0, re_time = time_fields_at bs 4, re_processId = u32_at bs 20,
      re_dataType = u32_at bs 24, dataLengthB = u32_at bs 28, registryPathLengthB = u32_at bs 32,
      registryData = take (unat (u32_at bs 32) + unat (u32_at bs 28)) (drop 36 bs)\<rparr>"

text \<open>The lengths of an event agree with its array and do not overflow the size.\<close>

definition registry_event_wf :: "registry_event \<Rightarrow> bool" where
  "registry_event_wf e \<longleftrightarrow>
     unat (registryPathLengthB e) + unat (dataLengthB e) = length (registryData e) \<and>
     36 + length (registryData e) < 2 ^ 32"

lemma length_registry_event_bytes [simp, layout_simps]:
  "length (registry_event_bytes e) = 36 + length (registryData e)"
  by (simp add: registry_event_bytes_def)

lemma unat_registry_event_size:
  assumes "registry_event_wf e"
  shows "unat (registry_event_size e) = 36 + length (registryData e)"
proof -
  have s: "unat sizeof_REGISTRY_EVENT = 36" by (simp add: sizeof_REGISTRY_EVENT_def)
  have le: "36 + unat (registryPathLengthB e) + unat (dataLengthB e) < 2 ^ 32"
    using assms by (simp add: registry_event_wf_def)
  then have p: "unat (sizeof_REGISTRY_EVENT + registryPathLengthB e)
      = 36 + unat (registryPathLengthB e)"
    using unat_u32_add [of sizeof_REGISTRY_EVENT "registryPathLengthB e"] s by simp
  have "unat (sizeof_REGISTRY_EVENT + registryPathLengthB e + dataLengthB e)
      = 36 + unat (registryPathLengthB e) + unat (dataLengthB e)"
    using unat_u32_add [of "sizeof_REGISTRY_EVENT + registryPathLengthB e" "dataLengthB e"] p le
    by simp
  then show ?thesis using assms by (simp add: registry_event_size_def registry_event_wf_def)
qed

lemma registry_event_size_bytes:
  "registry_event_wf e \<Longrightarrow> unat (registry_event_size e) = length (registry_event_bytes e)"
  by (simp add: unat_registry_event_size)

lemma sizeof_le_registry_event_size:
  "registry_event_wf e \<Longrightarrow> sizeof_REGISTRY_EVENT \<le> registry_event_size e"
  by (simp add: word_le_nat_alt unat_registry_event_size sizeof_REGISTRY_EVENT_def)

lemma registry_event_fields:
  fixes e :: registry_event and rest :: "u8 list"
  defines "bs \<equiv> registry_event_bytes e @ rest"
  shows "u32_at bs 0 = re_eventType e" and "time_fields_at bs 4 = re_time e"
    and "u32_at bs 20 = re_processId e" and "u32_at bs 24 = re_dataType e"
    and "u32_at bs 28 = dataLengthB e" and "u32_at bs 32 = registryPathLengthB e"
    and "drop 36 bs = registryData e @ rest"
proof -
  have f32: "u32_at bs i = w" if "bs = ps @ le32 w @ qs" and "i = length ps" for ps w qs i
    using u32_at_le32 [of ps w qs] by (simp add: that)
  let ?h = "le32 (re_eventType e) @ time_fields_bytes (re_time e)"
  show "u32_at bs 0 = re_eventType e"
    by (rule f32 [of "[]"]) (simp_all add: bs_def registry_event_bytes_def)
  show "time_fields_at bs 4 = re_time e"
    using time_fields_at_bytes [of 4 "le32 (re_eventType e)" "re_time e"]
    by (simp add: bs_def registry_event_bytes_def)
  show "u32_at bs 20 = re_processId e"
    by (rule f32 [of ?h]) (simp_all add: bs_def registry_event_bytes_def)
  show "u32_at bs 24 = re_dataType e"
    by (rule f32 [of "?h @ le32 (re_processId e)"]) (simp_all add: bs_def registry_event_bytes_def)
  show "u32_at bs 28 = dataLengthB e"
    by (rule f32 [of "?h @ le32 (re_processId e) @ le32 (re_dataType e)"])
       (simp_all add: bs_def registry_event_bytes_def)
  show "u32_at bs 32 = registryPathLengthB e"
    by (rule f32 [of "?h @ le32 (re_processId e) @ le32 (re_dataType e) @ le32 (dataLengthB e)"])
       (simp_all add: bs_def registry_event_bytes_def)
  show "drop 36 bs = registryData e @ rest"
    by (simp add: bs_def registry_event_bytes_def)
qed

text \<open>A well-formed event is read back from its bytes, whatever follows them.\<close>

theorem registry_event_at_bytes:
  assumes "registry_event_wf e"
  shows "registry_event_at (registry_event_bytes e @ rest) = e"
proof -
  have "take (unat (registryPathLengthB e) + unat (dataLengthB e)) (registryData e @ rest) =
      registryData e"
    using assms by (simp add: registry_event_wf_def)
  then show ?thesis
    by (simp only: registry_event_at_def registry_event_fields) simp
qed

end
