(* ===== verification/DeviceControl.thy ===== *)
theory DeviceControl
  imports Prelude
begin

text \<open>
  Device control requests, as the registry and the process driver receive them: the code of
  a request and its parameters.
\<close>

text \<open>
  \<open>CTL_CODE\<close>; both drivers use device type \<open>0x22\<close> with \<open>METHOD_NEITHER\<close> (3) and read and
  write access (3).
\<close>

definition CTL_CODE :: "u32 \<Rightarrow> u32 \<Rightarrow> u32 \<Rightarrow> u32 \<Rightarrow> u32" where
  "CTL_CODE device function_code transfer access =
     push_bit 16 device OR push_bit 14 access OR push_bit 2 function_code OR transfer"

text \<open>
  A device control request: the code, the length of the output buffer, and whether the
  buffer pointer is \<open>NULL\<close> or probing it raises an exception.
\<close>

record ioctl_request =
  io_code :: u32
  io_null :: bool
  io_length :: u32
  io_probe :: "ntstatus option"

end
