(* ===== verification/RegistryDriver.thy ===== *)
theory RegistryDriver
  imports RegistryEvent EventChannel DeviceControl
begin

text \<open>
  The state of the registry driver (\<open>CAPTURE_REGISTRY_MANAGER\<close>) and its entry points: the
  registry callback, the device control request that reads events, the watchdog, loading
  and unloading. Every handler is one atomic step.
\<close>

subsection \<open>State\<close>

record rm_state = "registry_event kpool" +
  rm_bReady :: bool
  lQueuedRegistryEvents :: "addr list"
  rm_lastContactTime :: u32
  rm_device :: bool
  rm_symlink :: bool
  rm_callback :: bool
  rm_timer :: bool

definition RM_CONNECTION_TIMEOUT :: u32 where
  "RM_CONNECTION_TIMEOUT = 10"

text \<open>
  A notification with what the system answers while it is handled. \<open>rr_fault\<close>: reading the
  argument structure raises an exception. \<open>rr_partial\<close> is the complete name a post-create or
  post-open notification carries (\<open>None\<close>: the pointer is \<open>NULL\<close>), \<open>rr_beyond\<close> the characters
  in memory behind it. \<open>rr_length\<close> and \<open>rr_name\<close> are the two name queries, \<open>rr_data\<close> the
  bytes the data pointer of a set-value notification shows (\<open>None\<close>: following it faults).
\<close>

record registry_request =
  rr_type :: reg_notify_class
  rr_fault :: bool
  rr_status :: ntstatus
  rr_object_valid :: bool
  rr_partial :: "unicode_string option"
  rr_beyond :: wstring
  rr_length :: "ntstatus \<times> u32"
  rr_name :: "ntstatus \<times> unicode_string"
  rr_value_name :: unicode_string
  rr_data_type :: u32
  rr_data_size :: u32
  rr_data :: "u8 list option"
  rr_process :: u32
  rr_event_time :: time_fields
  rr_garbage :: registry_event

subsection \<open>The name of the key\<close>

text \<open>
  \<open>looks_complete\<close>: the test on the first characters of the partial name, reading beyond it
  where it is shorter; \<open>None\<close> is a read that faults.
\<close>

definition char_at :: "wstring \<Rightarrow> nat \<Rightarrow> wchar option" where
  "char_at cs i = (if i < length cs then Some (cs ! i) else None)"

definition looks_complete :: "wstring \<Rightarrow> bool option" where
  "looks_complete cs =
     (case char_at cs 0 of
        None \<Rightarrow> None
      | Some c0 \<Rightarrow>
          if c0 = BACKSLASH \<or> c0 = 0x25 then Some True
          else if c0 \<noteq> 0x54 then Some False
          else (case char_at cs 1 of
                  None \<Rightarrow> None
                | Some c1 \<Rightarrow>
                    if c1 \<noteq> 0x52 then Some False
                    else (case char_at cs 2 of
                            None \<Rightarrow> None
                          | Some c2 \<Rightarrow>
                              if c2 \<noteq> 0x59 then Some False
                              else (case char_at cs 3 of
                                      None \<Rightarrow> None
                                    | Some c3 \<Rightarrow> Some (c3 = BACKSLASH)))))"

text \<open>
  The two calls of \<open>ObQueryNameString\<close>. The block for the name is freed whether or not it
  was allocated; with no block the second query is taken to come back without a name.
\<close>

definition query_object_name ::
    "registry_request \<Rightarrow> unicode_string \<Rightarrow> ('e, 'x) kpool_scheme \<Rightarrow>
     bugcheck + (bool \<times> unicode_string \<times> ('e, 'x) kpool_scheme)" where
  "query_object_name rq path k =
     (if fst (rr_length rq) = STATUS_INFO_LENGTH_MISMATCH
      then (let (r, k1) = ExAllocatePoolWithTag (Raw (unat (snd (rr_length rq)))) k;
                ok = r \<noteq> None \<and> NT_SUCCESS (fst (rr_name rq));
                path1 = (if ok then RtlUnicodeStringCopy path (snd (rr_name rq)) else path)
            in and_then (ExFreePoolWithTag r k1) (\<lambda>k2. Inr (ok, path1, k2)))
      else Inr (False, path, k))"

text \<open>The first component of the result is \<open>None\<close> when an exception was raised.\<close>

definition GetRegistryObjectCompleteName ::
    "registry_request \<Rightarrow> unicode_string option \<Rightarrow> unicode_string \<Rightarrow> ('e, 'x) kpool_scheme \<Rightarrow>
     bugcheck + (bool option \<times> unicode_string \<times> ('e, 'x) kpool_scheme)" where
  "GetRegistryObjectCompleteName rq pPartial path k =
     (if \<not> rr_object_valid rq then Inr (Some False, path, k)
      else (case (case pPartial of None \<Rightarrow> Some False
                  | Some p \<Rightarrow> looks_complete (Chars p @ rr_beyond rq)) of
              None \<Rightarrow> Inr (None, path, k)
            | Some True \<Rightarrow> Inr (Some True, RtlUnicodeStringCopy path (the pPartial), k)
            | Some False \<Rightarrow>
                and_then (query_object_name rq path k) (\<lambda>(found, path1, k1).
                Inr (Some found, path1, k1))))"

subsection \<open>The queue\<close>

definition rm_UpdateLastContactTime :: "u32 \<Rightarrow> rm_state \<Rightarrow> rm_state" where
  "rm_UpdateLastContactTime now s = s\<lparr>rm_lastContactTime := now\<rparr>"

definition rm_free_queue :: "rm_state \<Rightarrow> bugcheck + rm_state" where
  "rm_free_queue s =
     and_then (free_packets (lQueuedRegistryEvents s) s) (\<lambda>s1.
     Inr (s1\<lparr>lQueuedRegistryEvents := []\<rparr>))"

definition rm_ConnectionChecker :: "u32 \<Rightarrow> rm_state \<Rightarrow> bugcheck + rm_state" where
  "rm_ConnectionChecker now s =
     (if now - rm_lastContactTime s > RM_CONNECTION_TIMEOUT + RM_CONNECTION_TIMEOUT div 2
      then rm_free_queue s else Inr s)"

text \<open>The packet is written to without a check of its allocation.\<close>

definition QueueRegistryEvent :: "u32 \<Rightarrow> addr \<Rightarrow> rm_state \<Rightarrow> bugcheck + (bool \<times> rm_state)" where
  "QueueRegistryEvent now ev s =
     (if now - rm_lastContactTime s \<le> RM_CONNECTION_TIMEOUT
      then (case ExAllocatePoolWithTag (Packet ev) s of
              (None, s1) \<Rightarrow> Inl NULL_DEREFERENCE
            | (Some pk, s1) \<Rightarrow>
                Inr (True, s1\<lparr>lQueuedRegistryEvents := lQueuedRegistryEvents s1 @ [pk]\<rparr>))
      else Inr (False, s))"

subsection \<open>The callback\<close>

text \<open>
  What the switch over the notification classes leaves: whether the event is valid, the
  path, the data block, and the length and type of the data.
\<close>

record switch_result =
  sw_valid :: bool
  sw_path :: unicode_string
  sw_data :: "addr option"
  sw_length :: u32
  sw_type :: u32

definition append_value_name :: "registry_request \<Rightarrow> unicode_string \<Rightarrow> unicode_string" where
  "append_value_name rq path =
     RtlUnicodeStringCat (RtlUnicodeStringCatString path [BACKSLASH]) (rr_value_name rq)"

text \<open>
  The name is queried in every branch; a set-value notification moreover copies its data
  into a block of its own, before the name of the value is appended.
\<close>

definition named_key ::
    "registry_request \<Rightarrow> unicode_string option \<Rightarrow> bool \<Rightarrow> u32 \<Rightarrow> unicode_string \<Rightarrow> rm_state \<Rightarrow>
     bugcheck + (switch_result \<times> rm_state)" where
  "named_key rq pPartial with_value ty path s =
     and_then (GetRegistryObjectCompleteName rq pPartial path s) (\<lambda>(r, path1, s1).
       let valid = (r = Some True);
           value = with_value \<and> valid \<and> 0 < Length (rr_value_name rq)
       in Inr (\<lparr>sw_valid = valid,
                sw_path = (if value then append_value_name rq path1 else path1),
                sw_data = None, sw_length = 0,
                sw_type = (if with_value \<and> \<not> value then 0 else ty)\<rparr>, s1))"

definition set_value_key ::
    "registry_request \<Rightarrow> unicode_string \<Rightarrow> rm_state \<Rightarrow> bugcheck + (switch_result \<times> rm_state)" where
  "set_value_key rq path s =
     and_then (GetRegistryObjectCompleteName rq None path s) (\<lambda>(r, path1, s1).
       if r = Some True \<and> 0 < Length (rr_value_name rq)
       then (case ExAllocatePoolWithTag (Raw (unat (rr_data_size rq))) s1 of
               (None, s2) \<Rightarrow>
                 Inr (\<lparr>sw_valid = True, sw_path = append_value_name rq path1, sw_data = None,
                       sw_length = rr_data_size rq, sw_type = rr_data_type rq\<rparr>, s2)
             | (Some d, s2) \<Rightarrow>
                 (case rr_data rq of
                    None \<Rightarrow>
                      Inr (\<lparr>sw_valid = False, sw_path = path1, sw_data = Some d,
                            sw_length = rr_data_size rq, sw_type = rr_data_type rq\<rparr>, s2)
                  | Some bs \<Rightarrow>
                      Inr (\<lparr>sw_valid = True, sw_path = append_value_name rq path1,
                            sw_data = Some d, sw_length = rr_data_size rq,
                            sw_type = rr_data_type rq\<rparr>, s2)))
       else Inr (\<lparr>sw_valid = (r = Some True), sw_path = path1, sw_data = None, sw_length = 0,
                  sw_type = 0\<rparr>, s1))"

definition no_event :: "unicode_string \<Rightarrow> switch_result" where
  "no_event path = \<lparr>sw_valid = False, sw_path = path, sw_data = None, sw_length = 0, sw_type = 0\<rparr>"

definition registry_switch ::
    "registry_request \<Rightarrow> unicode_string \<Rightarrow> rm_state \<Rightarrow> bugcheck + (switch_result \<times> rm_state)" where
  "registry_switch rq path s =
     (if rr_fault rq then Inr (no_event path, s)
      else (case rr_type rq of
              RegNtPostCreateKey \<Rightarrow>
                if NT_SUCCESS (rr_status rq) then named_key rq (rr_partial rq) False 0 path s
                else Inr (no_event path, s)
            | RegNtPostOpenKey \<Rightarrow>
                if NT_SUCCESS (rr_status rq) then named_key rq (rr_partial rq) False 0 path s
                else Inr (no_event path, s)
            | RegNtPreDeleteKey \<Rightarrow> named_key rq None False 0 path s
            | RegNtPreDeleteValueKey \<Rightarrow> named_key rq None True 0 path s
            | RegNtPreSetValueKey \<Rightarrow> set_value_key rq path s
            | RegNtPreEnumerateKey \<Rightarrow> named_key rq None False (rr_data_type rq) path s
            | RegNtPreEnumerateValueKey \<Rightarrow> named_key rq None False (rr_data_type rq) path s
            | RegNtPreQueryKey \<Rightarrow> named_key rq None False (rr_data_type rq) path s
            | RegNtPreQueryValueKey \<Rightarrow> named_key rq None True (rr_data_type rq) path s
            | RegNtPreKeyHandleClose \<Rightarrow> named_key rq None False 0 path s
            | _ \<Rightarrow> Inr (no_event path, s)))"

text \<open>
  The event and its block. The size is computed in 32 bits and may wrap; the copy of the
  data reads through the data pointer whether or not it is set.
\<close>

definition new_registry_event :: "registry_request \<Rightarrow> switch_result \<Rightarrow> registry_event" where
  "new_registry_event rq sw =
     \<lparr>re_eventType = reg_code (rr_type rq), re_time = rr_event_time rq,
      re_processId = rr_process rq, re_dataType = sw_type sw, dataLengthB = sw_length sw,
      registryPathLengthB = of_nat (unat (Length (sw_path sw)) + 2),
      registryData = wchars_bytes (take (unat (Length (sw_path sw)) div 2) (Chars (sw_path sw)))
        @ [0, 0] @ (case sw_data sw of Some d \<Rightarrow> take (unat (sw_length sw)) (the (rr_data rq))
                    | None \<Rightarrow> [])\<rparr>"

definition event_block_size :: "switch_result \<Rightarrow> u32" where
  "event_block_size sw =
     sizeof_REGISTRY_EVENT + of_nat (unat (Length (sw_path sw))) + 2 + sw_length sw"

definition make_registry_event ::
    "u32 \<Rightarrow> registry_request \<Rightarrow> switch_result \<Rightarrow> rm_state \<Rightarrow> bugcheck + rm_state" where
  "make_registry_event now rq sw s =
     (case ExAllocatePoolWithTag (Event (rr_garbage rq)) s of
        (None, s1) \<Rightarrow> Inr s1
      | (Some ev, s1) \<Rightarrow>
          if unat (event_block_size sw) < 36 + unat (Length (sw_path sw)) + 2 + unat (sw_length sw)
          then Inl WRITE_OVERRUN
          else if sw_data sw = None \<and> 0 < sw_length sw then Inl NULL_DEREFERENCE
          else and_then (if sw_data sw \<noteq> None then ExFreePoolWithTag (sw_data sw) s1 else Inr s1)
            (\<lambda>s2.
               and_then (write_event ev (new_registry_event rq sw) s2) (\<lambda>s3.
               and_then (QueueRegistryEvent now ev s3) (\<lambda>(queued, s4).
               if queued then Inr s4 else ExFreePoolWithTag (Some ev) s4))))"

definition RegistryCallback ::
    "u32 \<Rightarrow> registry_request \<Rightarrow> rm_state \<Rightarrow> bugcheck + (ntstatus \<times> rm_state)" where
  "RegistryCallback now rq s =
     (case ExAllocatePoolWithTag (Raw 65534) s of
        (None, s1) \<Rightarrow> Inr (STATUS_SUCCESS, s1)
      | (Some b, s1) \<Rightarrow>
          and_then (registry_switch rq (empty_string 65534 (Some b)) s1) (\<lambda>(sw, s2).
          and_then (if sw_valid sw then make_registry_event now rq sw s2 else Inr s2) (\<lambda>s3.
          and_then (ExFreePoolWithTag (Some b) s3) (\<lambda>s4. Inr (STATUS_SUCCESS, s4)))))"

subsection \<open>Reading the events\<close>

text \<open>The request is number \<open>0x803\<close>.\<close>

definition IOCTL_CAPTURE_GET_REGEVENTS :: u32 where
  "IOCTL_CAPTURE_GET_REGEVENTS = CTL_CODE 0x22 0x803 3 3"

text \<open>The status, the bytes written at the start of the buffer, and the length reported.\<close>

definition HandleIoctlGetRegEvents ::
    "ioctl_request \<Rightarrow> rm_state \<Rightarrow> bugcheck + (ntstatus \<times> u8 list \<times> u32 \<times> rm_state)" where
  "HandleIoctlGetRegEvents rq s =
     (if io_null rq then Inr (STATUS_UNSUCCESSFUL, [], 0, s)
      else (case io_probe rq of
              Some code \<Rightarrow> Inr (code, [], 0, s)
            | None \<Rightarrow>
                if io_length rq \<ge> sizeof_REGISTRY_EVENT
                then and_then (drain_packets sizeof_REGISTRY_EVENT registry_event_size
                       registry_event_bytes (io_length rq) 0 [] (lQueuedRegistryEvents s) s)
                     (\<lambda>(out, used, q, s1).
                     Inr (STATUS_SUCCESS, out, used, s1\<lparr>lQueuedRegistryEvents := q\<rparr>))
                else Inr (STATUS_BUFFER_TOO_SMALL, [], sizeof_REGISTRY_EVENT, s)))"

definition rm_KDispatchIoctl ::
    "u32 \<Rightarrow> ioctl_request \<Rightarrow> rm_state \<Rightarrow> bugcheck + (ntstatus \<times> u8 list \<times> u32 \<times> rm_state)" where
  "rm_KDispatchIoctl now rq s =
     and_then (if io_code rq = IOCTL_CAPTURE_GET_REGEVENTS
               then HandleIoctlGetRegEvents rq (rm_UpdateLastContactTime now s)
               else Inr (STATUS_UNSUCCESSFUL, [], 0, s)) (\<lambda>(status, out, written, s1).
     Inr (status, out, if NT_SUCCESS status then written else 0, s1))"

text \<open>Opening and closing the device change nothing.\<close>

definition rm_KDispatchCreateClose :: "rm_state \<Rightarrow> ntstatus \<times> u32 \<times> rm_state" where
  "rm_KDispatchCreateClose s = (STATUS_SUCCESS, 0, s)"

subsection \<open>Loading and unloading\<close>

record rm_load_env =
  create_device :: ntstatus
  create_symlink :: ntstatus
  register_callback :: ntstatus

definition rm_DriverEntry :: "rm_load_env \<Rightarrow> u32 \<Rightarrow> rm_state \<Rightarrow> ntstatus \<times> rm_state" where
  "rm_DriverEntry env now s =
     (if \<not> NT_SUCCESS (create_device env) then (create_device env, s)
      else let s1 = s\<lparr>rm_device := True, rm_bReady := False\<rparr>
      in if \<not> NT_SUCCESS (create_symlink env) then (create_symlink env, s1\<lparr>rm_device := False\<rparr>)
      else let s2 = s1\<lparr>rm_symlink := True, lQueuedRegistryEvents := []\<rparr>
      in if \<not> NT_SUCCESS (register_callback env) then (register_callback env, s2)
      else (STATUS_SUCCESS, (rm_UpdateLastContactTime now s2)
              \<lparr>rm_callback := True, rm_timer := True, rm_bReady := True\<rparr>))"

definition rm_UnloadDriver :: "rm_state \<Rightarrow> bugcheck + rm_state" where
  "rm_UnloadDriver s =
     (let s1 = (if rm_bReady s then s\<lparr>rm_timer := False, rm_callback := False, rm_bReady := False\<rparr>
                else s)
      in and_then (rm_free_queue s1) (\<lambda>s2. Inr (s2\<lparr>rm_symlink := False, rm_device := False\<rparr>)))"

end
