(* ===== verification/QueueOwner.thy ===== *)
theory QueueOwner
  imports EventQueue
begin

text \<open>
  What a driver that keeps a queue owns: the blocks of the queue and the blocks \<open>X\<close> it has
  in hand. \<open>queue_inv\<close> says that they are live and apart, and, in the strict reading, that
  they are all the live blocks there are. The lemmas say how each pool service moves a block
  in, out, or from the hand to the queue.
\<close>

definition queue_inv ::
    "bool \<Rightarrow> ('e, 'x) kpool_scheme \<Rightarrow> addr list \<Rightarrow> addr set \<Rightarrow> 'e list \<Rightarrow> bool" where
  "queue_inv strict k q X es \<longleftrightarrow>
     pool_wf k \<and> queue_rep k q es \<and> X \<inter> footprint k q = {} \<and> X \<subseteq> dom (blocks k) \<and>
     (strict \<longrightarrow> dom (blocks k) \<subseteq> footprint k q \<union> X)"

lemma queue_invD:
  assumes "queue_inv strict k q X es"
  shows "pool_wf k" and "queue_rep k q es" and "X \<inter> footprint k q = {}" and "X \<subseteq> dom (blocks k)"
    and "strict \<Longrightarrow> dom (blocks k) \<subseteq> footprint k q \<union> X"
  using assms by (auto simp: queue_inv_def)

text \<open>Only the blocks and the counter matter.\<close>

lemma queue_inv_cong:
  fixes k k' :: "('e, 'x) kpool_scheme"
  assumes "queue_inv strict k q X es" and "blocks k' = blocks k" and "ticks k' = ticks k"
  shows "queue_inv strict k' q X es"
proof -
  have "footprint k' q = footprint k q" using assms(2) by (intro footprint_frame) simp
  moreover have "queue_rep k' q es"
    using assms(2) by (intro queue_rep_frame [OF queue_invD(2) [OF assms(1)]]) simp
  ultimately show ?thesis using assms by (simp add: queue_inv_def pool_wf_def)
qed

lemma queue_inv_leak: "queue_inv strict k q X es \<Longrightarrow> Y \<subseteq> X \<Longrightarrow> queue_inv False k q Y es"
  by (auto simp: queue_inv_def)

lemma queue_inv_grows:
  assumes inv: "queue_inv strict k q X es" and g: "pool_grows k A k'"
  shows "queue_inv strict k' q (X \<union> A) es" and "X \<inter> A = {}"
proof -
  have fresh: "a \<in> A \<Longrightarrow> blocks k a = None" for a
    using pool_growsD(5) [OF g, of a] pool_wfD [OF queue_invD(1) [OF inv], of a] by simp
  have same: "blocks k a \<noteq> None \<Longrightarrow> blocks k' a = blocks k a" for a
    using fresh [of a] pool_growsD(3) [OF g, of a] by metis
  have live: "\<forall>a \<in> footprint k q. blocks k' a = blocks k a"
    using footprint_live [OF queue_invD(2) [OF inv]] same by blast
  then have fp: "footprint k' q = footprint k q"
    by (intro footprint_frame) (auto simp: footprint_def)
  have rep: "queue_rep k' q es" using queue_rep_frame [OF queue_invD(2) [OF inv] live] .
  show dis: "X \<inter> A = {}" using fresh queue_invD(4) [OF inv] by force
  have "A \<inter> footprint k q = {}"
    using fresh footprint_live [OF queue_invD(2) [OF inv]] by blast
  moreover have "X \<union> A \<subseteq> dom (blocks k')"
    using queue_invD(4) [OF inv] same pool_growsD(4) [OF g] by fastforce
  moreover have "dom (blocks k') \<subseteq> footprint k q \<union> (X \<union> A)" if strict
  proof
    fix a assume a: "a \<in> dom (blocks k')"
    show "a \<in> footprint k q \<union> (X \<union> A)"
    proof (cases "a \<in> A")
      case False
      then have "a \<in> dom (blocks k)" using a pool_growsD(3) [OF g, of a] by (simp add: dom_def)
      then show ?thesis using queue_invD(5) [OF inv that] by blast
    qed simp
  qed
  ultimately show "queue_inv strict k' q (X \<union> A) es"
    using pool_grows_wf [OF g queue_invD(1) [OF inv]] queue_invD(3) [OF inv] rep
    by (auto simp: queue_inv_def fp)
qed

lemma queue_inv_update:
  fixes k :: "('e, 'x) kpool_scheme"
  assumes inv: "queue_inv strict k q X es" and a: "a \<in> X"
  shows "queue_inv strict (k\<lparr>blocks := (blocks k)(a := None)\<rparr>) q (X - {a}) es"
    and "queue_inv strict (k\<lparr>blocks := (blocks k)(a \<mapsto> b)\<rparr>) q X es"
proof -
  have out: "a \<notin> footprint k q" using queue_invD(3) [OF inv] a by blast
  have frame: "footprint k' q = footprint k q \<and> queue_rep k' q es"
    if "\<forall>c. c \<noteq> a \<longrightarrow> blocks k' c = blocks k c" for k' :: "('e, 'x) kpool_scheme"
  proof
    show "footprint k' q = footprint k q"
      using out that by (intro footprint_frame) (auto simp: footprint_def)
    show "queue_rep k' q es"
      using out that by (intro queue_rep_frame [OF queue_invD(2) [OF inv]]) auto
  qed
  let ?k1 = "k\<lparr>blocks := (blocks k)(a := None)\<rparr>" and ?k2 = "k\<lparr>blocks := (blocks k)(a \<mapsto> b)\<rparr>"
  have f1: "footprint ?k1 q = footprint k q \<and> queue_rep ?k1 q es" by (rule frame) simp
  have f2: "footprint ?k2 q = footprint k q \<and> queue_rep ?k2 q es" by (rule frame) simp
  show "queue_inv strict ?k1 q (X - {a}) es"
    using inv f1 by (auto simp: queue_inv_def)
  have "pool_wf ?k2" using queue_invD(1,4) [OF inv] a by (auto simp: pool_wf_def)
  then show "queue_inv strict ?k2 q X es"
    using inv f2 a by (auto simp: queue_inv_def)
qed

lemma queue_inv_free:
  assumes inv: "queue_inv strict k q X es" and a: "a \<in> X"
  shows "\<exists>k'. ExFreePoolWithTag (Some a) k = Inr k' \<and> queue_inv strict k' q (X - {a}) es \<and>
    kpool.more k' = kpool.more k \<and> granted k' = granted k \<and>
    (\<forall>c. c \<noteq> a \<longrightarrow> blocks k' c = blocks k c)"
proof -
  obtain b where "blocks k a = Some b" using queue_invD(4) [OF inv] a by blast
  then show ?thesis using queue_inv_update(1) [OF inv a] by auto
qed

text \<open>A packet for an event in hand, appended to the queue.\<close>

lemma queue_inv_enqueue:
  assumes inv: "queue_inv strict k q X es" and ev: "ev \<in> X" "blocks k ev = Some (Event e)"
    and al: "ExAllocatePoolWithTag (Packet ev) k = (Some pk, k1)"
  shows "queue_inv strict k1 (q @ [pk]) (X - {ev}) (es @ [e])"
proof -
  have g: "pool_grows k {pk} k1" using pool_grows_alloc(1) [OF pool_grows_refl al] by simp
  have i1: "queue_inv strict k1 q (X \<union> {pk}) es" and "X \<inter> {pk} = {}"
    using queue_inv_grows [OF inv g] by blast+
  then have ne: "pk \<noteq> ev" "pk \<notin> X" using ev(1) by auto
  have b: "blocks k1 pk = Some (Packet ev)" "blocks k1 ev = Some (Event e)"
    using al ev(2) ne pool_growsD(3) [OF g, of ev]
    by (auto simp: ExAllocatePoolWithTag_def split: if_splits)
  have out: "pk \<notin> footprint k1 q" "ev \<notin> footprint k1 q"
    using queue_invD(3) [OF i1] ev(1) by blast+
  have "queue_rep k1 (q @ [pk]) (es @ [e])"
    by (rule queue_rep_snoc [OF queue_invD(2) [OF i1] b out])
  moreover have "footprint k1 (q @ [pk]) = footprint k1 q \<union> {pk, ev}"
    using b by (auto simp: footprint_append footprint_Cons)
  ultimately show ?thesis using i1 ev(1) ne by (auto simp: queue_inv_def)
qed

text \<open>Dropping the front part of the queue with its blocks.\<close>

lemma queue_inv_drop:
  assumes inv: "queue_inv strict k (p @ q) X es"
  shows "queue_inv strict (k\<lparr>blocks := blocks k |` (- footprint k p)\<rparr>) q X (drop (length p) es)"
proof -
  let ?k' = "k\<lparr>blocks := blocks k |` (- footprint k p)\<rparr>"
  have rep: "queue_rep k q (drop (length p) es)" and dis: "footprint k p \<inter> footprint k q = {}"
    using queue_rep_append [OF queue_invD(2) [OF inv] refl] by simp_all
  have all: "footprint k (p @ q) = footprint k p \<union> footprint k q" by (rule footprint_append)
  have same: "\<forall>a \<in> footprint k q. blocks ?k' a = blocks k a"
    using dis by (auto simp: restrict_map_def)
  then have fp: "footprint ?k' q = footprint k q"
    by (intro footprint_frame) (auto simp: footprint_def)
  show ?thesis
    using inv queue_rep_frame [OF rep same] all
    by (auto simp: queue_inv_def fp)
qed

end
