(* ===== verification/RegistryInvariant.thy ===== *)
theory RegistryInvariant
  imports RegistryDriver QueueOwner
begin

text \<open>
  The invariant of the registry driver, that every handler keeps it while allocations are
  served, and what each does to the queue.
\<close>

subsection \<open>The invariant\<close>

definition rm_inv :: "bool \<Rightarrow> rm_state \<Rightarrow> registry_event list \<Rightarrow> bool" where
  "rm_inv strict s es \<longleftrightarrow>
     queue_inv strict s (lQueuedRegistryEvents s) {} es \<and> (\<forall>e \<in> set es. registry_event_wf e)"

lemma rm_frame:
  fixes s s' :: rm_state
  assumes "kpool.more s' = kpool.more s"
  shows "lQueuedRegistryEvents s' = lQueuedRegistryEvents s"
    and "rm_lastContactTime s' = rm_lastContactTime s" and "rm_bReady s' = rm_bReady s"
  using assms by (cases s; cases s'; simp)+

text \<open>
  A notification the driver handles without harm: the data pointer shows as many bytes as
  the size says, or faults, and the size leaves room for the header and the path.
\<close>

definition rm_request_ok :: "registry_request \<Rightarrow> bool" where
  "rm_request_ok rq \<longleftrightarrow>
     (case rr_data rq of None \<Rightarrow> True | Some bs \<Rightarrow> length bs = unat (rr_data_size rq)) \<and>
     unat (rr_data_size rq) + 65574 < 2 ^ 32"

definition rm_leak_free :: "registry_request \<Rightarrow> bool" where
  "rm_leak_free rq \<longleftrightarrow> rr_type rq = RegNtPreSetValueKey \<longrightarrow> rr_data rq \<noteq> None"

subsection \<open>The name\<close>

lemma granted_extends: "pool_extends k A k' \<Longrightarrow> granted k' = granted k"
  by (simp add: pool_extends_def pool_grows_def)

lemma served:
  assumes "\<forall>n. granted k n" and "pool_wf k"
  obtains k1 where "ExAllocatePoolWithTag b k = (Some (ticks k), k1)"
    "pool_extends k {ticks k} k1" "\<forall>n. granted k1 n" "pool_wf k1"
proof -
  obtain k1 where al: "ExAllocatePoolWithTag b k = (Some (ticks k), k1)"
    using assms(1) by (auto simp: ExAllocatePoolWithTag_def)
  have e: "pool_extends k {ticks k} k1"
    using pool_extends_alloc(1) [OF pool_extends_refl al] by simp
  then have "\<forall>n. granted k1 n" "pool_wf k1"
    using assms granted_extends [OF e] pool_grows_wf by (auto simp: pool_extends_def)
  with al e that show ?thesis by blast
qed

lemma query_object_name_extends:
  assumes "\<forall>n. granted k n" and "pool_wf k" and "us_wf path"
  shows "\<exists>f p k'. query_object_name rq path k = Inr (f, p, k') \<and> pool_extends k {} k' \<and> us_wf p"
proof (cases "fst (rr_length rq) = STATUS_INFO_LENGTH_MISMATCH")
  case True
  obtain k1 where al: "ExAllocatePoolWithTag (Raw (unat (snd (rr_length rq)))) k = (Some (ticks k), k1)"
    and e1: "pool_extends k {ticks k} k1" using served [OF assms(1,2)] by blast
  obtain k2 where "ExFreePoolWithTag (Some (ticks k)) k1 = Inr k2" "pool_extends k {} k2"
    using pool_extends_free [OF e1 _ assms(2), of "ticks k"] by auto
  then show ?thesis
    using True al assms(3) by (simp add: query_object_name_def Let_def del: ExFreePoolWithTag.simps)
next
  case False
  then show ?thesis using assms(3)
    by (intro exI [of _ False] exI [of _ path] exI [of _ k]) (simp add: query_object_name_def)
qed

lemma CompleteName_extends:
  assumes "\<forall>n. granted k n" and "pool_wf k" and "us_wf path"
  shows "\<exists>r p k'. GetRegistryObjectCompleteName rq pp path k = Inr (r, p, k') \<and>
    pool_extends k {} k' \<and> us_wf p"
proof -
  let ?t = "case pp of None \<Rightarrow> Some False | Some p \<Rightarrow> looks_complete (Chars p @ rr_beyond rq)"
  obtain f p k' where q: "query_object_name rq path k = Inr (f, p, k')" "pool_extends k {} k'" "us_wf p"
    using query_object_name_extends [OF assms] by blast
  consider (invalid) "\<not> rr_object_valid rq" | (fault) "rr_object_valid rq" "?t = None"
    | (complete) "rr_object_valid rq" "?t = Some True" | (query) "rr_object_valid rq" "?t = Some False"
    by (metis (full_types) option.exhaust)
  then show ?thesis
  proof cases
    case invalid
    then show ?thesis using assms(3)
      by (intro exI [of _ "Some False"] exI [of _ path] exI [of _ k])
         (simp add: GetRegistryObjectCompleteName_def)
  next
    case fault
    then show ?thesis using assms(3)
      by (intro exI [of _ None] exI [of _ path] exI [of _ k])
         (simp add: GetRegistryObjectCompleteName_def)
  next
    case complete
    then show ?thesis using assms(3)
      by (intro exI [of _ "Some True"] exI [of _ "RtlUnicodeStringCopy path (the pp)"] exI [of _ k])
         (simp add: GetRegistryObjectCompleteName_def us_wf_Copy)
  next
    case query
    then show ?thesis using q by (simp add: GetRegistryObjectCompleteName_def)
  qed
qed

lemma append_value_name_wf [simp, intro]: "us_wf p \<Longrightarrow> us_wf (append_value_name rq p)"
  by (simp add: append_value_name_def)

subsection \<open>The switch\<close>

text \<open>What the switch leaves: a valid event has its data in hand, and an abandoned block is
  there only if the copy of the data faulted.\<close>

definition switch_ok :: "registry_request \<Rightarrow> switch_result \<Rightarrow> bool" where
  "switch_ok rq sw \<longleftrightarrow>
     us_wf (sw_path sw) \<and>
     (sw_data sw = None \<longrightarrow> sw_length sw = 0) \<and>
     (sw_data sw \<noteq> None \<longrightarrow> sw_length sw = rr_data_size rq \<and>
        rr_type rq = RegNtPreSetValueKey \<and> (sw_valid sw \<longleftrightarrow> rr_data rq \<noteq> None))"

lemma switch_ok_no_event [simp]: "us_wf p \<Longrightarrow> switch_ok rq (no_event p)"
  by (simp add: switch_ok_def no_event_def)

lemma named_key_extends:
  fixes s :: rm_state
  assumes "\<forall>n. granted s n" and "pool_wf s" and "us_wf path"
  shows "\<exists>sw s'. named_key rq pp wv ty path s = Inr (sw, s') \<and>
    pool_extends s (set_option (sw_data sw)) s' \<and> switch_ok rq sw"
proof -
  obtain r p s' where g: "GetRegistryObjectCompleteName rq pp path s = Inr (r, p, s')"
    "pool_extends s {} s'" "us_wf p" using CompleteName_extends [OF assms] by blast
  let ?named = "wv \<and> r = Some True \<and> 0 < Length (rr_value_name rq)"
  let ?sw = "\<lparr>sw_valid = (r = Some True), sw_path = (if ?named then append_value_name rq p else p),
    sw_data = None, sw_length = 0, sw_type = (if wv \<and> \<not> ?named then 0 else ty)\<rparr>"
  have "named_key rq pp wv ty path s = Inr (?sw, s')" using g by (simp add: named_key_def Let_def)
  moreover have "switch_ok rq ?sw" using g by (simp add: switch_ok_def append_value_name_wf)
  ultimately show ?thesis using g by (intro exI [of _ ?sw] exI [of _ s']) simp
qed

lemma set_value_key_extends:
  fixes s :: rm_state
  assumes "\<forall>n. granted s n" and "pool_wf s" and "us_wf path"
    and "rr_type rq = RegNtPreSetValueKey"
  shows "\<exists>sw s'. set_value_key rq path s = Inr (sw, s') \<and>
    pool_extends s (set_option (sw_data sw)) s' \<and> switch_ok rq sw"
proof -
  obtain r p s1 where g: "GetRegistryObjectCompleteName rq None path s = Inr (r, p, s1)"
    "pool_extends s {} s1" "us_wf p" using CompleteName_extends [OF assms(1-3)] by blast
  have s1: "\<forall>n. granted s1 n" "pool_wf s1"
    using assms(1,2) granted_extends [OF g(2)] g(2) pool_grows_wf by (auto simp: pool_extends_def)
  show ?thesis
  proof (cases "r = Some True \<and> 0 < Length (rr_value_name rq)")
    case True
    obtain s2 where al: "ExAllocatePoolWithTag (Raw (unat (rr_data_size rq))) s1 = (Some (ticks s1), s2)"
      and e: "pool_extends s1 {ticks s1} s2" using served [OF s1] by blast
    let ?d = "ticks s1"
    let ?sw = "\<lparr>sw_valid = (rr_data rq \<noteq> None),
      sw_path = (if rr_data rq = None then p else append_value_name rq p),
      sw_data = Some ?d, sw_length = rr_data_size rq, sw_type = rr_data_type rq\<rparr>"
    have "set_value_key rq path s = Inr (?sw, s2)"
      using g True al by (cases "rr_data rq") (simp_all add: set_value_key_def)
    moreover have "switch_ok rq ?sw" using g(3) assms(4) by (simp add: switch_ok_def append_value_name_wf)
    moreover have "pool_extends s {?d} s2" using pool_extends_seq(1) [OF g(2) e] by simp
    ultimately show ?thesis by (intro exI [of _ ?sw] exI [of _ s2]) simp
  next
    case False
    let ?sw = "\<lparr>sw_valid = (r = Some True), sw_path = p, sw_data = None, sw_length = 0, sw_type = 0\<rparr>"
    have "set_value_key rq path s = Inr (?sw, s1)"
      using g False by (auto simp: set_value_key_def)
    moreover have "switch_ok rq ?sw" using g(3) by (simp add: switch_ok_def)
    ultimately show ?thesis using g(2) by (intro exI [of _ ?sw] exI [of _ s1]) simp
  qed
qed

lemma registry_switch_extends:
  fixes s :: rm_state
  assumes "\<forall>n. granted s n" and "pool_wf s" and "us_wf path"
  shows "\<exists>sw s'. registry_switch rq path s = Inr (sw, s') \<and>
    pool_extends s (set_option (sw_data sw)) s' \<and> switch_ok rq sw"
proof -
  have none: "\<exists>sw s'. Inr (no_event path, s) = (Inr (sw, s') :: bugcheck + _) \<and>
      pool_extends s (set_option (sw_data sw)) s' \<and> switch_ok rq sw"
    using assms(3) by (intro exI [of _ "no_event path"] exI [of _ s]) (simp, simp add: no_event_def)
  note named = named_key_extends [OF assms]
  show ?thesis
  proof (cases "rr_fault rq")
    case True
    then show ?thesis using none by (simp add: registry_switch_def)
  next
    case False
    show ?thesis
    proof (cases "rr_type rq = RegNtPreSetValueKey")
      case True
      from set_value_key_extends [OF assms True] False True show ?thesis
        by (simp add: registry_switch_def)
    next
      case other: False
      then show ?thesis using False none named
        by (cases "rr_type rq") (simp_all add: registry_switch_def)
    qed
  qed
qed

subsection \<open>The event\<close>

lemma new_registry_event_parts:
  assumes ok: "switch_ok rq sw" and v: "sw_valid sw" and rq: "rm_request_ok rq"
  shows "registry_event_wf (new_registry_event rq sw)"
    and "unat (event_block_size sw) = 36 + unat (Length (sw_path sw)) + 2 + unat (sw_length sw)"
    and "registryData (new_registry_event rq sw) = wchars_bytes (Chars (sw_path sw)) @ [0, 0] @
      (if sw_data sw = None then [] else the (rr_data rq))"
proof -
  let ?L = "unat (Length (sw_path sw))"
  have up: "us_wf (sw_path sw)" using ok by (simp add: switch_ok_def)
  have L: "?L = 2 * length (Chars (sw_path sw))" using us_wf_length [OF up] .
  have Lb: "?L \<le> 65535" using unat_u16_bound [of "Length (sw_path sw)"] by linarith
  have small: "unat (sw_length sw) + 65574 < 2 ^ 32"
    using ok rq by (cases "sw_data sw") (auto simp: switch_ok_def rm_request_ok_def)
  have bs: "take (unat (sw_length sw)) (the (rr_data rq)) = the (rr_data rq) \<and>
      length (the (rr_data rq)) = unat (sw_length sw)" if "sw_data sw \<noteq> None"
    using ok rq that v by (auto simp: switch_ok_def rm_request_ok_def split: option.splits)
  have z: "unat (sw_length sw) = 0" if "sw_data sw = None" using ok that by (simp add: switch_ok_def)
  show data: "registryData (new_registry_event rq sw) = wchars_bytes (Chars (sw_path sw)) @ [0, 0] @
      (if sw_data sw = None then [] else the (rr_data rq))"
    using bs by (auto simp: new_registry_event_def L split: option.splits)
  have len: "length (registryData (new_registry_event rq sw)) = ?L + 2 + unat (sw_length sw)"
    unfolding data using L z bs by simp
  have p: "unat (of_nat (?L + 2) :: u32) = ?L + 2"
    by (rule unat_of_nat_le32) (use Lb in linarith)
  have "36 + (?L + 2 + unat (sw_length sw)) < 2 ^ 32" using small Lb by linarith
  then show "registry_event_wf (new_registry_event rq sw)"
    using len p by (simp add: registry_event_wf_def new_registry_event_def)
  have l: "unat (of_nat ?L :: u32) = ?L"
    by (rule unat_of_nat_le32) (use Lb in linarith)
  have "unat sizeof_REGISTRY_EVENT = 36" by (simp add: sizeof_REGISTRY_EVENT_def)
  then have a: "unat (sizeof_REGISTRY_EVENT + of_nat ?L) = 36 + ?L"
    using unat_u32_add [of sizeof_REGISTRY_EVENT "of_nat ?L"] l Lb by simp
  then have b: "unat (sizeof_REGISTRY_EVENT + of_nat ?L + 2) = 36 + ?L + 2"
    using unat_u32_add [of "sizeof_REGISTRY_EVENT + of_nat ?L" 2] Lb by simp
  then show "unat (event_block_size sw) = 36 + ?L + 2 + unat (sw_length sw)"
    unfolding event_block_size_def
    using unat_u32_add [of "sizeof_REGISTRY_EVENT + of_nat ?L + 2" "sw_length sw"] small Lb by simp
qed

text \<open>The event replaces the data block in hand and is queued, or freed when user space is silent.\<close>

lemma make_registry_event_inv:
  assumes inv: "queue_inv strict s (lQueuedRegistryEvents s) X es" and all: "\<forall>n. granted s n"
    and ok: "switch_ok rq sw" and v: "sw_valid sw" and rq: "rm_request_ok rq"
    and d: "set_option (sw_data sw) \<subseteq> X"
  shows "\<exists>s'. make_registry_event now rq sw s = Inr s' \<and> granted s' = granted s \<and>
    rm_lastContactTime s' = rm_lastContactTime s \<and>
    queue_inv strict s' (lQueuedRegistryEvents s') (X - set_option (sw_data sw))
      (if now - rm_lastContactTime s \<le> RM_CONNECTION_TIMEOUT
       then es @ [new_registry_event rq sw] else es)"
proof -
  let ?q = "lQueuedRegistryEvents s" and ?e = "new_registry_event rq sw"
  note parts = new_registry_event_parts [OF ok v rq]
  obtain s1 where al: "ExAllocatePoolWithTag (Event (rr_garbage rq)) s = (Some (ticks s), s1)"
    and e1: "pool_extends s {ticks s} s1" and g1: "\<forall>n. granted s1 n"
    using served [OF all queue_invD(1) [OF inv]] by blast
  let ?ev = "ticks s"
  have i1: "queue_inv strict s1 ?q (X \<union> {?ev}) es" and new: "?ev \<notin> X"
    using queue_inv_grows [OF inv, of "{?ev}" s1] e1 by (simp_all add: pool_extends_def)
  have b1: "blocks s1 ?ev = Some (Event (rr_garbage rq))"
    using al by (auto simp: ExAllocatePoolWithTag_def split: if_splits)
  have "\<exists>s2. (if sw_data sw \<noteq> None then ExFreePoolWithTag (sw_data sw) s1 else Inr s1) = Inr s2 \<and>
      queue_inv strict s2 ?q (X \<union> {?ev} - set_option (sw_data sw)) es \<and>
      kpool.more s2 = kpool.more s1 \<and> granted s2 = granted s1 \<and>
      blocks s2 ?ev = Some (Event (rr_garbage rq))"
  proof (cases "sw_data sw")
    case None
    then show ?thesis using i1 b1 by simp
  next
    case (Some x)
    then have "x \<in> X \<union> {?ev}" "x \<noteq> ?ev" using d new by auto
    with queue_inv_free [OF i1, of x] Some b1 show ?thesis
      by (auto simp del: ExFreePoolWithTag.simps)
  qed
  then obtain s2 where s2: "(if sw_data sw \<noteq> None then ExFreePoolWithTag (sw_data sw) s1 else Inr s1) = Inr s2"
    and i2: "queue_inv strict s2 ?q (X \<union> {?ev} - set_option (sw_data sw)) es"
    and m2: "kpool.more s2 = kpool.more s1" and g2: "granted s2 = granted s1"
    and b2: "blocks s2 ?ev = Some (Event (rr_garbage rq))" by blast
  have X: "X \<union> {?ev} - set_option (sw_data sw) = insert ?ev (X - set_option (sw_data sw))"
    using new d by auto
  let ?s3 = "s2\<lparr>blocks := (blocks s2)(?ev \<mapsto> Event ?e)\<rparr>"
  have w: "write_event ?ev ?e s2 = Inr ?s3" by (rule write_event_live [OF b2])
  have i3: "queue_inv strict ?s3 ?q (insert ?ev (X - set_option (sw_data sw))) es"
    by (rule queue_inv_update(2) [OF i2 [unfolded X]]) simp
  have f3: "lQueuedRegistryEvents ?s3 = ?q" "rm_lastContactTime ?s3 = rm_lastContactTime s"
    using rm_frame [of ?s3 s] m2 e1 by (simp_all add: pool_extends_def)
  have pre: "make_registry_event now rq sw s = and_then (QueueRegistryEvent now ?ev ?s3) (\<lambda>(queued, s4).
      if queued then Inr s4 else ExFreePoolWithTag (Some ?ev) s4)"
    using al parts(2) s2 w ok
    by (auto simp: make_registry_event_def switch_ok_def simp del: ExFreePoolWithTag.simps)
  show ?thesis
  proof (cases "now - rm_lastContactTime s \<le> RM_CONNECTION_TIMEOUT")
    case True
    obtain s4 where al4: "ExAllocatePoolWithTag (Packet ?ev) ?s3 = (Some (ticks ?s3), s4)"
      using g1 g2 by (auto simp: ExAllocatePoolWithTag_def)
    have i4: "queue_inv strict s4 (?q @ [ticks ?s3])
        (insert ?ev (X - set_option (sw_data sw)) - {?ev}) (es @ [?e])"
      by (rule queue_inv_enqueue [OF i3 _ _ al4]) simp_all
    let ?s5 = "s4\<lparr>lQueuedRegistryEvents := lQueuedRegistryEvents s4 @ [ticks ?s3]\<rparr>"
    have f4: "lQueuedRegistryEvents s4 = ?q" "rm_lastContactTime s4 = rm_lastContactTime s"
      using rm_frame [of s4 ?s3] more_alloc [OF al4] f3 by simp_all
    have "queue_inv strict ?s5 (?q @ [ticks ?s3])
        (insert ?ev (X - set_option (sw_data sw)) - {?ev}) (es @ [?e])"
      by (rule queue_inv_cong [OF i4]) simp_all
    moreover have "insert ?ev (X - set_option (sw_data sw)) - {?ev} = X - set_option (sw_data sw)"
      using new by auto
    moreover have "granted s4 = granted s"
      using al4 g2 granted_extends [OF e1] by (auto simp: ExAllocatePoolWithTag_def split: if_splits)
    moreover have "QueueRegistryEvent now ?ev ?s3 = Inr (True, ?s5)"
      using True al4 f3 by (simp add: QueueRegistryEvent_def)
    ultimately show ?thesis using pre True f4 by simp
  next
    case False
    have "QueueRegistryEvent now ?ev ?s3 = Inr (False, ?s3)"
      using False f3(2) by (simp add: QueueRegistryEvent_def)
    moreover obtain s5 where "ExFreePoolWithTag (Some ?ev) ?s3 = Inr s5"
      "queue_inv strict s5 ?q (insert ?ev (X - set_option (sw_data sw)) - {?ev}) es"
      "kpool.more s5 = kpool.more ?s3" "granted s5 = granted ?s3"
      using queue_inv_free [OF i3, of ?ev] by auto
    moreover have "insert ?ev (X - set_option (sw_data sw)) - {?ev} = X - set_option (sw_data sw)"
      using new by auto
    ultimately show ?thesis
      using pre False f3 rm_frame [of s5 ?s3] g2 granted_extends [OF e1]
      by (simp del: ExFreePoolWithTag.simps)
  qed
qed

end
