(* ===== verification/RegistrySystem.thy ===== *)
theory RegistrySystem
  imports RegistryInvariant
begin

text \<open>
  The registry driver's handlers on states of the invariant, its reachable states, and the
  driver as a provider of the polled interface.
\<close>

subsection \<open>The callback\<close>

text \<open>The path a notification is given, and the event made from it.\<close>

lemma RegistryCallback_inv:
  assumes inv: "rm_inv strict s es" and all: "\<forall>n. granted s n" and rq: "rm_request_ok rq"
    and leak: "strict \<longrightarrow> rm_leak_free rq"
  shows "\<exists>s' es'. RegistryCallback now rq s = Inr (STATUS_SUCCESS, s') \<and> rm_inv strict s' es' \<and>
    granted s' = granted s \<and> rm_lastContactTime s' = rm_lastContactTime s \<and>
    (es' = es \<or> now - rm_lastContactTime s \<le> RM_CONNECTION_TIMEOUT \<and>
      (\<exists>b s1 sw s2. registry_switch rq (empty_string 65534 (Some b)) s1 = Inr (sw, s2) \<and>
         sw_valid sw \<and> granted s1 = granted s \<and> pool_wf s1 \<and>
         es' = es @ [new_registry_event rq sw]))"
proof -
  let ?q = "lQueuedRegistryEvents s"
  have qi: "queue_inv strict s ?q {} es" using inv by (simp add: rm_inv_def)
  obtain s1 where al: "ExAllocatePoolWithTag (Raw 65534) s = (Some (ticks s), s1)"
    and e1: "pool_extends s {ticks s} s1" and g1: "\<forall>n. granted s1 n" and w1: "pool_wf s1"
    using served [OF all queue_invD(1) [OF qi]] by blast
  let ?b = "ticks s"
  have gr1: "granted s1 = granted s" using granted_extends [OF e1] .
  have u0: "us_wf (empty_string 65534 (Some ?b))" by (rule us_wf_empty_string) simp_all
  obtain sw s2 where sw: "registry_switch rq (empty_string 65534 (Some ?b)) s1 = Inr (sw, s2)"
    and e2: "pool_extends s1 (set_option (sw_data sw)) s2" and ok: "switch_ok rq sw"
    using registry_switch_extends [OF g1 w1 u0] by blast
  let ?D = "set_option (sw_data sw)"
  have e12: "pool_extends s ({?b} \<union> ?D) s2" and bD: "?b \<notin> ?D"
    using pool_extends_seq [OF e1 e2] by auto
  have f2: "lQueuedRegistryEvents s2 = ?q" "rm_lastContactTime s2 = rm_lastContactTime s"
    using rm_frame [of s2 s] e12 by (simp_all add: pool_extends_def)
  have gr2: "granted s2 = granted s" using granted_extends [OF e12] .
  have i2: "queue_inv strict s2 (lQueuedRegistryEvents s2) ({?b} \<union> ?D) es"
    using queue_inv_grows(1) [OF qi] e12 f2 by (simp add: pool_extends_def)
  have "\<exists>s3 es'. (if sw_valid sw then make_registry_event now rq sw s2 else Inr s2) = Inr s3 \<and>
      granted s3 = granted s \<and> rm_lastContactTime s3 = rm_lastContactTime s \<and>
      queue_inv strict s3 (lQueuedRegistryEvents s3) {?b} es' \<and>
      (es' = es \<or> sw_valid sw \<and> now - rm_lastContactTime s \<le> RM_CONNECTION_TIMEOUT \<and>
         es' = es @ [new_registry_event rq sw])"
  proof (cases "sw_valid sw")
    case True
    have "\<forall>n. granted s2 n" using all gr2 by simp
    moreover have "{?b} \<union> ?D - ?D = {?b}" using bD by auto
    ultimately show ?thesis
      using make_registry_event_inv [OF i2 _ ok True rq, of now] True f2 gr2
      by (cases "now - rm_lastContactTime s \<le> RM_CONNECTION_TIMEOUT") auto
  next
    case False
    have "queue_inv strict s2 (lQueuedRegistryEvents s2) {?b} es"
    proof (cases strict)
      case True
      then have "sw_data sw = None"
        using leak False ok by (auto simp: rm_leak_free_def switch_ok_def)
      then show ?thesis using i2 by simp
    next
      case weak: False
      then show ?thesis using queue_inv_leak [OF i2, of "{?b}"] by simp
    qed
    then show ?thesis using False f2 gr2 by simp
  qed
  then obtain s3 es' where
    s3: "(if sw_valid sw then make_registry_event now rq sw s2 else Inr s2) = Inr s3"
    and g3: "granted s3 = granted s" "rm_lastContactTime s3 = rm_lastContactTime s"
    and i3: "queue_inv strict s3 (lQueuedRegistryEvents s3) {?b} es'"
    and es': "es' = es \<or> sw_valid sw \<and> now - rm_lastContactTime s \<le> RM_CONNECTION_TIMEOUT \<and>
       es' = es @ [new_registry_event rq sw]" by blast
  obtain s4 where s4: "ExFreePoolWithTag (Some ?b) s3 = Inr s4"
    "queue_inv strict s4 (lQueuedRegistryEvents s3) ({?b} - {?b}) es'"
    "kpool.more s4 = kpool.more s3" "granted s4 = granted s3"
    using queue_inv_free [OF i3, of ?b] by auto
  have f4: "lQueuedRegistryEvents s4 = lQueuedRegistryEvents s3"
    "rm_lastContactTime s4 = rm_lastContactTime s"
    using rm_frame [OF s4(3)] g3(2) by simp_all
  have "\<forall>e \<in> set es'. registry_event_wf e"
    using es' inv new_registry_event_parts(1) [OF ok _ rq] by (auto simp: rm_inv_def)
  then have i4: "rm_inv strict s4 es'" using s4(2) f4 by (simp add: rm_inv_def)
  have run: "RegistryCallback now rq s = Inr (STATUS_SUCCESS, s4)"
    using al sw s3 s4(1) by (simp add: RegistryCallback_def del: ExFreePoolWithTag.simps)
  show ?thesis
    using run i4 f4(2) g3 s4(4) es' sw gr1 w1
    by (intro exI [of _ s4] exI [of _ es']) metis
qed

subsection \<open>The other handlers\<close>

lemma rm_drain:
  assumes inv: "rm_inv strict s es"
    and d: "drain_events (\<lambda>e. unat (registry_event_size e)) (unat space) es = (d, r)"
  shows "\<exists>s'. drain_packets sizeof_REGISTRY_EVENT registry_event_size registry_event_bytes space 0 []
      (lQueuedRegistryEvents s) s = Inr (concat (map registry_event_bytes d),
        of_nat (sum_list (map (\<lambda>e. unat (registry_event_size e)) d)),
        drop (length d) (lQueuedRegistryEvents s), s') \<and>
    rm_inv strict (s'\<lparr>lQueuedRegistryEvents := drop (length d) (lQueuedRegistryEvents s)\<rparr>) r \<and>
    rm_lastContactTime s' = rm_lastContactTime s \<and> granted s' = granted s"
proof -
  let ?q = "lQueuedRegistryEvents s"
  have qi: "queue_inv strict s ?q {} es" and wf: "\<forall>e \<in> set es. registry_event_wf e"
    using inv by (simp_all add: rm_inv_def)
  have sizes: "\<forall>e \<in> set es. sizeof_REGISTRY_EVENT \<le> registry_event_size e \<and>
      unat (registry_event_size e) = length (registry_event_bytes e)"
    using wf sizeof_le_registry_event_size registry_event_size_bytes by blast
  let ?s1 = "s\<lparr>blocks := blocks s |` (- footprint s (take (length d) ?q))\<rparr>"
  have "drain_packets sizeof_REGISTRY_EVENT registry_event_size registry_event_bytes space 0 [] ?q s =
    Inr ([] @ concat (map registry_event_bytes d),
      0 + of_nat (sum_list (map (\<lambda>e. unat (registry_event_size e)) d)), drop (length d) ?q, ?s1)"
    by (rule drain_packets_rep [OF queue_invD(2) [OF qi] sizes])
       (use d in \<open>simp_all add: sizeof_REGISTRY_EVENT_def\<close>)
  moreover have es: "es = d @ r" using drain_events_split [OF d] .
  then have len: "length (take (length d) ?q) = length d"
    using queue_rep_length [OF queue_invD(2) [OF qi]] by simp
  have "queue_inv strict ?s1 (drop (length d) ?q) {} (drop (length (take (length d) ?q)) es)"
    by (rule queue_inv_drop) (use qi in simp)
  then have "queue_inv strict ?s1 (drop (length d) ?q) {} r" using es len by simp
  then have "queue_inv strict (?s1\<lparr>lQueuedRegistryEvents := drop (length d) ?q\<rparr>) (drop (length d) ?q) {} r"
    by (rule queue_inv_cong) simp_all
  moreover have "\<forall>e \<in> set r. registry_event_wf e" using wf es by simp
  ultimately show ?thesis by (simp add: rm_inv_def)
qed

lemma rm_free_queue_inv:
  assumes "rm_inv strict s es"
  shows "\<exists>s'. rm_free_queue s = Inr s' \<and> rm_inv strict s' [] \<and>
    rm_lastContactTime s' = rm_lastContactTime s \<and> granted s' = granted s \<and>
    lQueuedRegistryEvents s' = [] \<and> (strict \<longrightarrow> blocks s' = Map.empty) \<and>
    (rm_callback s' \<longleftrightarrow> rm_callback s) \<and> (rm_timer s' \<longleftrightarrow> rm_timer s)"
proof -
  let ?q = "lQueuedRegistryEvents s"
  have qi: "queue_inv strict s (?q @ []) {} es" using assms by (simp add: rm_inv_def)
  let ?s1 = "s\<lparr>blocks := blocks s |` (- footprint s ?q)\<rparr>"
  have run: "rm_free_queue s = Inr (?s1\<lparr>lQueuedRegistryEvents := []\<rparr>)"
    using free_packets_rep [OF queue_invD(2) [OF qi]] by (simp add: rm_free_queue_def)
  have len: "length ?q = length es" using queue_rep_length [OF queue_invD(2) [OF qi]] by simp
  have "queue_inv strict ?s1 [] {} []" using queue_inv_drop [OF qi] len by simp
  then have i: "queue_inv strict (?s1\<lparr>lQueuedRegistryEvents := []\<rparr>) [] {} []"
    by (rule queue_inv_cong) simp_all
  have "blocks ?s1 = Map.empty" if strict
  proof -
    have "dom (blocks ?s1) \<subseteq> {}" using queue_invD(5) [OF i that] by simp
    then show ?thesis by (simp only: subset_empty dom_eq_empty_conv)
  qed
  with run i show ?thesis by (simp add: rm_inv_def)
qed

lemma rm_ConnectionChecker_inv:
  assumes "rm_inv strict s es"
  shows "\<exists>s'. rm_ConnectionChecker now s = Inr s' \<and> granted s' = granted s \<and>
    rm_inv strict s' (if now - rm_lastContactTime s > 15 then [] else es)"
proof -
  have "RM_CONNECTION_TIMEOUT + RM_CONNECTION_TIMEOUT div 2 = 15"
    by (simp add: RM_CONNECTION_TIMEOUT_def)
  with rm_free_queue_inv [OF assms] assms show ?thesis by (auto simp: rm_ConnectionChecker_def)
qed

lemma rm_inv_contact [simp]:
  "rm_inv strict (s\<lparr>rm_lastContactTime := t\<rparr>) es = rm_inv strict s es"
  using queue_inv_cong [of strict s "lQueuedRegistryEvents s" "{}" es "s\<lparr>rm_lastContactTime := t\<rparr>"]
    queue_inv_cong [of strict "s\<lparr>rm_lastContactTime := t\<rparr>" "lQueuedRegistryEvents s" "{}" es s]
  by (auto simp: rm_inv_def)

text \<open>Any device control request is answered and keeps the invariant.\<close>

lemma rm_KDispatchIoctl_inv:
  assumes inv: "rm_inv strict s es"
  shows "\<exists>st out n s' es'. rm_KDispatchIoctl now rq s = Inr (st, out, n, s') \<and>
    rm_inv strict s' es' \<and> granted s' = granted s"
proof -
  let ?s1 = "rm_UpdateLastContactTime now s"
  have i1: "rm_inv strict ?s1 es" using inv by (simp add: rm_UpdateLastContactTime_def)
  obtain d r where d: "drain_events (\<lambda>e. unat (registry_event_size e)) (unat (io_length rq)) es = (d, r)"
    by (cases "drain_events (\<lambda>e. unat (registry_event_size e)) (unat (io_length rq)) es")
  have g1: "granted ?s1 = granted s" by (simp add: rm_UpdateLastContactTime_def)
  have "\<exists>st out n s' es'. HandleIoctlGetRegEvents rq ?s1 = Inr (st, out, n, s') \<and>
      rm_inv strict s' es' \<and> granted s' = granted s"
  proof (cases "\<not> io_null rq \<and> io_probe rq = None \<and> io_length rq \<ge> sizeof_REGISTRY_EVENT")
    case True
    then show ?thesis using rm_drain [OF i1 d] g1 by (auto simp: HandleIoctlGetRegEvents_def)
  next
    case False
    then show ?thesis using i1 g1 by (auto simp: HandleIoctlGetRegEvents_def split: option.splits)
  qed
  then show ?thesis using inv by (auto simp: rm_KDispatchIoctl_def)
qed

subsection \<open>Reachable states\<close>

datatype rm_input =
    Notify u32 registry_request
  | Ioctl u32 ioctl_request
  | CreateClose
  | RmTick u32

fun rm_exec :: "rm_input \<Rightarrow> rm_state \<Rightarrow> bugcheck + rm_state" where
  "rm_exec (Notify now rq) s = and_then (RegistryCallback now rq s) (\<lambda>(st, s'). Inr s')"
| "rm_exec (Ioctl now rq) s = and_then (rm_KDispatchIoctl now rq s) (\<lambda>(st, out, n, s'). Inr s')"
| "rm_exec CreateClose s = Inr (snd (snd (rm_KDispatchCreateClose s)))"
| "rm_exec (RmTick now) s = rm_ConnectionChecker now s"

fun rm_allowed :: "bool \<Rightarrow> rm_input \<Rightarrow> rm_state \<Rightarrow> bool" where
  "rm_allowed strict (Notify now rq) s \<longleftrightarrow>
     rm_request_ok rq \<and> (\<forall>n. granted s n) \<and> (strict \<longrightarrow> rm_leak_free rq)"
| "rm_allowed strict _ s \<longleftrightarrow> True"

lemma rm_exec_inv:
  assumes "rm_inv strict s es" and "rm_allowed strict i s"
  shows "\<exists>s' es'. rm_exec i s = Inr s' \<and> rm_inv strict s' es' \<and> granted s' = granted s"
proof (cases i)
  case (Notify now rq)
  then obtain s' es' where "RegistryCallback now rq s = Inr (STATUS_SUCCESS, s')"
    "rm_inv strict s' es'" "granted s' = granted s"
    using RegistryCallback_inv [OF assms(1), of rq now] assms(2) by auto
  then show ?thesis using Notify by auto
next
  case (Ioctl now rq)
  then show ?thesis using rm_KDispatchIoctl_inv [OF assms(1), of now rq] by auto
next
  case CreateClose
  then show ?thesis using assms(1) by (auto simp: rm_KDispatchCreateClose_def)
next
  case (RmTick now)
  then show ?thesis using rm_ConnectionChecker_inv [OF assms(1), of now] by auto
qed

definition rm_image_loaded :: "rm_state \<Rightarrow> bool" where
  "rm_image_loaded s \<longleftrightarrow> blocks s = Map.empty \<and> \<not> rm_device s \<and> \<not> rm_symlink s \<and>
     \<not> rm_callback s \<and> \<not> rm_timer s \<and> \<not> rm_bReady s"

lemma rm_DriverEntry_inv:
  assumes "rm_image_loaded s" and "rm_DriverEntry env now s = (st, s')" and "rm_bReady s'"
  shows "rm_inv strict s' [] \<and> rm_lastContactTime s' = now \<and> granted s' = granted s"
proof -
  have "s' = (rm_UpdateLastContactTime now (s\<lparr>rm_device := True, rm_bReady := False,
      rm_symlink := True, lQueuedRegistryEvents := []\<rparr>))
      \<lparr>rm_callback := True, rm_timer := True, rm_bReady := True\<rparr>"
    using assms by (auto simp: rm_DriverEntry_def rm_image_loaded_def Let_def split: if_splits)
  then show ?thesis using assms(1)
    by (simp add: rm_inv_def queue_inv_def pool_wf_def rm_UpdateLastContactTime_def rm_image_loaded_def)
qed

inductive rm_reachable :: "bool \<Rightarrow> rm_state \<Rightarrow> bool" for strict where
  rm_load: "rm_image_loaded s \<Longrightarrow> rm_DriverEntry env now s = (st, s') \<Longrightarrow> rm_bReady s' \<Longrightarrow>
     rm_reachable strict s'"
| rm_call: "rm_reachable strict s \<Longrightarrow> rm_allowed strict i s \<Longrightarrow> rm_exec i s = Inr s' \<Longrightarrow>
     rm_reachable strict s'"

lemma rm_reachable_inv: "rm_reachable strict s \<Longrightarrow> \<exists>es. rm_inv strict s es"
proof (induction rule: rm_reachable.induct)
  case (rm_load s env now st s')
  then show ?case using rm_DriverEntry_inv by blast
next
  case (rm_call s i s')
  then obtain es where "rm_inv strict s es" by blast
  from rm_exec_inv [OF this rm_call.hyps(2)] rm_call.hyps(3) show ?case by auto
qed

subsection \<open>The driver as a polled driver\<close>

definition registry_poll_request :: "nat \<Rightarrow> ioctl_request" where
  "registry_poll_request n =
     \<lparr>io_code = IOCTL_CAPTURE_GET_REGEVENTS, io_null = False, io_length = of_nat n, io_probe = None\<rparr>"

definition poll_registry :: "u32 \<Rightarrow> nat \<Rightarrow> rm_state \<Rightarrow> bugcheck + (u8 list \<times> rm_state)" where
  "poll_registry now n s =
     and_then (rm_KDispatchIoctl now (registry_poll_request n) s) (\<lambda>(st, out, m, s'). Inr (out, s'))"

abbreviation registry_weight :: "registry_event \<Rightarrow> nat" where
  "registry_weight e \<equiv> unat (registry_event_size e)"

definition holds_registry_events :: "rm_state \<Rightarrow> registry_event list \<Rightarrow> bool" where
  "holds_registry_events s es \<longleftrightarrow> rm_inv False s es"

lemma poll_registry_delivers:
  assumes inv: "rm_inv strict s es" and n: "36 \<le> n" "n < 2 ^ 32"
    and d: "drain_events registry_weight n es = (d, r)"
  shows "\<exists>s'. rm_KDispatchIoctl now (registry_poll_request n) s = Inr (STATUS_SUCCESS,
      concat (map registry_event_bytes d), of_nat (sum_list (map registry_weight d)), s') \<and>
    rm_inv strict s' r \<and> rm_lastContactTime s' = now"
proof -
  let ?s1 = "rm_UpdateLastContactTime now s"
  have u: "unat (of_nat n :: u32) = n" using n(2) by (rule unat_of_nat_small32)
  have i1: "rm_inv strict ?s1 es" using inv by (simp add: rm_UpdateLastContactTime_def)
  have le: "sizeof_REGISTRY_EVENT \<le> of_nat n"
    using n(1) u by (simp add: word_le_nat_alt sizeof_REGISTRY_EVENT_def)
  from rm_drain [OF i1, of "of_nat n" d r] d u obtain s' where
    "drain_packets sizeof_REGISTRY_EVENT registry_event_size registry_event_bytes (of_nat n) 0 []
      (lQueuedRegistryEvents ?s1) ?s1 = Inr (concat (map registry_event_bytes d),
        of_nat (sum_list (map registry_weight d)), drop (length d) (lQueuedRegistryEvents ?s1), s')"
    "rm_inv strict (s'\<lparr>lQueuedRegistryEvents := drop (length d) (lQueuedRegistryEvents ?s1)\<rparr>) r"
    "rm_lastContactTime s' = now"
    by (auto simp: rm_UpdateLastContactTime_def)
  then show ?thesis using le
    by (simp add: rm_KDispatchIoctl_def registry_poll_request_def HandleIoctlGetRegEvents_def)
qed

interpretation regmon: polled_driver "drain_events registry_weight" registry_weight
  holds_registry_events "poll_registry now" registry_event_bytes "\<lambda>n. 36 \<le> n \<and> n < 2 ^ 32" for now
proof unfold_locales
  fix s q n d r
  assume h: "holds_registry_events s q" and n: "36 \<le> n \<and> n < (2 :: nat) ^ 32"
    and d: "drain_events registry_weight n q = (d, r)"
  obtain s' where "rm_KDispatchIoctl now (registry_poll_request n) s = Inr (STATUS_SUCCESS,
      concat (map registry_event_bytes d), of_nat (sum_list (map registry_weight d)), s')"
    and "rm_inv False s' r"
    using poll_registry_delivers [of False s q n d r now] h n d
    by (auto simp: holds_registry_events_def)
  then show "\<exists>s'. poll_registry now n s = Inr (concat (map registry_event_bytes d), s') \<and>
      holds_registry_events s' r"
    by (auto simp: holds_registry_events_def poll_registry_def)
next
  fix s q e
  assume "holds_registry_events s q" and "e \<in> set q"
  then show "length (registry_event_bytes e) = registry_weight e"
    using registry_event_size_bytes by (auto simp: holds_registry_events_def rm_inv_def)
qed

text \<open>An event longer than the buffer is never delivered, and nothing behind it is.\<close>

lemma registry_session_blocked:
  assumes "rm_inv strict s (e # es)" and "36 \<le> n" and "n < 2 ^ 32" and "n < registry_weight e"
  shows "\<exists>bss s'. poll_session (poll_registry now) (replicate m n) s = Inr (bss, s') \<and>
    concat bss = [] \<and> rm_inv False s' (e # es)"
proof -
  have h: "holds_registry_events s (e # es)"
    using assms(1) by (auto simp: holds_registry_events_def rm_inv_def queue_inv_def)
  have "polls (drain_events registry_weight) (replicate m n) (e # es) = (replicate m [], e # es)"
    using assms(4) by (rule drain.polls_blocked)
  from regmon.poll_session_refines [OF h _ this, of now] assms(2,3) show ?thesis
    by (auto simp: holds_registry_events_def)
qed

subsection \<open>Unchecked allocations\<close>

text \<open>A packet that is refused is written to all the same.\<close>

lemma QueueRegistryEvent_unchecked:
  "\<not> granted s (ticks s) \<Longrightarrow> now - rm_lastContactTime s \<le> RM_CONNECTION_TIMEOUT \<Longrightarrow>
     QueueRegistryEvent now ev s = Inl NULL_DEREFERENCE"
  by (simp add: QueueRegistryEvent_def alloc_refused)

text \<open>A block for the name that is refused is freed all the same.\<close>

lemma query_object_name_unchecked:
  "\<not> granted k (ticks k) \<Longrightarrow> fst (rr_length rq) = STATUS_INFO_LENGTH_MISMATCH \<Longrightarrow>
     query_object_name rq path k = Inl BAD_POOL_CALLER"
  by (simp add: query_object_name_def alloc_refused)

text \<open>A data block that is refused is read all the same once the event is made.\<close>

lemma make_registry_event_unchecked:
  assumes "granted s (ticks s)" and "sw_data sw = None" and "0 < sw_length sw"
  shows "\<exists>b. make_registry_event now rq sw s = Inl b"
  using assms by (simp add: make_registry_event_def alloc_granted)

subsection \<open>What an event says\<close>

text \<open>The path of a value: the name of its key, a separator, the name of the value.\<close>

lemma query_object_name_chars:
  assumes "\<forall>n. granted k n" and "pool_wf k"
    and "rr_length rq = (STATUS_INFO_LENGTH_MISMATCH, len)" and "rr_name rq = (STATUS_SUCCESS, name)"
    and "us_wf name"
  shows "\<exists>k'. query_object_name rq (empty_string 65534 (Some b)) k =
      Inr (True, RtlUnicodeStringCopy (empty_string 65534 (Some b)) name, k') \<and>
    pool_extends k {} k' \<and>
    Chars (RtlUnicodeStringCopy (empty_string 65534 (Some b)) name) = Chars name"
proof -
  have b: "us_wf (empty_string 65534 (Some b))" by (rule us_wf_empty_string) simp_all
  have c: "us_capacity (empty_string 65534 (Some b)) = 32767" by (simp add: us_capacity_def)
  have "Chars (RtlUnicodeStringCopy (empty_string 65534 (Some b)) name) = Chars name"
    by (rule Chars_Copy_fits) (use assms(5) b c us_wf_fits [OF assms(5)] us_capacity_le [of name] in auto)
  moreover obtain f p k' where "query_object_name rq (empty_string 65534 (Some b)) k = Inr (f, p, k')"
    "pool_extends k {} k'" using query_object_name_extends [OF assms(1,2) b] by blast
  moreover obtain k1 where "ExAllocatePoolWithTag (Raw (unat len)) k = (Some (ticks k), k1)"
    using served [OF assms(1,2)] by blast
  ultimately show ?thesis
    using assms(3,4) by (auto simp: query_object_name_def and_then_Inr_iff simp del: ExFreePoolWithTag.simps)
qed

lemma append_value_name_chars:
  assumes "us_wf p" and "us_wf (rr_value_name rq)"
    and "length (Chars p) + length (Chars (rr_value_name rq)) + 1 \<le> us_capacity p"
  shows "Chars (append_value_name rq p) = Chars p @ [BACKSLASH] @ Chars (rr_value_name rq)"
proof -
  let ?p1 = "RtlUnicodeStringCatString p [BACKSLASH]"
  have 1: "Chars ?p1 = Chars p @ [BACKSLASH]"
    by (rule Chars_CatString_fits) (use assms in auto)
  have "Chars (RtlUnicodeStringCat ?p1 (rr_value_name rq)) = Chars ?p1 @ Chars (rr_value_name rq)"
    by (rule Chars_Cat_fits) (use assms 1 in auto)
  with 1 show ?thesis by (simp add: append_value_name_def)
qed

lemma set_value_switch:
  assumes all: "\<forall>n. granted s n" and wf: "pool_wf s" and ty: "rr_type rq = RegNtPreSetValueKey"
    and rq: "\<not> rr_fault rq" "rr_object_valid rq" "rr_data rq = Some bs"
      "rr_length rq = (STATUS_INFO_LENGTH_MISMATCH, len)" "rr_name rq = (STATUS_SUCCESS, name)"
    and n: "us_wf name" and v: "us_wf (rr_value_name rq)" "0 < Length (rr_value_name rq)"
    and fit: "length (Chars name) + length (Chars (rr_value_name rq)) + 1 \<le> 32767"
    and run: "registry_switch rq (empty_string 65534 (Some b)) s = Inr (sw, s')"
  shows "sw_valid sw \<and> sw_data sw \<noteq> None \<and> sw_type sw = rr_data_type rq \<and>
    Chars (sw_path sw) = Chars name @ [BACKSLASH] @ Chars (rr_value_name rq)"
proof -
  let ?p = "empty_string 65534 (Some b)"
  let ?p1 = "RtlUnicodeStringCopy ?p name"
  obtain s1 where q: "query_object_name rq ?p s = Inr (True, ?p1, s1)"
    and e: "pool_extends s {} s1" and c: "Chars ?p1 = Chars name"
    using query_object_name_chars [OF all wf rq(4,5) n] by blast
  have "\<forall>n. granted s1 n" "pool_wf s1"
    using all granted_extends [OF e] e wf pool_grows_wf by (auto simp: pool_extends_def)
  then obtain s2 where al: "ExAllocatePoolWithTag (Raw (unat (rr_data_size rq))) s1 = (Some (ticks s1), s2)"
    using served by blast
  have "us_wf ?p" by (rule us_wf_empty_string) simp_all
  then have u1: "us_wf ?p1" by blast
  have cap: "us_capacity ?p1 = 32767" by (simp add: us_capacity_def)
  have "Chars (append_value_name rq ?p1) = Chars ?p1 @ [BACKSLASH] @ Chars (rr_value_name rq)"
    by (rule append_value_name_chars [OF u1 v(1)]) (use fit c cap in auto)
  moreover have "GetRegistryObjectCompleteName rq None ?p s = Inr (Some True, ?p1, s1)"
    using q rq(2) by (simp add: GetRegistryObjectCompleteName_def)
  ultimately show ?thesis
    using run ty rq(1,3) v(2) al c by (auto simp: registry_switch_def set_value_key_def)
qed

lemma set_value_event:
  assumes inv: "rm_inv strict s es" and all: "\<forall>n. granted s n" and ok: "rm_request_ok rq"
    and ty: "rr_type rq = RegNtPreSetValueKey"
    and rq: "\<not> rr_fault rq" "rr_object_valid rq" "rr_data rq = Some bs"
      "rr_length rq = (STATUS_INFO_LENGTH_MISMATCH, len)" "rr_name rq = (STATUS_SUCCESS, name)"
    and n: "us_wf name" and v: "us_wf (rr_value_name rq)" "0 < Length (rr_value_name rq)"
    and fit: "length (Chars name) + length (Chars (rr_value_name rq)) + 1 \<le> 32767"
    and now: "now - rm_lastContactTime s \<le> RM_CONNECTION_TIMEOUT"
  shows "\<exists>s' e. RegistryCallback now rq s = Inr (STATUS_SUCCESS, s') \<and> rm_inv strict s' (es @ [e]) \<and>
    registryData e = wchars_bytes (Chars name @ [BACKSLASH] @ Chars (rr_value_name rq)) @ [0, 0] @ bs \<and>
    re_eventType e = 1 \<and> re_processId e = rr_process rq \<and> re_dataType e = rr_data_type rq \<and>
    unat (dataLengthB e) = length bs"
proof -
  let ?q = "lQueuedRegistryEvents s"
  have qi: "queue_inv strict s ?q {} es" using inv by (simp add: rm_inv_def)
  obtain s1 where al: "ExAllocatePoolWithTag (Raw 65534) s = (Some (ticks s), s1)"
    and e1: "pool_extends s {ticks s} s1" and g1: "\<forall>n. granted s1 n" and w1: "pool_wf s1"
    using served [OF all queue_invD(1) [OF qi]] by blast
  let ?b = "ticks s"
  have u0: "us_wf (empty_string 65534 (Some ?b))" by (rule us_wf_empty_string) simp_all
  obtain sw s2 where sw: "registry_switch rq (empty_string 65534 (Some ?b)) s1 = Inr (sw, s2)"
    and e2: "pool_extends s1 (set_option (sw_data sw)) s2" and sok: "switch_ok rq sw"
    using registry_switch_extends [OF g1 w1 u0] by blast
  have r: "sw_valid sw" "sw_data sw \<noteq> None" "sw_type sw = rr_data_type rq"
    "Chars (sw_path sw) = Chars name @ [BACKSLASH] @ Chars (rr_value_name rq)"
    using set_value_switch [OF g1 w1 ty rq n v fit sw] by simp_all
  let ?e = "new_registry_event rq sw" and ?D = "set_option (sw_data sw)"
  have e12: "pool_extends s ({?b} \<union> ?D) s2" and bD: "?b \<notin> ?D" using pool_extends_seq [OF e1 e2] by auto
  have f2: "lQueuedRegistryEvents s2 = ?q" "rm_lastContactTime s2 = rm_lastContactTime s"
    using rm_frame [of s2 s] e12 by (simp_all add: pool_extends_def)
  have i2: "queue_inv strict s2 (lQueuedRegistryEvents s2) ({?b} \<union> ?D) es"
    using queue_inv_grows(1) [OF qi] e12 f2 by (simp add: pool_extends_def)
  have "\<forall>n. granted s2 n" using all granted_extends [OF e12] by simp
  moreover have "{?b} \<union> ?D - ?D = {?b}" using bD by auto
  ultimately obtain s3 where s3: "make_registry_event now rq sw s2 = Inr s3"
    and i3: "queue_inv strict s3 (lQueuedRegistryEvents s3) {?b} (es @ [?e])"
    using make_registry_event_inv [OF i2 _ sok r(1) ok, of now] now f2 by auto
  obtain s4 where s4: "ExFreePoolWithTag (Some ?b) s3 = Inr s4"
    "queue_inv strict s4 (lQueuedRegistryEvents s3) ({?b} - {?b}) (es @ [?e])"
    "kpool.more s4 = kpool.more s3"
    using queue_inv_free [OF i3, of ?b] by auto
  note parts = new_registry_event_parts [OF sok r(1) ok]
  have "rm_inv strict s4 (es @ [?e])"
    using s4(2) rm_frame(1) [OF s4(3)] inv parts(1) by (simp add: rm_inv_def)
  moreover have "RegistryCallback now rq s = Inr (STATUS_SUCCESS, s4)"
    using al sw s3 s4(1) r(1) by (simp add: RegistryCallback_def del: ExFreePoolWithTag.simps)
  moreover have "registryData ?e = wchars_bytes (Chars name @ [BACKSLASH] @ Chars (rr_value_name rq))
      @ [0, 0] @ bs"
    using parts(3) r(2,4) rq(3) by simp
  moreover have "re_eventType ?e = 1 \<and> re_processId ?e = rr_process rq \<and>
      re_dataType ?e = rr_data_type rq \<and> unat (dataLengthB ?e) = length bs"
    using ty r(2,3) sok ok rq(3) by (auto simp: new_registry_event_def switch_ok_def rm_request_ok_def)
  ultimately show ?thesis by blast
qed

lemma rm_UnloadDriver_inv:
  assumes inv: "rm_inv True s es" and ready: "rm_bReady s"
  shows "\<exists>s'. rm_UnloadDriver s = Inr s' \<and> blocks s' = Map.empty \<and> \<not> rm_callback s' \<and>
    \<not> rm_timer s' \<and> \<not> rm_symlink s' \<and> \<not> rm_device s'"
proof -
  let ?s1 = "s\<lparr>rm_timer := False, rm_callback := False, rm_bReady := False\<rparr>"
  have "queue_inv True ?s1 (lQueuedRegistryEvents s) {} es"
    by (rule queue_inv_cong [where k = s]) (use inv in \<open>simp_all add: rm_inv_def\<close>)
  then have "rm_inv True ?s1 es" using inv by (simp add: rm_inv_def)
  from rm_free_queue_inv [OF this] ready show ?thesis
    by (auto simp: rm_UnloadDriver_def Let_def)
qed

end
