(* ===== verification/RegistryClaims.thy ===== *)
theory RegistryClaims
  imports RegistrySystem
begin

text \<open>The properties of the registry driver, with sample states to apply them to.\<close>

subsection \<open>The registry driver\<close>

definition rm_image0 :: rm_state where
  "rm_image0 = \<lparr>granted = \<lambda>n. True, ticks = 0, blocks = Map.empty, rm_bReady = False,
     lQueuedRegistryEvents = [], rm_lastContactTime = 0, rm_device = False, rm_symlink = False,
     rm_callback = False, rm_timer = False\<rparr>"

definition rm_env0 :: rm_load_env where
  "rm_env0 = \<lparr>create_device = 0, create_symlink = 0, register_callback = 0\<rparr>"

definition rm_loaded0 :: rm_state where
  "rm_loaded0 = snd (rm_DriverEntry rm_env0 100 rm_image0)"

lemmas rm_loaded0_defs = rm_loaded0_def rm_image0_def rm_env0_def rm_DriverEntry_def Let_def
  rm_UpdateLastContactTime_def rm_image_loaded_def

lemma rm_loaded0_reachable: "rm_reachable strict rm_loaded0"
  by (rule rm_reachable.rm_load [of rm_image0 rm_env0 100 0]) (simp_all add: rm_loaded0_defs)

lemma rm_loaded0_inv: "rm_inv strict rm_loaded0 []"
  using rm_DriverEntry_inv [of rm_image0 rm_env0 100 0 rm_loaded0]
  by (simp add: rm_loaded0_defs)

lemma rm_loaded0_fields [simp]:
  "granted rm_loaded0 = (\<lambda>n. True)" "rm_lastContactTime rm_loaded0 = 100" "rm_bReady rm_loaded0"
  by (simp_all add: rm_loaded0_defs)

text \<open>
  C7. The registry driver never brings the machine down while allocations are served: in
  every reachable state every allowed call returns, and leads to a reachable state.
\<close>

theorem regmon_no_bugcheck:
  assumes "rm_reachable strict s" and "rm_allowed strict i s"
  shows "\<exists>s'. rm_exec i s = Inr s' \<and> rm_reachable strict s'"
proof -
  obtain es where "rm_inv strict s es" using rm_reachable_inv [OF assms(1)] by blast
  from rm_exec_inv [OF this assms(2)] show ?thesis using rm_reachable.rm_call [OF assms] by blast
qed

definition key_name0 :: unicode_string where
  "key_name0 = \<lparr>Length = 6, MaximumLength = 8, Buffer = Some 0, Chars = [BACKSLASH, 0x61, 0x62]\<rparr>"

lemma key_name0_wf [simp]: "us_wf key_name0" "Chars key_name0 = [BACKSLASH, 0x61, 0x62]"
  by (simp_all add: key_name0_def us_wf_def us_valid_def)

definition time0 :: time_fields where
  "time0 = \<lparr>Year = 2009, Month = 1, Day = 2, Hour = 3, Minute = 4, Second = 5, Milliseconds = 6, Weekday = 5\<rparr>"

definition rm_request0 :: registry_request where
  "rm_request0 = \<lparr>rr_type = RegNtPreSetValueKey, rr_fault = False, rr_status = 0,
     rr_object_valid = True, rr_partial = None, rr_beyond = [],
     rr_length = (STATUS_INFO_LENGTH_MISMATCH, 16), rr_name = (0, key_name0), rr_value_name = key_name0,
     rr_data_type = 1, rr_data_size = 2, rr_data = Some [7, 8], rr_process = 17,
     rr_event_time = time0,
     rr_garbage = \<lparr>re_eventType = 0, re_time = time0, re_processId = 0, re_dataType = 0,
       dataLengthB = 0, registryPathLengthB = 0, registryData = []\<rparr>\<rparr>"

theorem regmon_no_bugcheck_witness:
  "\<exists>s'. rm_exec (Notify 101 rm_request0) rm_loaded0 = Inr s' \<and> rm_reachable True s'"
  by (rule regmon_no_bugcheck [OF rm_loaded0_reachable])
     (simp add: rm_request_ok_def rm_leak_free_def rm_request0_def)



text \<open>
  C17. A value being set. While user space listens, the notification puts one event at the
  end of the queue: its array is the name of the key, a backslash, the name of the value,
  the terminator and the data, and the two lengths in it separate path and data.
\<close>

theorem registry_set_value_event:
  assumes "rm_inv strict s es" and "\<forall>n. granted s n" and "rm_request_ok rq"
    and "rr_type rq = RegNtPreSetValueKey" and "\<not> rr_fault rq" and "rr_object_valid rq"
    and "rr_data rq = Some bs" and "rr_length rq = (STATUS_INFO_LENGTH_MISMATCH, len)"
    and "rr_name rq = (STATUS_SUCCESS, name)" and "us_wf name" and "us_wf (rr_value_name rq)"
    and "Chars (rr_value_name rq) \<noteq> []"
    and "length (Chars name) + length (Chars (rr_value_name rq)) + 1 \<le> 32767"
    and "now - rm_lastContactTime s \<le> 10"
  shows "\<exists>s' e. RegistryCallback now rq s = Inr (STATUS_SUCCESS, s') \<and> rm_inv strict s' (es @ [e]) \<and>
    registryData e = wchars_bytes (Chars name @ [BACKSLASH] @ Chars (rr_value_name rq)) @ [0, 0] @ bs \<and>
    re_eventType e = 1 \<and> re_processId e = rr_process rq \<and> re_dataType e = rr_data_type rq \<and>
    unat (dataLengthB e) = length bs"
  using set_value_event [OF assms(1-11) _ assms(13)] us_wf_nonempty [OF assms(11)] assms(12,14)
  by (simp add: RM_CONNECTION_TIMEOUT_def)

theorem registry_set_value_event_witness:
  "\<exists>s' e. RegistryCallback 101 rm_request0 rm_loaded0 = Inr (STATUS_SUCCESS, s') \<and>
    rm_inv True s' ([] @ [e]) \<and>
    registryData e = wchars_bytes (Chars key_name0 @ [BACKSLASH] @ Chars (rr_value_name rm_request0))
      @ [0, 0] @ [7, 8] \<and>
    re_eventType e = 1 \<and> re_processId e = rr_process rm_request0 \<and>
    re_dataType e = rr_data_type rm_request0 \<and> unat (dataLengthB e) = length [7 :: u8, 8]"
  by (rule registry_set_value_event [OF rm_loaded0_inv])
     (simp_all add: rm_request_ok_def rm_request0_def)

text \<open>
  Reading registry events. A request with room for at least one header is answered
  with the bytes of the longest prefix of the queue that fits, their length is reported, and
  the rest stays queued.
\<close>

theorem registry_ioctl_delivers:
  assumes "rm_inv strict s es" and "36 \<le> n" and "n < 2 ^ 32"
    and "drain_events (\<lambda>e. 36 + length (registryData e)) n es = (d, r)"
  shows "\<exists>s'. rm_KDispatchIoctl now (registry_poll_request n) s = Inr (STATUS_SUCCESS,
      concat (map registry_event_bytes d),
      of_nat (length (concat (map registry_event_bytes d))), s') \<and>
    rm_inv strict s' r \<and> es = d @ r \<and> length (concat (map registry_event_bytes d)) \<le> n"
proof -
  have size: "\<forall>e \<in> set es. registry_weight e = 36 + length (registryData e)"
    using assms(1) unat_registry_event_size by (auto simp: rm_inv_def)
  then have dr: "drain_events registry_weight n es = (d, r)"
    using assms(4) drain_events_cong [of es registry_weight "\<lambda>e. 36 + length (registryData e)" n]
    by simp
  have es: "es = d @ r" using drain_events_split [OF dr] .
  have "length (concat (map registry_event_bytes d)) = sum_list (map registry_weight d)"
    using size unfolding es by (induction d) auto
  with drain_events_fits [OF dr] poll_registry_delivers [OF assms(1-3) dr, of now] es
  show ?thesis by auto
qed

definition reg_event0 :: registry_event where
  "reg_event0 = \<lparr>re_eventType = 1, re_time = time0, re_processId = 17, re_dataType = 1,
     dataLengthB = 2, registryPathLengthB = 4, registryData = [97, 0, 0, 0, 7, 8]\<rparr>"

definition rm_queued0 :: rm_state where
  "rm_queued0 = rm_loaded0\<lparr>ticks := 2, blocks := [0 \<mapsto> Event reg_event0, 1 \<mapsto> Packet 0],
     lQueuedRegistryEvents := [1]\<rparr>"

lemma reg_event0_wf [simp]: "registry_event_wf reg_event0"
  by (simp add: registry_event_wf_def reg_event0_def)

lemma rm_queued0_inv: "rm_inv strict rm_queued0 [reg_event0]"
  by (auto simp: rm_inv_def queue_inv_def rm_queued0_def pool_wf_def footprint_Cons packet_event_def)

theorem registry_ioctl_delivers_witness:
  "\<exists>s'. rm_KDispatchIoctl 101 (registry_poll_request 100) rm_queued0 = Inr (STATUS_SUCCESS,
      concat (map registry_event_bytes [reg_event0]),
      of_nat (length (concat (map registry_event_bytes [reg_event0]))), s') \<and>
    rm_inv True s' [] \<and> [reg_event0] = [reg_event0] @ [] \<and>
    length (concat (map registry_event_bytes [reg_event0])) \<le> 100"
  by (rule registry_ioctl_delivers [OF rm_queued0_inv]) (simp_all add: reg_event0_def)

text \<open>
  Nothing is lost, reordered or delivered twice as long as every event fits the
  client's buffer of 327680 bytes: \<open>m\<close> polls return every one of at most \<open>m\<close> queued events.
\<close>

theorem regmon_session_complete:
  assumes "rm_inv strict s es" and "length es \<le> m"
    and "\<forall>e \<in> set es. 36 + length (registryData e) \<le> 5 * 65536"
  shows "\<exists>bss s'. poll_session (poll_registry now) (replicate m (5 * 65536)) s = Inr (bss, s') \<and>
    concat bss = concat (map registry_event_bytes es) \<and> rm_inv False s' []"
proof -
  have holds: "holds_registry_events s es"
    using assms(1) by (auto simp: holds_registry_events_def rm_inv_def queue_inv_def)
  have "\<forall>e \<in> set es. registry_weight e \<le> 5 * 65536"
    using assms(1,3) unat_registry_event_size by (auto simp: rm_inv_def)
  from regmon.poll_session_complete [OF holds _ assms(2) this] show ?thesis
    by (simp add: holds_registry_events_def)
qed

theorem regmon_session_complete_witness:
  "\<exists>bss s'. poll_session (poll_registry 101) (replicate 2 (5 * 65536)) rm_queued0 = Inr (bss, s') \<and>
    concat bss = concat (map registry_event_bytes [reg_event0]) \<and> rm_inv False s' []"
  by (rule regmon_session_complete [OF rm_queued0_inv]) (simp_all add: reg_event0_def)

text \<open>
  A large value blocks the channel: an event that is longer than the client's buffer is
  never delivered, however often the client polls, and neither is any event behind it.
\<close>

theorem registry_large_value_blocks:
  assumes "rm_inv strict s (e # es)" and "5 * 65536 < 36 + length (registryData e)"
  shows "\<exists>bss s'. poll_session (poll_registry now) (replicate m (5 * 65536)) s = Inr (bss, s') \<and>
    concat bss = [] \<and> rm_inv False s' (e # es)"
proof -
  have "registry_event_wf e" using assms(1) by (simp add: rm_inv_def)
  then have "5 * 65536 < registry_weight e" using assms(2) unat_registry_event_size by simp
  from registry_session_blocked [OF assms(1) _ _ this] show ?thesis by simp
qed

definition reg_event1 :: registry_event where
  "reg_event1 = reg_event0\<lparr>dataLengthB := 400000, registryPathLengthB := 4,
     registryData := replicate 400004 0\<rparr>"

definition rm_queued1 :: rm_state where
  "rm_queued1 = rm_loaded0\<lparr>ticks := 2, blocks := [0 \<mapsto> Event reg_event1, 1 \<mapsto> Packet 0],
     lQueuedRegistryEvents := [1]\<rparr>"

lemma rm_queued1_inv: "rm_inv strict rm_queued1 [reg_event1]"
proof -
  have "registry_event_wf reg_event1"
    by (simp add: registry_event_wf_def reg_event1_def)
  then show ?thesis
    by (auto simp: rm_inv_def queue_inv_def rm_queued1_def pool_wf_def footprint_Cons packet_event_def)
qed

theorem registry_large_value_blocks_witness:
  "\<exists>bss s'. poll_session (poll_registry 101) (replicate 9 (5 * 65536)) rm_queued1 = Inr (bss, s') \<and>
    concat bss = [] \<and> rm_inv False s' [reg_event1]"
  by (rule registry_large_value_blocks [OF rm_queued1_inv])
     (simp add: reg_event1_def)

text \<open>
  The structure the two sides share: a well-formed registry event is read back from
  its bytes, whatever follows them, and the size the driver computes does not overflow.
\<close>

theorem registry_event_round_trip:
  assumes "registry_event_wf e"
  shows "registry_event_at (registry_event_bytes e @ rest) = e \<and>
    unat (registry_event_size e) = length (registry_event_bytes e)"
  using registry_event_at_bytes [OF assms] registry_event_size_bytes [OF assms] by simp

theorem registry_event_round_trip_witness:
  "registry_event_at (registry_event_bytes reg_event0 @ [9]) = reg_event0 \<and>
    unat (registry_event_size reg_event0) = length (registry_event_bytes reg_event0)"
  by (rule registry_event_round_trip) simp

text \<open>
  Three unchecked allocations. With nothing served the packet of an event is written
  through \<open>NULL\<close>, the block for a key's name is freed without having been allocated, and the
  data of a value is copied from a block that was never there.
\<close>

theorem registry_unchecked_allocations:
  assumes "\<not> granted s (ticks s)"
  shows "(now - rm_lastContactTime s \<le> 10 \<longrightarrow> QueueRegistryEvent now ev s = Inl NULL_DEREFERENCE) \<and>
    (fst (rr_length rq) = STATUS_INFO_LENGTH_MISMATCH \<longrightarrow>
       query_object_name rq path s = Inl BAD_POOL_CALLER) \<and>
    (\<forall>s1 sw. granted s1 (ticks s1) \<and> sw_data sw = None \<and> 0 < sw_length sw \<longrightarrow>
       (\<exists>b. make_registry_event now rq sw s1 = Inl b))"
  using QueueRegistryEvent_unchecked [OF assms] query_object_name_unchecked [OF assms]
    make_registry_event_unchecked by (simp add: RM_CONNECTION_TIMEOUT_def)

theorem registry_unchecked_allocations_witness:
  "let s = rm_loaded0\<lparr>granted := \<lambda>n. False\<rparr> in
    (101 - rm_lastContactTime s \<le> 10 \<longrightarrow> QueueRegistryEvent 101 7 s = Inl NULL_DEREFERENCE) \<and>
    (fst (rr_length rm_request0) = STATUS_INFO_LENGTH_MISMATCH \<longrightarrow>
       query_object_name rm_request0 str0 s = Inl BAD_POOL_CALLER) \<and>
    (\<forall>s1 sw. granted s1 (ticks s1) \<and> sw_data sw = None \<and> 0 < sw_length sw \<longrightarrow>
       (\<exists>b. make_registry_event 101 rm_request0 sw s1 = Inl b))"
  unfolding Let_def by (rule registry_unchecked_allocations) simp

text \<open>
  Loading and unloading the registry driver. A load that fails after the device and the
  link were made leaves both behind; unloading a loaded driver frees every block and leaves no
  callback, no timer, no link and no device.
\<close>

theorem registry_load_unload:
  assumes "rm_image_loaded s" and "rm_DriverEntry env now s = (st, s')"
  shows "(\<not> NT_SUCCESS st \<longrightarrow> (rm_device s' \<and> rm_symlink s' \<longleftrightarrow> NT_SUCCESS (create_device env) \<and>
      NT_SUCCESS (create_symlink env) \<and> \<not> NT_SUCCESS (register_callback env))) \<and>
    (\<forall>s2 es. rm_inv True s2 es \<and> rm_bReady s2 \<longrightarrow>
      (\<exists>s3. rm_UnloadDriver s2 = Inr s3 \<and> blocks s3 = Map.empty \<and> \<not> rm_callback s3 \<and>
         \<not> rm_timer s3 \<and> \<not> rm_symlink s3 \<and> \<not> rm_device s3))"
proof -
  have "\<not> NT_SUCCESS st \<longrightarrow> (rm_device s' \<and> rm_symlink s' \<longleftrightarrow> NT_SUCCESS (create_device env) \<and>
      NT_SUCCESS (create_symlink env) \<and> \<not> NT_SUCCESS (register_callback env))"
    using assms by (auto simp: rm_DriverEntry_def rm_image_loaded_def Let_def split: if_splits)
  then show ?thesis using rm_UnloadDriver_inv by blast
qed

theorem registry_load_unload_witness:
  "let env = rm_env0\<lparr>register_callback := STATUS_UNSUCCESSFUL\<rparr>; s' = snd (rm_DriverEntry env 100 rm_image0);
    st = fst (rm_DriverEntry env 100 rm_image0) in
   (\<not> NT_SUCCESS st \<longrightarrow> (rm_device s' \<and> rm_symlink s' \<longleftrightarrow> NT_SUCCESS (create_device env) \<and>
      NT_SUCCESS (create_symlink env) \<and> \<not> NT_SUCCESS (register_callback env))) \<and>
    (\<forall>s2 es. rm_inv True s2 es \<and> rm_bReady s2 \<longrightarrow>
      (\<exists>s3. rm_UnloadDriver s2 = Inr s3 \<and> blocks s3 = Map.empty \<and> \<not> rm_callback s3 \<and>
         \<not> rm_timer s3 \<and> \<not> rm_symlink s3 \<and> \<not> rm_device s3))"
  unfolding Let_def
  by (rule registry_load_unload [of rm_image0]) (simp_all add: rm_image_loaded_def rm_image0_def)

end
