(* ===== verification/ProcessDriver.thy ===== *)
theory ProcessDriver
  imports FileEvent UnicodeString EventChannel DeviceControl
begin

text \<open>
  The process driver: the process event and its layout, the search for the image name, the
  process callback, the device control request that reads one event, loading and unloading.
  Unlike the other two drivers it keeps the event inside the packet, so a queued event is
  one pool block. Every handler is one atomic step.
\<close>

subsection \<open>The event\<close>

text \<open>
  \<open>PROCESS_EVENT\<close>, which the client declares as \<open>ProcessInfo\<close>: 16 bytes of time, two
  process identifiers, a byte with three bytes of padding, a length and 1024 characters.
\<close>

record process_event =
  pe_time :: time_fields
  hParentProcessId :: u32
  hProcessId :: u32
  bCreated :: u8
  processPathLength :: u32
  processPath :: wstring

definition sizeof_PROCESS_EVENT :: u32 where
  "sizeof_PROCESS_EVENT = 2080"

definition process_event_bytes :: "process_event \<Rightarrow> u8 list" where
  "process_event_bytes e =
     time_fields_bytes (pe_time e) @ le32 (hParentProcessId e) @ le32 (hProcessId e) @
     [bCreated e, 0, 0, 0] @ le32 (processPathLength e) @ wchars_bytes (processPath e)"

definition process_info_at :: "u8 list \<Rightarrow> process_event" where
  "process_info_at bs =
     \<lparr>pe_time = time_fields_at bs 0, hParentProcessId = u32_at bs 16, hProcessId = u32_at bs 20,
      bCreated = byte_at bs 24, processPathLength = u32_at bs 28,
      processPath = bytes_wchars (take 2048 (drop 32 bs))\<rparr>"

definition process_event_wf :: "process_event \<Rightarrow> bool" where
  "process_event_wf e \<longleftrightarrow> length (processPath e) = 1024"

subsection \<open>State\<close>

text \<open>
  \<open>CAPTURE_PROCESS_MANAGER\<close>. \<open>pm_notified\<close> counts how often the event object was set (and
  cleared again at once), \<open>pm_handles\<close> the process handles the driver has opened and not
  closed. The last four fields are what the driver has registered with the system.
\<close>

record pm_state = "process_event kpool" +
  pm_bReady :: bool
  pCurrentProcessEvent :: "addr option"
  lQueuedProcessEvents :: "addr list"
  nQueuedProcessEvents :: u32
  pm_notified :: nat
  pm_handles :: nat
  pm_device :: bool
  pm_symlink :: bool
  pm_callback :: bool

definition notify_user_space :: "pm_state \<Rightarrow> pm_state" where
  "notify_user_space s = s\<lparr>pm_notified := Suc (pm_notified s)\<rparr>"

subsection \<open>The name of the image\<close>

text \<open>
  What the system answers in one call of \<open>GetProcessImageName\<close>: whether the process was
  found and opened, whether \<open>ZwQueryInformationProcess\<close> could be resolved, and the results of
  its two calls (the handle they get is not set when the process was not opened, so these
  results are arbitrary).
\<close>

record image_query =
  iq_opened :: bool
  iq_resolved :: bool
  iq_size :: "ntstatus \<times> u32"
  iq_name :: "ntstatus \<times> unicode_string"

text \<open>\<open>RtlCopyUnicodeString\<close> cuts the source at the capacity of the destination.\<close>

definition RtlCopyUnicodeString :: "unicode_string \<Rightarrow> unicode_string \<Rightarrow> unicode_string" where
  "RtlCopyUnicodeString dst src =
     (let n = min (Length src) (MaximumLength dst)
      in dst\<lparr>Length := n, Chars := take (unat n div 2) (Chars src)\<rparr>)"

definition GetProcessImageName ::
    "image_query \<Rightarrow> unicode_string \<Rightarrow> pm_state \<Rightarrow>
     bugcheck + (ntstatus \<times> unicode_string \<times> pm_state)" where
  "GetProcessImageName iq name s =
     (let s1 = (if iq_opened iq then s\<lparr>pm_handles := Suc (pm_handles s)\<rparr> else s)
      in if \<not> iq_resolved iq then Inl NULL_DEREFERENCE
         else if fst (iq_size iq) \<noteq> STATUS_INFO_LENGTH_MISMATCH then Inr (fst (iq_size iq), name, s1)
         else (let bufferLength = snd (iq_size iq) - 8
               in if unat (MaximumLength name) < unat bufferLength
                  then Inr (STATUS_BUFFER_OVERFLOW, name\<lparr>MaximumLength := ucast bufferLength\<rparr>, s1)
                  else (case ExAllocatePoolWithTag (Raw (unat (snd (iq_size iq)))) s1 of
                          (None, s2) \<Rightarrow> Inr (STATUS_INSUFFICIENT_RESOURCES, name, s2)
                        | (Some b, s2) \<Rightarrow>
                            and_then (ExFreePoolWithTag (Some b) s2) (\<lambda>s3.
                            Inr (fst (iq_name iq),
                                 if NT_SUCCESS (fst (iq_name iq))
                                 then RtlCopyUnicodeString name (snd (iq_name iq)) else name,
                                 s3)))))"

subsection \<open>The callback\<close>

text \<open>
  A process is created or ends. \<open>pr_first\<close> and \<open>pr_second\<close> are the two searches for its
  name, \<open>pr_garbage\<close> is what the block of the packet held.
\<close>

record process_request =
  pr_parent :: u32
  pr_process :: u32
  pr_create :: u8
  pr_time :: time_fields
  pr_first :: image_query
  pr_second :: image_query
  pr_garbage :: process_event

text \<open>What is written to the path of the event, if anything; 1024 is a number of bytes.\<close>

definition process_image_path ::
    "process_request \<Rightarrow> pm_state \<Rightarrow> bugcheck + (wstring option \<times> pm_state)" where
  "process_image_path rq s =
     and_then (GetProcessImageName (pr_first rq) (empty_string 0 None) s) (\<lambda>(status, name, s1).
     if status = STATUS_BUFFER_OVERFLOW
     then (case ExAllocatePoolWithTag (Raw (unat (MaximumLength name))) s1 of
             (None, s2) \<Rightarrow> Inr (None, s2)
           | (Some b, s2) \<Rightarrow>
               and_then (GetProcessImageName (pr_second rq) (name\<lparr>Buffer := Some b\<rparr>) s2)
                 (\<lambda>(status2, name2, s3).
               and_then (ExFreePoolWithTag (Some b) s3) (\<lambda>s4.
               Inr (if NT_SUCCESS status2 then Some (RtlStringCbCopyUnicodeString 1024 name2)
                    else None, s4))))
     else Inr (None, s1))"

definition new_process_event :: "process_request \<Rightarrow> wstring option \<Rightarrow> process_event" where
  "new_process_event rq path =
     (pr_garbage rq)\<lparr>pe_time := pr_time rq, hParentProcessId := pr_parent rq,
        hProcessId := pr_process rq, bCreated := pr_create rq,
        processPath := (case path of None \<Rightarrow> processPath (pr_garbage rq)
                        | Some cs \<Rightarrow> cs @ drop (length cs) (processPath (pr_garbage rq)))\<rparr>"

definition ProcessCallback :: "process_request \<Rightarrow> pm_state \<Rightarrow> bugcheck + pm_state" where
  "ProcessCallback rq s =
     (case ExAllocatePoolWithTag (Event (pr_garbage rq)) s of
        (None, s1) \<Rightarrow> Inr s1
      | (Some pk, s1) \<Rightarrow>
          and_then (process_image_path rq s1) (\<lambda>(path, s2).
          and_then (write_event pk (new_process_event rq path) s2) (\<lambda>s3.
          Inr (notify_user_space
                (s3\<lparr>lQueuedProcessEvents := lQueuedProcessEvents s3 @ [pk],
                    nQueuedProcessEvents := nQueuedProcessEvents s3 + 1\<rparr>)))))"

subsection \<open>Reading an event\<close>

definition IOCTL_CAPTURE_GET_PROCINFO :: u32 where
  "IOCTL_CAPTURE_GET_PROCINFO = CTL_CODE 0x22 0x802 3 3"

text \<open>
  The status, the bytes written, the length reported and the new state. The pointer to the
  buffer is not tested; probing a \<open>NULL\<close> pointer raises an exception.
\<close>

definition get_process_event :: "pm_state \<Rightarrow> bugcheck + (ntstatus \<times> u8 list \<times> u32 \<times> pm_state)" where
  "get_process_event s =
     (case lQueuedProcessEvents s of
        [] \<Rightarrow> Inr (STATUS_SUCCESS, [], 0, s)
      | pk # q \<Rightarrow>
          (let s1 = s\<lparr>lQueuedProcessEvents := q, nQueuedProcessEvents := nQueuedProcessEvents s - 1\<rparr>
           in and_then (read_event pk s1) (\<lambda>e.
              and_then (ExFreePoolWithTag (Some pk) s1) (\<lambda>s2.
              Inr (STATUS_SUCCESS, process_event_bytes e, sizeof_PROCESS_EVENT,
                   if nQueuedProcessEvents s2 \<noteq> 0 then notify_user_space s2 else s2)))))"

definition pm_KDispatchIoctl ::
    "ioctl_request \<Rightarrow> pm_state \<Rightarrow> bugcheck + (ntstatus \<times> u8 list \<times> u32 \<times> pm_state)" where
  "pm_KDispatchIoctl rq s =
     and_then (if io_code rq = IOCTL_CAPTURE_GET_PROCINFO \<and> io_length rq \<ge> sizeof_PROCESS_EVENT
               then (case io_probe rq of Some code \<Rightarrow> Inr (code, [], 0, s) | None \<Rightarrow> get_process_event s)
               else Inr (STATUS_UNSUCCESSFUL, [], 0, s)) (\<lambda>(status, out, written, s1).
     Inr (status, out, if status = STATUS_SUCCESS then written else 0, s1))"

definition pm_KDispatchCreateClose :: "pm_state \<Rightarrow> ntstatus \<times> u32 \<times> pm_state" where
  "pm_KDispatchCreateClose s = (STATUS_SUCCESS, 0, s)"

subsection \<open>Loading and unloading\<close>

text \<open>\<open>make_event\<close>: the notification event could be created; its pointer is not checked.\<close>

record pm_load_env =
  make_device :: ntstatus
  make_symlink :: ntstatus
  make_event :: bool
  set_notify_routine :: ntstatus

definition pm_DriverEntry :: "pm_load_env \<Rightarrow> pm_state \<Rightarrow> bugcheck + (ntstatus \<times> pm_state)" where
  "pm_DriverEntry env s =
     (if \<not> NT_SUCCESS (make_device env) then Inr (make_device env, s)
      else if \<not> NT_SUCCESS (make_symlink env) then Inr (make_symlink env, s)
      else if \<not> make_event env then Inl NULL_DEREFERENCE
      else (let s1 = s\<lparr>pm_device := True, pm_symlink := True, lQueuedProcessEvents := [],
                       nQueuedProcessEvents := 0, pCurrentProcessEvent := None\<rparr>
            in if \<not> NT_SUCCESS (set_notify_routine env) then Inr (set_notify_routine env, s1)
               else Inr (STATUS_SUCCESS, s1\<lparr>pm_callback := True, pm_bReady := True\<rparr>)))"

text \<open>Unloading frees the current event, which nothing ever sets, and not the queue.\<close>

definition pm_UnloadDriver :: "pm_state \<Rightarrow> bugcheck + pm_state" where
  "pm_UnloadDriver s =
     (let s1 = (if pm_bReady s then s\<lparr>pm_callback := False, pm_bReady := False\<rparr> else s)
      in and_then (if pCurrentProcessEvent s1 \<noteq> None
                   then and_then (ExFreePoolWithTag (pCurrentProcessEvent s1) s1) (\<lambda>s2.
                        Inr (s2\<lparr>pCurrentProcessEvent := None\<rparr>))
                   else Inr s1) (\<lambda>s3.
         Inr (s3\<lparr>pm_symlink := False, pm_device := False\<rparr>)))"

end
