(* ===== verification/ProcessSystem.thy ===== *)
theory ProcessSystem
  imports ProcessDriver
begin

text \<open>
  The process driver in its environment: the invariant and its preservation by every
  handler, the reachable states, the driver as a polled driver, and the driver together
  with the client thread that waits for its event object.
\<close>

subsection \<open>The layout\<close>

lemma length_process_event_bytes [simp, layout_simps]:
  "length (process_event_bytes e) = 32 + 2 * length (processPath e)"
  by (simp add: process_event_bytes_def)

lemma process_info_at_bytes:
  assumes "process_event_wf e"
  shows "process_info_at (process_event_bytes e @ rest) = e"
proof -
  let ?bs = "process_event_bytes e @ rest"
  let ?t = "time_fields_bytes (pe_time e)"
  let ?h = "?t @ le32 (hParentProcessId e)"
  let ?i = "?h @ le32 (hProcessId e) @ [bCreated e, 0, 0, 0]"
  have f32: "u32_at ?bs i = w" if "?bs = ps @ le32 w @ qs" and "i = length ps" for ps w qs i
    using u32_at_le32 [of ps w qs] by (simp add: that)
  have 1: "time_fields_at ?bs 0 = pe_time e"
    using time_fields_at_bytes [of 0 "[]" "pe_time e"] by (simp add: process_event_bytes_def)
  have 2: "u32_at ?bs 16 = hParentProcessId e"
    by (rule f32 [of ?t]) (simp_all add: process_event_bytes_def)
  have 3: "u32_at ?bs 20 = hProcessId e"
    by (rule f32 [of ?h]) (simp_all add: process_event_bytes_def)
  have 4: "byte_at ?bs 24 = bCreated e"
    using byte_at_append [of "?h @ le32 (hProcessId e)" "bCreated e"]
    by (simp add: process_event_bytes_def)
  have 5: "u32_at ?bs 28 = processPathLength e"
    by (rule f32 [of ?i]) (simp_all add: process_event_bytes_def)
  have 6: "drop 32 ?bs = wchars_bytes (processPath e) @ rest"
    by (simp add: process_event_bytes_def)
  have 7: "take 2048 (wchars_bytes (processPath e) @ rest) = wchars_bytes (processPath e)"
    using assms by (simp add: process_event_wf_def)
  show ?thesis
    unfolding process_info_at_def 1 2 3 4 5 6 7 bytes_wchars_inverse by simp
qed

subsection \<open>The invariant\<close>

text \<open>
  The live blocks are exactly the packets of the queue, each holding one event; the counter
  is the length of the queue, modulo \<open>2 ^ 32\<close>.
\<close>

definition pm_inv :: "pm_state \<Rightarrow> process_event list \<Rightarrow> bool" where
  "pm_inv s es \<longleftrightarrow>
     pool_wf s \<and> dom (blocks s) = set (lQueuedProcessEvents s) \<and> distinct (lQueuedProcessEvents s) \<and>
     map (blocks s) (lQueuedProcessEvents s) = map (\<lambda>e. Some (Event e)) es \<and>
     nQueuedProcessEvents s = of_nat (length es) \<and> pCurrentProcessEvent s = None \<and>
     (\<forall>e \<in> set es. process_event_wf e)"

lemma pm_invD:
  assumes "pm_inv s es"
  shows "pool_wf s" and "dom (blocks s) = set (lQueuedProcessEvents s)"
    and "distinct (lQueuedProcessEvents s)"
    and "map (blocks s) (lQueuedProcessEvents s) = map (\<lambda>e. Some (Event e)) es"
    and "nQueuedProcessEvents s = of_nat (length es)" and "pCurrentProcessEvent s = None"
    and "\<forall>e \<in> set es. process_event_wf e"
  using assms by (auto simp: pm_inv_def)

lemma pm_inv_length: "pm_inv s es \<Longrightarrow> length (lQueuedProcessEvents s) = length es"
  using pm_invD(4) [of s es] by (metis length_map)

text \<open>What the handlers leave alone between two changes of the queue.\<close>

definition pm_same_queue :: "pm_state \<Rightarrow> pm_state \<Rightarrow> bool" where
  "pm_same_queue s s' \<longleftrightarrow>
     lQueuedProcessEvents s' = lQueuedProcessEvents s \<and>
     nQueuedProcessEvents s' = nQueuedProcessEvents s \<and>
     pCurrentProcessEvent s' = pCurrentProcessEvent s \<and> pm_notified s' = pm_notified s \<and>
     (pm_bReady s' \<longleftrightarrow> pm_bReady s)"

lemma pm_same_queue_refl [simp]: "pm_same_queue s s"
  by (simp add: pm_same_queue_def)

lemma pm_same_queue_trans: "pm_same_queue s s' \<Longrightarrow> pm_same_queue s' s'' \<Longrightarrow> pm_same_queue s s''"
  by (simp add: pm_same_queue_def)

lemma pm_same_queue_more: "kpool.more s' = kpool.more s \<Longrightarrow> pm_same_queue s s'"
  by (cases s; cases s') (simp add: pm_same_queue_def)

subsection \<open>The name of the image\<close>

lemma GetProcessImageName_grows:
  assumes "pool_wf s" and "iq_resolved iq"
  shows "\<exists>st name' s'. GetProcessImageName iq name s = Inr (st, name', s') \<and>
    pool_grows s {} s' \<and> pm_same_queue s s' \<and>
    pm_handles s' = pm_handles s + (if iq_opened iq then 1 else 0)"
proof -
  let ?s1 = "if iq_opened iq then s\<lparr>pm_handles := Suc (pm_handles s)\<rparr> else s"
  have g1: "pool_grows s {} ?s1" and q1: "pm_same_queue s ?s1"
    and h1: "pm_handles ?s1 = pm_handles s + (if iq_opened iq then 1 else 0)"
    by (simp_all add: pool_grows_def pm_same_queue_def)
  obtain r s2 where al: "ExAllocatePoolWithTag (Raw (unat (snd (iq_size iq)))) ?s1 = (r, s2)"
    by (cases "ExAllocatePoolWithTag (Raw (unat (snd (iq_size iq)))) ?s1")
  have g2: "pool_grows s (set_option r) s2" using pool_grows_alloc(1) [OF g1 al] by simp
  have more: "pm_handles s2 = pm_handles ?s1 \<and> pm_same_queue ?s1 s2"
    using more_alloc [OF al] pm_same_queue_more by (cases s2; cases s) (auto split: if_splits)
  show ?thesis
  proof (cases r)
    case None
    then show ?thesis using assms(2) al g1 g2 q1 h1 more pm_same_queue_trans [OF q1]
      by (simp add: GetProcessImageName_def Let_def)
  next
    case (Some b)
    obtain s3 where f: "ExFreePoolWithTag (Some b) s2 = Inr s3" "pool_grows s {} s3"
      using pool_grows_free [OF g2 _ assms(1), of b] Some by auto
    have "pm_handles s3 = pm_handles s2 \<and> pm_same_queue s2 s3"
      using more_free [OF f(1)] pm_same_queue_more by (cases s3; cases s2) auto
    then show ?thesis using assms(2) al f g1 q1 h1 more Some
      by (simp add: GetProcessImageName_def Let_def del: ExFreePoolWithTag.simps)
         (metis pm_same_queue_trans)
  qed
qed

text \<open>The two searches together, with what they open.\<close>

definition request_resolved :: "process_request \<Rightarrow> bool" where
  "request_resolved rq \<longleftrightarrow> iq_resolved (pr_first rq) \<and> iq_resolved (pr_second rq)"

lemma process_image_path_grows:
  assumes "pool_wf s" and "request_resolved rq"
  shows "\<exists>path s'. process_image_path rq s = Inr (path, s') \<and> pool_grows s {} s' \<and>
    pm_same_queue s s' \<and> (\<forall>cs. path = Some cs \<longrightarrow> length cs \<le> 512) \<and>
    pm_handles s + (if iq_opened (pr_first rq) then 1 else 0) \<le> pm_handles s'"
proof -
  obtain st name s1 where c1: "GetProcessImageName (pr_first rq) (empty_string 0 None) s = Inr (st, name, s1)"
    and g1: "pool_grows s {} s1" and q1: "pm_same_queue s s1"
    and h1: "pm_handles s1 = pm_handles s + (if iq_opened (pr_first rq) then 1 else 0)"
    using GetProcessImageName_grows [OF assms(1)] assms(2) unfolding request_resolved_def by blast
  show ?thesis
  proof (cases "st = STATUS_BUFFER_OVERFLOW")
    case False
    then show ?thesis using c1 g1 q1 h1 by (simp add: process_image_path_def)
  next
    case True
    obtain r s2 where al: "ExAllocatePoolWithTag (Raw (unat (MaximumLength name))) s1 = (r, s2)"
      by (cases "ExAllocatePoolWithTag (Raw (unat (MaximumLength name))) s1")
    have g2: "pool_grows s (set_option r) s2" using pool_grows_alloc(1) [OF g1 al] by simp
    have m2: "pm_handles s2 = pm_handles s1 \<and> pm_same_queue s1 s2"
      using more_alloc [OF al] pm_same_queue_more by (cases s2; cases s1) auto
    show ?thesis
    proof (cases r)
      case None
      then show ?thesis using c1 True al g2 q1 h1 m2 pm_same_queue_trans [OF q1]
        by (simp add: process_image_path_def)
    next
      case (Some b)
      have wf2: "pool_wf s2" using pool_grows_wf [OF g2 assms(1)] .
      obtain st2 name2 s3 where
        c3: "GetProcessImageName (pr_second rq) (name\<lparr>Buffer := Some b\<rparr>) s2 = Inr (st2, name2, s3)"
        and g3: "pool_grows s2 {} s3" and q3: "pm_same_queue s2 s3"
        and h3: "pm_handles s2 \<le> pm_handles s3"
        using GetProcessImageName_grows [OF wf2] assms(2) unfolding request_resolved_def
        by (metis le_add1)
      have "pool_grows s {b} s3" using pool_grows_seq0 [OF g2 g3] Some by simp
      then obtain s4 where f: "ExFreePoolWithTag (Some b) s3 = Inr s4" "pool_grows s {} s4"
        using pool_grows_free [OF _ _ assms(1), of "{b}" s3 b] by auto
      have m4: "pm_handles s4 = pm_handles s3 \<and> pm_same_queue s3 s4"
        using more_free [OF f(1)] pm_same_queue_more by (cases s4; cases s3) auto
      have "pm_same_queue s s4" using q1 m2 q3 m4 pm_same_queue_trans by meson
      then show ?thesis using c1 True al Some c3 f h1 m2 h3 m4
          length_StringCbCopy [of 1024 name2]
        by (simp add: process_image_path_def del: ExFreePoolWithTag.simps)
    qed
  qed
qed

subsection \<open>The handlers\<close>

definition process_request_ok :: "process_request \<Rightarrow> bool" where
  "process_request_ok rq \<longleftrightarrow> request_resolved rq \<and> process_event_wf (pr_garbage rq)"

lemma new_process_event_wf:
  assumes "process_event_wf (pr_garbage rq)" and "\<forall>cs. path = Some cs \<longrightarrow> length cs \<le> 512"
  shows "process_event_wf (new_process_event rq path)"
  using assms by (auto simp: process_event_wf_def new_process_event_def split: option.splits)

text \<open>
  A callback whose packet is refused changes nothing; otherwise one event is appended and
  user space is notified once.
\<close>

lemma ProcessCallback_inv:
  assumes inv: "pm_inv s es" and rq: "process_request_ok rq"
  shows "\<exists>s'. ProcessCallback rq s = Inr s' \<and> granted s' = granted s \<and>
    (pm_bReady s' \<longleftrightarrow> pm_bReady s) \<and>
    (if granted s (ticks s)
     then pm_notified s' = Suc (pm_notified s) \<and>
       (\<exists>s1 path s2. pool_wf s1 \<and> granted s1 = granted s \<and>
          process_image_path rq s1 = Inr (path, s2) \<and>
          pm_inv s' (es @ [new_process_event rq path])) \<and>
       pm_handles s + (if iq_opened (pr_first rq) then 1 else 0) \<le> pm_handles s'
     else pm_notified s' = pm_notified s \<and> pm_inv s' es)"
proof (cases "granted s (ticks s)")
  case False
  then have "ProcessCallback rq s = Inr (s\<lparr>ticks := Suc (ticks s)\<rparr>)"
    by (simp add: ProcessCallback_def alloc_refused)
  then show ?thesis using False inv by (auto simp: pm_inv_def pool_wf_def less_Suc_eq)
next
  case True
  let ?pk = "ticks s"
  let ?s1 = "s\<lparr>ticks := Suc ?pk, blocks := (blocks s)(?pk \<mapsto> Event (pr_garbage rq))\<rparr>"
  have al: "ExAllocatePoolWithTag (Event (pr_garbage rq)) s = (Some ?pk, ?s1)"
    using True by (rule alloc_granted)
  have wf1: "pool_wf ?s1" using pm_invD(1) [OF inv] by simp
  have res: "request_resolved rq" and gb: "process_event_wf (pr_garbage rq)"
    using rq by (simp_all add: process_request_ok_def)
  obtain path s2 where p: "process_image_path rq ?s1 = Inr (path, s2)" "pool_grows ?s1 {} s2"
    "pm_same_queue ?s1 s2" "\<forall>cs. path = Some cs \<longrightarrow> length cs \<le> 512"
    "pm_handles ?s1 + (if iq_opened (pr_first rq) then 1 else 0) \<le> pm_handles s2"
    using process_image_path_grows [OF wf1 res] by blast
  let ?e = "new_process_event rq path"
  have b2: "blocks s2 = (blocks s)(?pk \<mapsto> Event (pr_garbage rq))"
    using pool_grows_blocks0 [OF p(2)] by simp
  have w: "write_event ?pk ?e s2 = Inr (s2\<lparr>blocks := (blocks s2)(?pk \<mapsto> Event ?e)\<rparr>)"
    using b2 by (simp add: write_event_def)
  let ?s3 = "s2\<lparr>blocks := (blocks s2)(?pk \<mapsto> Event ?e)\<rparr>"
  let ?s4 = "notify_user_space (?s3\<lparr>lQueuedProcessEvents := lQueuedProcessEvents ?s3 @ [?pk],
    nQueuedProcessEvents := nQueuedProcessEvents ?s3 + 1\<rparr>)"
  have run: "ProcessCallback rq s = Inr ?s4" using al p(1) w by (simp add: ProcessCallback_def)
  have q2: "lQueuedProcessEvents s2 = lQueuedProcessEvents s"
    "nQueuedProcessEvents s2 = nQueuedProcessEvents s" "pCurrentProcessEvent s2 = pCurrentProcessEvent s"
    "pm_notified s2 = pm_notified s" "pm_bReady s2 = pm_bReady s"
    using p(3) by (simp_all add: pm_same_queue_def)
  have out: "?pk \<notin> set (lQueuedProcessEvents s)"
    using pm_invD(1,2) [OF inv] by (metis domIff pool_wf_fresh)
  have wf4: "pool_wf ?s4"
  proof -
    have "?pk < ticks s2" using pool_growsD(2) [OF p(2)] by simp
    then show ?thesis
      using pool_grows_wf [OF p(2) wf1] by (auto simp: pool_wf_def notify_user_space_def)
  qed
  have m: "map (blocks ?s4) (lQueuedProcessEvents s) = map (blocks s) (lQueuedProcessEvents s)"
    using out b2 by (auto simp: notify_user_space_def)
  have inv4: "pm_inv ?s4 (es @ [?e])"
    unfolding pm_inv_def
    using wf4 out pm_invD(2-7) [OF inv] q2 m new_process_event_wf [OF gb p(4)] b2
    by (auto simp: notify_user_space_def)
  have g: "granted s2 = granted s" using pool_growsD(1) [OF p(2)] by simp
  have more: "pm_notified ?s4 = Suc (pm_notified s)" "pm_bReady ?s4 = pm_bReady s"
    "granted ?s4 = granted s" "pm_handles ?s4 = pm_handles s2"
    using q2 g by (simp_all add: notify_user_space_def)
  have step: "pool_wf ?s1 \<and> granted ?s1 = granted s \<and> process_image_path rq ?s1 = Inr (path, s2) \<and>
      pm_inv ?s4 (es @ [?e])"
    using wf1 p(1) inv4 by simp
  have h: "pm_handles s + (if iq_opened (pr_first rq) then 1 else 0) \<le> pm_handles ?s4"
    using p(5) more(4) by simp
  show ?thesis
    unfolding run using True step more h by (intro exI [of _ ?s4]) auto
qed

lemma ProcessCallback_keeps:
  assumes "pm_inv s es" and "process_request_ok rq"
  shows "\<exists>s' es'. ProcessCallback rq s = Inr s' \<and> pm_inv s' es' \<and>
    (pm_notified s' = pm_notified s \<and> es' = es \<or>
     pm_notified s' = Suc (pm_notified s) \<and> (\<exists>e. es' = es @ [e]))"
  using ProcessCallback_inv [OF assms] by (cases "granted s (ticks s)") (simp, blast)+

text \<open>A request takes the oldest event, and notifies while events are left.\<close>

lemma get_process_event_inv:
  assumes inv: "pm_inv s es"
  shows "\<exists>s'. get_process_event s = Inr (STATUS_SUCCESS, concat (map process_event_bytes (take 1 es)),
      (if es = [] then 0 else sizeof_PROCESS_EVENT), s') \<and>
    pm_inv s' (drop 1 es) \<and> granted s' = granted s \<and> (pm_bReady s' \<longleftrightarrow> pm_bReady s)"
proof (cases es)
  case Nil
  then show ?thesis using inv pm_inv_length [OF inv] by (simp add: get_process_event_def)
next
  case (Cons e es')
  obtain pk q where q: "lQueuedProcessEvents s = pk # q"
    using pm_inv_length [OF inv] Cons by (cases "lQueuedProcessEvents s") auto
  have b: "blocks s pk = Some (Event e)" using pm_invD(4) [OF inv] q Cons by simp
  let ?s1 = "s\<lparr>lQueuedProcessEvents := q, nQueuedProcessEvents := nQueuedProcessEvents s - 1\<rparr>"
  let ?s2 = "?s1\<lparr>blocks := (blocks s)(pk := None)\<rparr>"
  let ?s3 = "if nQueuedProcessEvents ?s2 \<noteq> 0 then notify_user_space ?s2 else ?s2"
  have run: "get_process_event s = Inr (STATUS_SUCCESS, process_event_bytes e, sizeof_PROCESS_EVENT, ?s3)"
    using q b by (simp add: get_process_event_def Let_def read_event_live)
  have out: "pk \<notin> set q" using pm_invD(3) [OF inv] q by simp
  have m: "map ((blocks s)(pk := None)) q = map (\<lambda>e. Some (Event e)) es'"
    using pm_invD(4) [OF inv] q Cons out by (auto simp: map_eq_conv)
  have d: "dom ((blocks s)(pk := None)) = set q" using pm_invD(2) [OF inv] q out by auto
  have wf: "pool_wf ?s2" using pm_invD(1) [OF inv] by (auto simp: pool_wf_def)
  have "pm_inv ?s2 es'"
    unfolding pm_inv_def using pm_invD [OF inv] q Cons m d wf by simp
  then have "pm_inv ?s3 es'" by (simp add: notify_user_space_def pm_inv_def pool_wf_def)
  then show ?thesis unfolding run Cons by (simp add: notify_user_space_def)
qed

lemma pm_KDispatchIoctl_inv:
  assumes inv: "pm_inv s es"
  shows "\<exists>st out n s' es'. pm_KDispatchIoctl rq s = Inr (st, out, n, s') \<and> pm_inv s' es' \<and>
    granted s' = granted s \<and> (pm_bReady s' \<longleftrightarrow> pm_bReady s)"
proof (cases "io_code rq = IOCTL_CAPTURE_GET_PROCINFO \<and> io_length rq \<ge> sizeof_PROCESS_EVENT \<and>
    io_probe rq = None")
  case True
  then show ?thesis using get_process_event_inv [OF inv] by (auto simp: pm_KDispatchIoctl_def)
next
  case False
  then show ?thesis using inv by (auto simp: pm_KDispatchIoctl_def split: option.splits)
qed

subsection \<open>Reachable states\<close>

datatype pm_input =
    ProcessNotify process_request
  | ProcessIoctl ioctl_request
  | ProcessCreateClose

fun pm_exec :: "pm_input \<Rightarrow> pm_state \<Rightarrow> bugcheck + pm_state" where
  "pm_exec (ProcessNotify rq) s = ProcessCallback rq s"
| "pm_exec (ProcessIoctl rq) s = and_then (pm_KDispatchIoctl rq s) (\<lambda>(st, out, n, s'). Inr s')"
| "pm_exec ProcessCreateClose s = Inr (snd (snd (pm_KDispatchCreateClose s)))"

fun pm_allowed :: "pm_input \<Rightarrow> bool" where
  "pm_allowed (ProcessNotify rq) \<longleftrightarrow> process_request_ok rq"
| "pm_allowed _ \<longleftrightarrow> True"

lemma pm_exec_inv:
  assumes "pm_inv s es" and "pm_allowed i"
  shows "\<exists>s' es'. pm_exec i s = Inr s' \<and> pm_inv s' es'"
proof (cases i)
  case (ProcessNotify rq)
  then have "process_request_ok rq" using assms(2) by simp
  from ProcessCallback_keeps [OF assms(1) this] ProcessNotify show ?thesis by auto
next
  case (ProcessIoctl rq)
  then show ?thesis using pm_KDispatchIoctl_inv [OF assms(1), of rq] by auto
next
  case ProcessCreateClose
  then show ?thesis using assms(1) by (auto simp: pm_KDispatchCreateClose_def)
qed

definition pm_image_loaded :: "pm_state \<Rightarrow> bool" where
  "pm_image_loaded s \<longleftrightarrow> blocks s = Map.empty \<and> \<not> pm_device s \<and> \<not> pm_symlink s \<and>
     \<not> pm_callback s \<and> \<not> pm_bReady s"

inductive pm_reachable :: "pm_state \<Rightarrow> bool" where
  pm_load: "pm_image_loaded s \<Longrightarrow> pm_DriverEntry env s = Inr (st, s') \<Longrightarrow> pm_bReady s' \<Longrightarrow>
     pm_reachable s'"
| pm_call: "pm_reachable s \<Longrightarrow> pm_allowed i \<Longrightarrow> pm_exec i s = Inr s' \<Longrightarrow> pm_reachable s'"

lemma pm_DriverEntry_inv:
  assumes "pm_image_loaded s" and "pm_DriverEntry env s = Inr (st, s')" and "pm_bReady s'"
  shows "pm_inv s' []"
proof -
  have "s' = s\<lparr>pm_device := True, pm_symlink := True, lQueuedProcessEvents := [],
      nQueuedProcessEvents := 0, pCurrentProcessEvent := None\<rparr>\<lparr>pm_callback := True, pm_bReady := True\<rparr>"
    using assms by (auto simp: pm_DriverEntry_def pm_image_loaded_def Let_def split: if_splits)
  then show ?thesis using assms(1) by (simp add: pm_inv_def pool_wf_def pm_image_loaded_def)
qed

lemma pm_reachable_inv: "pm_reachable s \<Longrightarrow> \<exists>es. pm_inv s es"
proof (induction rule: pm_reachable.induct)
  case (pm_load s env st s')
  then show ?case using pm_DriverEntry_inv by blast
next
  case (pm_call s i s')
  then obtain es where "pm_inv s es" by blast
  from pm_exec_inv [OF this pm_call.hyps(2)] pm_call.hyps(3) show ?case by auto
qed

end
