(* ===== verification/ProcessLink.thy ===== *)
theory ProcessLink
  imports ProcessSystem
begin

text \<open>
  The process driver as the client sees it: a channel that delivers one event per request,
  and the wake-up of the client thread by the event object, which the driver sets and clears
  in one go, so that only a thread that is waiting at that moment wakes up.
\<close>

subsection \<open>One event per request\<close>

definition deliver_one :: "nat \<Rightarrow> process_event list \<Rightarrow> process_event list \<times> process_event list" where
  "deliver_one n es = (if 2080 \<le> n then (take 1 es, drop 1 es) else ([], es))"

definition process_poll_request :: "nat \<Rightarrow> ioctl_request" where
  "process_poll_request n =
     \<lparr>io_code = IOCTL_CAPTURE_GET_PROCINFO, io_null = False, io_length = of_nat n, io_probe = None\<rparr>"

definition poll_process :: "nat \<Rightarrow> pm_state \<Rightarrow> bugcheck + (u8 list \<times> pm_state)" where
  "poll_process n s =
     and_then (pm_KDispatchIoctl (process_poll_request n) s) (\<lambda>(st, out, m, s'). Inr (out, s'))"

abbreviation process_weight :: "process_event \<Rightarrow> nat" where
  "process_weight e \<equiv> 2080"

lemma pm_KDispatchIoctl_poll:
  assumes inv: "pm_inv s es" and n: "2080 \<le> n" "n < 2 ^ 32"
  shows "\<exists>s'. pm_KDispatchIoctl (process_poll_request n) s = Inr (STATUS_SUCCESS,
      concat (map process_event_bytes (take 1 es)), (if es = [] then 0 else 2080), s') \<and>
    pm_inv s' (drop 1 es)"
proof -
  have "unat (of_nat n :: u32) = n" using n(2) by (rule unat_of_nat_small32)
  then have "sizeof_PROCESS_EVENT \<le> of_nat n"
    using n(1) by (simp add: word_le_nat_alt sizeof_PROCESS_EVENT_def)
  with get_process_event_inv [OF inv] show ?thesis
    by (auto simp: pm_KDispatchIoctl_def process_poll_request_def sizeof_PROCESS_EVENT_def)
qed

interpretation procmon: polled_driver deliver_one process_weight pm_inv poll_process
  process_event_bytes "\<lambda>n. 2080 \<le> n \<and> n < 2 ^ 32"
proof unfold_locales
  show "deliver_one n q = (d, r) \<Longrightarrow> q = d @ r" for n q d r
    by (auto simp: deliver_one_def split: if_splits)
  show "deliver_one n q = (d, r) \<Longrightarrow> sum_list (map process_weight d) \<le> n" for n q d r
    by (cases q) (auto simp: deliver_one_def split: if_splits)
  show "deliver_one n (e # q) = (d, r) \<Longrightarrow> process_weight e \<le> n \<Longrightarrow> d \<noteq> []" for n e q d r
    by (auto simp: deliver_one_def)
  fix s q n d r
  assume "pm_inv s q" and n: "2080 \<le> n \<and> n < (2 :: nat) ^ 32" and "deliver_one n q = (d, r)"
  then show "\<exists>s'. poll_process n s = Inr (concat (map process_event_bytes d), s') \<and> pm_inv s' r"
    using pm_KDispatchIoctl_poll [of s q n] by (auto simp: deliver_one_def poll_process_def)
next
  fix s q e
  assume "pm_inv s q" and "e \<in> set q"
  then have "process_event_wf e" using pm_invD(7) by blast
  then show "length (process_event_bytes e) = 2080" by (simp add: process_event_wf_def)
qed

subsection \<open>The client thread\<close>

text \<open>
  The loop of \<open>ProcessMonitor::run\<close>: wait for the event object, ask for one event, handle
  it. A notification wakes the thread only in the first phase.
\<close>

datatype client_phase = WaitForEvent | AskForEvent | HandleEvent

record process_link =
  link_driver :: pm_state
  link_phase :: client_phase
  link_received :: "u8 list list"

definition woken :: "pm_state \<Rightarrow> pm_state \<Rightarrow> client_phase \<Rightarrow> client_phase" where
  "woken s s' ph = (if pm_notified s < pm_notified s' \<and> ph = WaitForEvent then AskForEvent else ph)"

inductive link_step :: "process_link \<Rightarrow> process_link \<Rightarrow> bool" where
  process_step: "process_request_ok rq \<Longrightarrow> ProcessCallback rq (link_driver l) = Inr s' \<Longrightarrow>
     link_step l (l\<lparr>link_driver := s', link_phase := woken (link_driver l) s' (link_phase l)\<rparr>)"
| ask_step: "link_phase l = AskForEvent \<Longrightarrow> poll_process 2080 (link_driver l) = Inr (out, s') \<Longrightarrow>
     link_step l (l\<lparr>link_driver := s', link_phase := HandleEvent,
       link_received := link_received l @ [out]\<rparr>)"
| handle_step: "link_phase l = HandleEvent \<Longrightarrow> link_step l (l\<lparr>link_phase := WaitForEvent\<rparr>)"

inductive link_run :: "process_link \<Rightarrow> process_link \<Rightarrow> bool" where
  link_refl: "link_run l l"
| link_next: "link_run l l' \<Longrightarrow> link_step l' l'' \<Longrightarrow> link_run l l''"

text \<open>
  The backlog: the queued events beyond the one the woken client is about to take. In the
  phase of asking there is one.
\<close>

definition link_backlog :: "process_link \<Rightarrow> nat" where
  "link_backlog l = length (lQueuedProcessEvents (link_driver l)) -
     (if link_phase l = AskForEvent then 1 else 0)"

definition link_inv :: "process_link \<Rightarrow> bool" where
  "link_inv l \<longleftrightarrow> (\<exists>es. pm_inv (link_driver l) es \<and> (link_phase l = AskForEvent \<longrightarrow> es \<noteq> []))"

lemma link_step_backlog:
  assumes inv: "link_inv l" and st: "link_step l l'"
  shows "link_inv l' \<and> link_backlog l \<le> link_backlog l'"
proof -
  obtain es where es: "pm_inv (link_driver l) es" "link_phase l = AskForEvent \<longrightarrow> es \<noteq> []"
    using inv by (auto simp: link_inv_def)
  note len = pm_inv_length [OF es(1)]
  from st show ?thesis
  proof cases
    case (process_step rq s')
    obtain es' where "pm_inv s' es'" and or: "pm_notified s' = pm_notified (link_driver l) \<and> es' = es \<or>
        pm_notified s' = Suc (pm_notified (link_driver l)) \<and> (\<exists>e. es' = es @ [e])"
      using ProcessCallback_keeps [OF es(1) process_step(2)] process_step(3) by auto
    with pm_inv_length [OF this(1)] es(2) len process_step(1) show ?thesis
      by (auto simp: link_inv_def link_backlog_def woken_def)
  next
    case (ask_step out s')
    have "\<exists>s1. poll_process 2080 (link_driver l) = Inr (concat (map process_event_bytes (take 1 es)), s1)
        \<and> pm_inv s1 (drop 1 es)"
      using pm_KDispatchIoctl_poll [OF es(1), of 2080] by (auto simp: poll_process_def)
    then have "pm_inv s' (drop 1 es)" using ask_step(3) by simp
    with pm_inv_length [OF this] len ask_step(1,2) show ?thesis
      by (auto simp: link_inv_def link_backlog_def)
  next
    case handle_step
    then show ?thesis using es by (auto simp: link_inv_def link_backlog_def)
  qed
qed

text \<open>Once events are left behind they stay behind: the backlog never shrinks.\<close>

lemma link_run_backlog:
  "link_run l l' \<Longrightarrow> link_inv l \<Longrightarrow> link_inv l' \<and> link_backlog l \<le> link_backlog l'"
proof (induction rule: link_run.induct)
  case (link_next l l' l'')
  then have "link_inv l' \<and> link_backlog l \<le> link_backlog l'" by blast
  with link_step_backlog [of l' l''] link_next.hyps(2) show ?case by fastforce
qed simp

subsection \<open>What the driver leaves behind\<close>

text \<open>Unloading leaves every queued event in the pool.\<close>

lemma pm_UnloadDriver_leaks:
  assumes "pm_inv s es" and "pm_bReady s"
  shows "\<exists>s'. pm_UnloadDriver s = Inr s' \<and> blocks s' = blocks s \<and> \<not> pm_callback s' \<and>
    \<not> pm_device s' \<and> \<not> pm_symlink s' \<and> card (dom (blocks s')) = length es"
proof -
  have "card (dom (blocks s)) = length es"
    using pm_invD(2,3) [OF assms(1)] pm_inv_length [OF assms(1)] by (simp add: distinct_card)
  then show ?thesis using assms pm_invD(6) [OF assms(1)] by (simp add: pm_UnloadDriver_def Let_def)
qed

subsection \<open>What an event says\<close>

text \<open>
  The system gives the image name \<open>nm\<close>, in a block of its size and a header of 8 bytes; the
  first call finds the string too small and sets its capacity, the second fills it.
\<close>

definition names_image :: "process_request \<Rightarrow> unicode_string \<Rightarrow> bool" where
  "names_image rq nm \<longleftrightarrow>
     us_wf nm \<and> Chars nm \<noteq> [] \<and>
     (\<forall>iq \<in> {pr_first rq, pr_second rq}.
        iq_resolved iq \<and> iq_size iq = (STATUS_INFO_LENGTH_MISMATCH, ucast (Length nm) + 8) \<and>
        iq_name iq = (STATUS_SUCCESS, nm))"

lemma RtlCopyUnicodeString_exact:
  assumes w: "us_wf nm" and m: "MaximumLength d = Length nm" and b: "Buffer d \<noteq> None"
  shows "Chars (RtlCopyUnicodeString d nm) = Chars nm" and "us_valid (RtlCopyUnicodeString d nm)"
proof -
  have r: "RtlCopyUnicodeString d nm = d\<lparr>Length := Length nm, Chars := take (length (Chars nm)) (Chars nm)\<rparr>"
    using m us_wf_length [OF w] by (simp add: RtlCopyUnicodeString_def)
  then show "Chars (RtlCopyUnicodeString d nm) = Chars nm" by simp
  have v: "us_valid nm" using w by blast
  have "unat (Length nm) \<le> unat (MaximumLength nm)" using v by (simp add: us_valid_def word_le_nat_alt)
  then have "unat (Length nm) \<le> 65534" using v by (simp add: us_valid_def)
  then show "us_valid (RtlCopyUnicodeString d nm)"
    using v m b unfolding r by (auto simp: us_valid_def)
qed

lemma process_image_path_named:
  assumes nm: "names_image rq nm" and all: "\<forall>n. granted s n" and wf: "pool_wf s"
    and run: "process_image_path rq s = Inr (path, s')"
  shows "path = Some (take 511 (Chars nm) @ [0])"
proof -
  have w: "us_wf nm" and ne: "Chars nm \<noteq> []" using nm by (simp_all add: names_image_def)
  have u8: "(ucast (Length nm) + 8 :: u32) - 8 = ucast (Length nm)" by simp
  have "unat (Length nm) < 2 ^ 32" by (rule order.strict_trans [OF unsigned_less]) simp
  then have un: "unat (ucast (Length nm) :: u32) = unat (Length nm)"
    by (simp add: unsigned_ucast_eq take_bit_nat_eq_self)
  have pos: "0 < unat (Length nm)" using ne us_wf_length [OF w] by simp
  have uu: "ucast (ucast (Length nm) :: u32) = Length nm" by (rule bit_word_eqI) (simp add: bit_simps)
  let ?s1 = "if iq_opened (pr_first rq) then s\<lparr>pm_handles := Suc (pm_handles s)\<rparr> else s"
  have c1: "GetProcessImageName (pr_first rq) (empty_string 0 None) s =
      Inr (STATUS_BUFFER_OVERFLOW, (empty_string 0 None)\<lparr>MaximumLength := Length nm\<rparr>, ?s1)"
    using nm pos un uu by (simp add: names_image_def GetProcessImageName_def Let_def u8)
  have all1: "\<forall>n. granted ?s1 n" using all by simp
  let ?s2 = "?s1\<lparr>ticks := Suc (ticks ?s1), blocks := (blocks ?s1)(ticks ?s1 \<mapsto> Raw (unat (Length nm)))\<rparr>"
  have a2: "ExAllocatePoolWithTag (Raw (unat (Length nm))) ?s1 = (Some (ticks ?s1), ?s2)"
    using all1 by (intro alloc_granted) blast
  let ?d = "\<lparr>Length = 0, MaximumLength = Length nm, Buffer = Some (ticks ?s1), Chars = []\<rparr>"
  have c2: "\<exists>s3. GetProcessImageName (pr_second rq) ?d ?s2 =
      Inr (STATUS_SUCCESS, RtlCopyUnicodeString ?d nm, s3)"
    using nm un all by (auto simp: names_image_def GetProcessImageName_def Let_def u8 alloc_granted)
  then obtain s3 where c3: "GetProcessImageName (pr_second rq) ?d ?s2 =
      Inr (STATUS_SUCCESS, RtlCopyUnicodeString ?d nm, s3)" by blast
  have cp: "RtlStringCbCopyUnicodeString 1024 (RtlCopyUnicodeString ?d nm) = take 511 (Chars nm) @ [0]"
    using RtlCopyUnicodeString_exact [OF w, of ?d] by (simp add: RtlStringCbCopyUnicodeString_def)
  show ?thesis
    using run c1 a2 c3 cp
    by (auto simp: process_image_path_def and_then_Inr_iff simp del: ExFreePoolWithTag.simps)
qed

lemma ProcessCallback_named:
  assumes inv: "pm_inv s es" and rq: "process_request_ok rq" and all: "\<forall>n. granted s n"
    and nm: "names_image rq nm"
  shows "\<exists>s' e. ProcessCallback rq s = Inr s' \<and> pm_inv s' (es @ [e]) \<and>
    e = new_process_event rq (Some (take 511 (Chars nm) @ [0]))"
proof -
  obtain s' s1 path s2 where "ProcessCallback rq s = Inr s'" and "pool_wf s1" "granted s1 = granted s"
    and "process_image_path rq s1 = Inr (path, s2)" and "pm_inv s' (es @ [new_process_event rq path])"
    using ProcessCallback_inv [OF inv rq] all by auto
  with process_image_path_named [OF nm _ this(2,4)] all show ?thesis by auto
qed

end
