(* ===== verification/ProcessClaims.thy ===== *)
theory ProcessClaims
  imports ProcessLink
begin

text \<open>The properties of the process driver, with a sample system to apply them to.\<close>

subsection \<open>A sample system\<close>

definition pm_image0 :: pm_state where
  "pm_image0 = \<lparr>granted = \<lambda>n. True, ticks = 0, blocks = Map.empty, pm_bReady = False,
     pCurrentProcessEvent = None, lQueuedProcessEvents = [], nQueuedProcessEvents = 0,
     pm_notified = 0, pm_handles = 0, pm_device = False, pm_symlink = False, pm_callback = False\<rparr>"

definition pm_env0 :: pm_load_env where
  "pm_env0 = \<lparr>make_device = 0, make_symlink = 0, make_event = True, set_notify_routine = 0\<rparr>"

definition pm_loaded0 :: pm_state where
  "pm_loaded0 = pm_image0\<lparr>pm_device := True, pm_symlink := True, pm_callback := True, pm_bReady := True\<rparr>"

lemma pm_loaded0_entry: "pm_DriverEntry pm_env0 pm_image0 = Inr (STATUS_SUCCESS, pm_loaded0)"
  by (simp add: pm_DriverEntry_def pm_env0_def pm_image0_def pm_loaded0_def)

lemma pm_loaded0_reachable: "pm_reachable pm_loaded0"
  by (rule pm_reachable.pm_load [OF _ pm_loaded0_entry])
     (simp_all add: pm_image_loaded_def pm_image0_def pm_loaded0_def)

lemma pm_loaded0_inv: "pm_inv pm_loaded0 []"
  by (simp add: pm_inv_def pool_wf_def pm_loaded0_def pm_image0_def)

definition image_name0 :: unicode_string where
  "image_name0 = \<lparr>Length = 4, MaximumLength = 6, Buffer = Some 0, Chars = [BACKSLASH, 0x61]\<rparr>"

definition image_query0 :: image_query where
  "image_query0 = \<lparr>iq_opened = True, iq_resolved = True, iq_size = (STATUS_INFO_LENGTH_MISMATCH, 12),
     iq_name = (STATUS_SUCCESS, image_name0)\<rparr>"

definition process_event0 :: process_event where
  "process_event0 = \<lparr>pe_time = \<lparr>Year = 2009, Month = 1, Day = 2, Hour = 3, Minute = 4, Second = 5,
     Milliseconds = 6, Weekday = 5\<rparr>, hParentProcessId = 4, hProcessId = 8, bCreated = 1,
     processPathLength = 0, processPath = replicate 1024 0\<rparr>"

definition process_request0 :: process_request where
  "process_request0 = \<lparr>pr_parent = 4, pr_process = 12, pr_create = 1, pr_time = pe_time process_event0,
     pr_first = image_query0, pr_second = image_query0, pr_garbage = process_event0\<rparr>"

lemma process_event0_wf [simp]: "process_event_wf process_event0"
  by (simp add: process_event_wf_def process_event0_def)

lemma process_request0_ok [simp]: "process_request_ok process_request0"
  by (simp add: process_request_ok_def request_resolved_def process_request0_def image_query0_def)

lemma process_request0_named: "names_image process_request0 image_name0"
  by (simp add: names_image_def process_request0_def image_query0_def image_name0_def us_wf_def
      us_valid_def)

definition pm_queued0 :: pm_state where
  "pm_queued0 = pm_loaded0\<lparr>ticks := 1, blocks := [0 \<mapsto> Event process_event0],
     lQueuedProcessEvents := [0], nQueuedProcessEvents := 1\<rparr>"

lemma pm_queued0_inv: "pm_inv pm_queued0 [process_event0]"
  by (simp add: pm_inv_def pool_wf_def pm_queued0_def pm_loaded0_def pm_image0_def)

subsection \<open>The properties\<close>

text \<open>
  C18. The process driver is safe whatever the pool does: in every reachable state every
  allowed call returns and leads to a reachable state, even with allocations refused; the
  live blocks are exactly the packets of the queue, no packet is queued twice, and the
  counter of the driver is the length of the queue modulo \<open>2 ^ 32\<close>.
\<close>

theorem procmon_safe:
  assumes "pm_reachable s" and "pm_allowed i"
  shows "(\<exists>s'. pm_exec i s = Inr s' \<and> pm_reachable s') \<and>
    dom (blocks s) = set (lQueuedProcessEvents s) \<and> distinct (lQueuedProcessEvents s) \<and>
    nQueuedProcessEvents s = of_nat (length (lQueuedProcessEvents s))"
proof -
  obtain es where inv: "pm_inv s es" using pm_reachable_inv [OF assms(1)] by blast
  have "\<exists>s'. pm_exec i s = Inr s' \<and> pm_reachable s'"
    using pm_exec_inv [OF inv assms(2)] pm_reachable.pm_call [OF assms] by blast
  then show ?thesis using pm_invD(2,3,5) [OF inv] pm_inv_length [OF inv] by simp
qed

theorem procmon_safe_witness:
  "(\<exists>s'. pm_exec (ProcessNotify process_request0) pm_loaded0 = Inr s' \<and> pm_reachable s') \<and>
    dom (blocks pm_loaded0) = set (lQueuedProcessEvents pm_loaded0) \<and>
    distinct (lQueuedProcessEvents pm_loaded0) \<and>
    nQueuedProcessEvents pm_loaded0 = of_nat (length (lQueuedProcessEvents pm_loaded0))"
  by (rule procmon_safe [OF pm_loaded0_reachable]) simp

text \<open>
  C19. A process that starts or ends is queued as one event behind the others, with its
  parent, its own identifier, whether it was created, and the first 511 characters of the
  name of its image with a terminator; what follows in the array is what the block held.
\<close>

theorem process_event_recorded:
  assumes "pm_inv s es" and "process_request_ok rq" and "\<forall>n. granted s n" and "names_image rq nm"
  shows "\<exists>s' e. ProcessCallback rq s = Inr s' \<and> pm_inv s' (es @ [e]) \<and>
    hParentProcessId e = pr_parent rq \<and> hProcessId e = pr_process rq \<and> bCreated e = pr_create rq \<and>
    pe_time e = pr_time rq \<and>
    (\<exists>rest. processPath e = take 511 (Chars nm) @ [0] @ rest) \<and> length (processPath e) = 1024"
proof -
  let ?e = "new_process_event rq (Some (take 511 (Chars nm) @ [0]))"
  obtain s' where s': "ProcessCallback rq s = Inr s'" "pm_inv s' (es @ [?e])"
    using ProcessCallback_named [OF assms] by blast
  then have "process_event_wf ?e" by (simp add: pm_inv_def)
  with s' show ?thesis
    by (intro exI [of _ s'] exI [of _ ?e]) (simp add: process_event_wf_def new_process_event_def)
qed

theorem process_event_recorded_witness:
  "\<exists>s' e. ProcessCallback process_request0 pm_queued0 = Inr s' \<and> pm_inv s' ([process_event0] @ [e]) \<and>
    hParentProcessId e = pr_parent process_request0 \<and> hProcessId e = pr_process process_request0 \<and>
    bCreated e = pr_create process_request0 \<and> pe_time e = pr_time process_request0 \<and>
    (\<exists>rest. processPath e = take 511 (Chars image_name0) @ [0] @ rest) \<and>
    length (processPath e) = 1024"
  by (rule process_event_recorded [OF pm_queued0_inv _ _ process_request0_named])
     (simp_all add: pm_queued0_def pm_loaded0_def pm_image0_def)

text \<open>
  Asked often enough the driver delivers everything: \<open>m\<close> requests with the client's
  buffer of 2080 bytes return every one of at most \<open>m\<close> queued events, one each and in order.
\<close>

theorem procmon_session_complete:
  assumes "pm_inv s es" and "length es \<le> m"
  shows "\<exists>bss s'. poll_session poll_process (replicate m 2080) s = Inr (bss, s') \<and>
    concat bss = concat (map process_event_bytes es) \<and> pm_inv s' []"
  by (rule procmon.poll_session_complete [OF assms(1) _ assms(2)]) simp_all

theorem procmon_session_complete_witness:
  "\<exists>bss s'. poll_session poll_process (replicate 2 2080) pm_queued0 = Inr (bss, s') \<and>
    concat bss = concat (map process_event_bytes [process_event0]) \<and> pm_inv s' []"
  by (rule procmon_session_complete [OF pm_queued0_inv]) simp

text \<open>
  C34. A missed notification is never made up for. The event object is set and cleared in
  one go, so the client wakes up only if it waits at that moment, and then takes one event.
  If \<open>k\<close> events are queued while the client is busy or waiting, then at least \<open>k\<close> events are
  queued at every later moment: the client stays that far behind for ever.
\<close>

theorem process_backlog_permanent:
  assumes "pm_inv (link_driver l) es" and "link_phase l \<noteq> AskForEvent" and "link_run l l'"
  shows "length es \<le> length (lQueuedProcessEvents (link_driver l'))"
proof -
  have "link_inv l" using assms(1,2) by (auto simp: link_inv_def)
  with link_run_backlog [OF assms(3)] have "link_backlog l \<le> link_backlog l'" by blast
  then show ?thesis
    using assms(2) pm_inv_length [OF assms(1)] by (auto simp: link_backlog_def split: if_splits)
qed

definition link0 :: process_link where
  "link0 = \<lparr>link_driver = pm_queued0, link_phase = HandleEvent, link_received = []\<rparr>"

lemma link0_run: "link_run link0 (link0\<lparr>link_phase := WaitForEvent\<rparr>)"
  by (rule link_run.link_next [OF link_run.link_refl link_step.handle_step]) (simp add: link0_def)

theorem process_backlog_permanent_witness:
  "length [process_event0] \<le>
     length (lQueuedProcessEvents (link_driver (link0\<lparr>link_phase := WaitForEvent\<rparr>)))"
  by (rule process_backlog_permanent [OF _ _ link0_run]) (simp_all add: link0_def pm_queued0_inv)

text \<open>
  Unloading leaks: the link, the device and the callback are gone, but the block of
  every queued event is still in the pool. And every callback whose search for the image
  opens the process leaves the handle open.
\<close>

theorem process_unload_leaks:
  assumes "pm_inv s es" and "pm_bReady s"
  shows "(\<exists>s'. pm_UnloadDriver s = Inr s' \<and> \<not> pm_callback s' \<and> \<not> pm_device s' \<and> \<not> pm_symlink s' \<and>
      card (dom (blocks s')) = length es) \<and>
    (\<forall>rq. process_request_ok rq \<and> granted s (ticks s) \<and> iq_opened (pr_first rq) \<longrightarrow>
      (\<exists>s'. ProcessCallback rq s = Inr s' \<and> pm_handles s < pm_handles s'))"
proof -
  have "\<exists>s'. ProcessCallback rq s = Inr s' \<and> pm_handles s < pm_handles s'"
    if "process_request_ok rq" "granted s (ticks s)" "iq_opened (pr_first rq)" for rq
    using ProcessCallback_inv [OF assms(1) that(1)] that(2,3) by fastforce
  with pm_UnloadDriver_leaks [OF assms] show ?thesis by blast
qed

theorem process_unload_leaks_witness:
  "(\<exists>s'. pm_UnloadDriver pm_queued0 = Inr s' \<and> \<not> pm_callback s' \<and> \<not> pm_device s' \<and>
      \<not> pm_symlink s' \<and> card (dom (blocks s')) = length [process_event0]) \<and>
    (\<exists>s'. ProcessCallback process_request0 pm_queued0 = Inr s' \<and> pm_handles pm_queued0 < pm_handles s')"
proof -
  have "pm_bReady pm_queued0" "granted pm_queued0 (ticks pm_queued0)" "iq_opened (pr_first process_request0)"
    by (simp_all add: pm_queued0_def pm_loaded0_def pm_image0_def process_request0_def image_query0_def)
  with process_unload_leaks [OF pm_queued0_inv] show ?thesis by simp
qed

text \<open>
  The structure the two sides share: an event with its 1024 characters is read back from
  its bytes, whatever follows them, and they are 2080.
\<close>

theorem process_event_round_trip:
  assumes "process_event_wf e"
  shows "process_info_at (process_event_bytes e @ rest) = e \<and>
    length (process_event_bytes e) = unat sizeof_PROCESS_EVENT"
  using process_info_at_bytes [OF assms] assms
  by (simp add: process_event_wf_def sizeof_PROCESS_EVENT_def)

theorem process_event_round_trip_witness:
  "process_info_at (process_event_bytes process_event0 @ [1, 2]) = process_event0 \<and>
    length (process_event_bytes process_event0) = unat sizeof_PROCESS_EVENT"
  by (rule process_event_round_trip) simp

end
