(* ===== verification/WideText.thy ===== *)
theory WideText
  imports Prelude
begin

text \<open>
  The operations on \<open>std::wstring\<close> the client uses, and the ways its code can go wrong. A
  position is a natural number, \<open>std::wstring::npos\<close> is \<open>None\<close>.
\<close>

subsection \<open>Failures of the client\<close>

text \<open>
  An exception of the standard, the regular expression or the conversion library, a read or
  write outside an object, a pointer or an iterator used after what it points at is gone or
  before it is set, a block freed twice or by a pointer into its middle, the program ending
  itself, and running out of fuel (which the theorems show does not happen).
\<close>

datatype client_error =
    OUT_OF_RANGE
  | REGEX_ERROR
  | BUFFER_OVERRUN
  | DANGLING_ITERATOR
  | NULL_POINTER
  | WILD_WRITE
  | DOUBLE_FREE
  | BAD_CAST
  | BAD_FREE
  | DANGLING_POINTER
  | PROGRAM_EXIT
  | OUT_OF_FUEL

subsection \<open>Searching and cutting\<close>

primrec index_of :: "'a \<Rightarrow> 'a list \<Rightarrow> nat option" where
  "index_of c [] = None"
| "index_of c (x # xs) = (if x = c then Some 0 else map_option Suc (index_of c xs))"

text \<open>\<open>find(c, from)\<close> and \<open>find_last_of(c)\<close>.\<close>

definition wfind :: "'a \<Rightarrow> nat \<Rightarrow> 'a list \<Rightarrow> nat option" where
  "wfind c from s = map_option ((+) from) (index_of c (drop from s))"

definition wfind_last :: "'a \<Rightarrow> 'a list \<Rightarrow> nat option" where
  "wfind_last c s = map_option (\<lambda>i. length s - 1 - i) (index_of c (rev s))"

text \<open>\<open>substr(pos, n)\<close> throws when \<open>pos\<close> is beyond the end.\<close>

definition wsubstr :: "nat option \<Rightarrow> nat option \<Rightarrow> 'a list \<Rightarrow> client_error + 'a list" where
  "wsubstr pos n s =
     (case pos of
        None \<Rightarrow> Inl OUT_OF_RANGE
      | Some i \<Rightarrow>
          if length s < i then Inl OUT_OF_RANGE
          else Inr (case n of None \<Rightarrow> drop i s | Some k \<Rightarrow> take k (drop i s)))"

text \<open>\<open>rfind(p, 0)\<close> finds \<open>p\<close> at the start or not at all.\<close>

definition starts_with :: "'a list \<Rightarrow> 'a list \<Rightarrow> bool" where
  "starts_with p s \<longleftrightarrow> take (length p) s = p"

text \<open>A string of C ends before the first zero.\<close>

definition c_str :: "wstring \<Rightarrow> wstring" where
  "c_str s = takeWhile (\<lambda>c. c \<noteq> 0) s"

text \<open>
  Both monitors convert a kernel name with a list of pairs: the first pair whose first
  string starts the name wins, and is replaced by its second string.
\<close>

fun replace_prefix :: "('a list \<times> 'a list) list \<Rightarrow> 'a list \<Rightarrow> 'a list" where
  "replace_prefix [] s = s"
| "replace_prefix ((p, r) # ps) s =
     (if starts_with p s then r @ drop (length p) s else replace_prefix ps s)"

subsection \<open>Facts\<close>

lemma index_of_None [simp]: "index_of c s = None \<longleftrightarrow> c \<notin> set s"
  by (induction s) auto

lemma index_of_Some: "index_of c s = Some i \<Longrightarrow> i < length s \<and> s ! i = c \<and> c \<notin> set (take i s)"
proof (induction s arbitrary: i)
  case (Cons x s)
  then show ?case by (cases i) (auto split: if_splits)
qed simp

lemma index_of_append: "c \<notin> set p \<Longrightarrow> index_of c (p @ c # s) = Some (length p)"
  by (induction p) auto

lemma wfind_append: "c \<notin> set p \<Longrightarrow> wfind c (length xs) (xs @ p @ c # s) = Some (length xs + length p)"
  by (simp add: wfind_def index_of_append)

lemma wfind_Some: "wfind c from s = Some i \<Longrightarrow> from \<le> i \<and> i < length s \<and> s ! i = c"
  by (auto simp: wfind_def dest!: index_of_Some)

lemma wfind_None [simp]: "wfind c from s = None \<longleftrightarrow> c \<notin> set (drop from s)"
  by (simp add: wfind_def)

lemma wfind_last_append: "c \<notin> set p \<Longrightarrow> wfind_last c (s @ c # p) = Some (length s)"
  using index_of_append [of c "rev p" "rev s"] by (simp add: wfind_last_def)

lemma wfind_last_None [simp]: "wfind_last c s = None \<longleftrightarrow> c \<notin> set s"
  by (simp add: wfind_last_def)

lemma wfind_last_Some: "wfind_last c s = Some i \<Longrightarrow> i < length s \<and> s ! i = c \<and> c \<notin> set (drop (Suc i) s)"
proof -
  assume "wfind_last c s = Some i"
  then obtain j where j: "index_of c (rev s) = Some j" "i = length s - 1 - j"
    by (auto simp: wfind_last_def)
  have k: "j < length s" "rev s ! j = c" "c \<notin> set (take j (rev s))"
    using index_of_Some [OF j(1)] by simp_all
  have "set (take j (rev s)) = set (drop (Suc i) s)"
    using j(2) k(1) by (simp add: take_rev Suc_diff_Suc)
  then show ?thesis using k j(2) by (auto simp: rev_nth)
qed

lemma starts_with_append [simp]: "starts_with p (p @ s)"
  by (simp add: starts_with_def)

lemma starts_withE:
  assumes "starts_with p s"
  obtains t where "s = p @ t"
  using assms that append_take_drop_id [of "length p" s] unfolding starts_with_def by metis

lemma c_str_terminated: "0 \<notin> set s \<Longrightarrow> c_str (s @ 0 # t) = s"
  by (induction s) (auto simp: c_str_def)

lemma replace_prefix_hit:
  "(\<forall>(p, r) \<in> set ps. \<not> starts_with p (q @ t)) \<Longrightarrow>
     replace_prefix (ps @ (q, d) # qs) (q @ t) = d @ t"
  by (induction ps) auto

lemma replace_prefix_miss:
  "(\<forall>(p, r) \<in> set ps. \<not> starts_with p s) \<Longrightarrow> replace_prefix ps s = s"
  by (induction ps) auto

end
