(* ===== verification/EventLoop.thy ===== *)
theory EventLoop
  imports FileMonitorSystem RegistrySystem WideText
begin

text \<open>
  The loop with which the file and the registry monitor of the client walk through a buffer
  of events of variable size: \<open>run\<close> in \<open>FileMonitor.cpp\<close> and \<open>RegistryMonitor.cpp\<close>. It never
  ends where a size makes the 32-bit offset come back; on what the drivers deliver it visits
  every event once and in order.
\<close>

subsection \<open>The loop\<close>

text \<open>
  \<open>sz\<close> reads the size of the event at the front of the bytes, \<open>h\<close> handles it, \<open>stop\<close> tells
  whether the thread has been asked to end.
\<close>

partial_function (option) event_loop ::
    "(u8 list \<Rightarrow> u32) \<Rightarrow> (u8 list \<Rightarrow> 's \<Rightarrow> client_error + 's) \<Rightarrow> ('s \<Rightarrow> bool) \<Rightarrow> u8 list \<Rightarrow> u32 \<Rightarrow> u32 \<Rightarrow>
     's \<Rightarrow> (client_error + 's) option" where
  "event_loop sz h stop buf n offset s =
     (case h (drop (unat offset) buf) s of
        Inl e \<Rightarrow> Some (Inl e)
      | Inr s' \<Rightarrow>
          let offset' = offset + sz (drop (unat offset) buf)
          in if \<not> stop s' \<and> offset' < n then event_loop sz h stop buf n offset' s'
             else Some (Inr s'))"

text \<open>A whole answer: nothing is done with fewer bytes than one event takes.\<close>

definition handle_answer ::
    "u32 \<Rightarrow> (u8 list \<Rightarrow> u32) \<Rightarrow> (u8 list \<Rightarrow> 's \<Rightarrow> client_error + 's) \<Rightarrow> ('s \<Rightarrow> bool) \<Rightarrow> u8 list \<Rightarrow> u32 \<Rightarrow>
     's \<Rightarrow> (client_error + 's) option" where
  "handle_answer header sz h stop buf n s =
     (if header \<le> n then event_loop sz h stop buf n 0 s else Some (Inr s))"

text \<open>What it is meant to do: one event after the other.\<close>

fun handle_events ::
    "('e \<Rightarrow> 's \<Rightarrow> client_error + 's) \<Rightarrow> ('s \<Rightarrow> bool) \<Rightarrow> 'e list \<Rightarrow> 's \<Rightarrow> client_error + 's" where
  "handle_events g stop [] s = Inr s"
| "handle_events g stop (e # es) s =
     and_then (g e s) (\<lambda>s'. if stop s' then Inr s' else handle_events g stop es s')"

subsection \<open>Events laid out one behind the other\<close>

locale event_codec =
  fixes ok :: "'e \<Rightarrow> bool" and encode :: "'e \<Rightarrow> u8 list" and size_at :: "u8 list \<Rightarrow> u32"
    and header :: u32
  assumes size_encoded: "ok e \<Longrightarrow> unat (size_at (encode e @ rest)) = length (encode e)"
    and header_fits: "ok e \<Longrightarrow> unat header \<le> length (encode e)"
    and header_pos: "0 < header"
begin

lemma event_loop_encoded:
  assumes "es \<noteq> []" and "\<forall>e \<in> set es. ok e"
    and "\<And>e rest s. e \<in> set es \<Longrightarrow> h (encode e @ rest) s = g e s"
    and "length (pre @ concat (map encode es)) = unat n"
  shows "event_loop size_at h stop (pre @ concat (map encode es) @ rest) n (of_nat (length pre)) s =
    Some (handle_events g stop es s)"
  using assms
proof (induction es arbitrary: pre s)
  case (Cons e es)
  let ?buf = "pre @ concat (map encode (e # es)) @ rest"
  let ?tail = "concat (map encode es) @ rest"
  have n: "length pre + length (encode e) + length (concat (map encode es)) = unat n"
    using Cons.prems(4) by simp
  have lt: "unat n < 2 ^ 32" by simp
  have "length pre < 2 ^ 32" using n lt by linarith
  then have "unat (of_nat (length pre) :: u32) = length pre" by (rule unat_of_nat_small32)
  then have d: "drop (unat (of_nat (length pre) :: u32)) ?buf = encode e @ ?tail" by simp
  have "unat (size_at (encode e @ ?tail)) = length (encode e)"
    by (rule size_encoded) (use Cons.prems(2) in simp)
  then have "size_at (encode e @ ?tail) = of_nat (length (encode e))"
    by (metis of_nat_unat ucast_id)
  then have sz: "of_nat (length pre) + size_at (encode e @ ?tail) = (of_nat (length (pre @ encode e)) :: u32)"
    by simp
  have hd: "h (encode e @ ?tail) s = g e s" by (rule Cons.prems(3)) simp
  have "length (pre @ encode e) < 2 ^ 32"
    unfolding length_append using n lt by linarith
  then have un: "unat (of_nat (length (pre @ encode e)) :: u32) = length (pre @ encode e)"
    by (rule unat_of_nat_small32)
  have more: "(of_nat (length (pre @ encode e)) :: u32) < n \<longleftrightarrow> es \<noteq> []"
  proof -
    have pos: "0 < length (concat (map encode es))" if ne: "es \<noteq> []"
    proof -
      obtain e' es' where es: "es = e' # es'" using ne by (cases es) auto
      have "0 < unat header" using header_pos by (simp add: word_less_nat_alt)
      then show ?thesis using header_fits [of e'] Cons.prems(2) es by auto
    qed
    have "length (pre @ encode e) < unat n \<longleftrightarrow> es \<noteq> []"
    proof (cases "es = []")
      case False
      then show ?thesis using pos n unfolding length_append by linarith
    qed (use n in simp)
    then show ?thesis unfolding word_less_nat_alt un .
  qed
  have ih: "event_loop size_at h stop ((pre @ encode e) @ concat (map encode es) @ rest) n
      (of_nat (length (pre @ encode e))) s' = Some (handle_events g stop es s')" if "es \<noteq> []" for s'
    by (rule Cons.IH) (use that Cons.prems in auto)
  show ?case
    by (subst event_loop.simps, unfold d sz hd Let_def more)
       (use ih in \<open>auto split: sum.splits\<close>)
qed simp

lemma handle_answer_encoded:
  assumes "\<forall>e \<in> set es. ok e" and "\<And>e rest s. e \<in> set es \<Longrightarrow> h (encode e @ rest) s = g e s"
    and "length (concat (map encode es)) = unat n"
  shows "handle_answer header size_at h stop (concat (map encode es) @ rest) n s =
    Some (handle_events g stop es s)"
proof (cases "es = []")
  case True
  then have "\<not> header \<le> n" using assms(3) header_pos by (simp add: word_le_nat_alt word_less_nat_alt)
  then show ?thesis using True by (simp add: handle_answer_def)
next
  case False
  then obtain e es' where es: "es = e # es'" by (cases es) auto
  then have "unat header \<le> unat n" using header_fits [of e] assms(1,3) by simp
  moreover have "event_loop size_at h stop ([] @ concat (map encode es) @ rest) n
      (of_nat (length ([] :: u8 list))) s = Some (handle_events g stop es s)"
    by (rule event_loop_encoded [OF False assms(1)]) (use assms(2,3) in auto)
  ultimately show ?thesis by (simp add: handle_answer_def word_le_nat_alt)
qed

end


subsection \<open>The two layouts\<close>

definition file_event_size_at :: "u8 list \<Rightarrow> u32" where
  "file_event_size_at bs = sizeof_FILE_EVENT + filePathLength (file_event_at bs)"

definition registry_event_size_at :: "u8 list \<Rightarrow> u32" where
  "registry_event_size_at bs =
     sizeof_REGISTRY_EVENT + registryPathLengthB (registry_event_at bs) + dataLengthB (registry_event_at bs)"

interpretation file_codec: event_codec file_event_wf file_event_bytes file_event_size_at sizeof_FILE_EVENT
proof unfold_locales
  fix e rest
  assume ok: "file_event_wf e"
  then show "unat (file_event_size_at (file_event_bytes e @ rest)) = length (file_event_bytes e)"
    using file_event_size_bytes [OF ok]
    by (simp only: file_event_size_at_def file_event_at_bytes file_event_size_def)
  show "unat sizeof_FILE_EVENT \<le> length (file_event_bytes e)" by (simp add: sizeof_FILE_EVENT_def)
qed (simp add: sizeof_FILE_EVENT_def)

interpretation registry_codec:
  event_codec registry_event_wf registry_event_bytes registry_event_size_at sizeof_REGISTRY_EVENT
proof unfold_locales
  fix e rest
  assume ok: "registry_event_wf e"
  then show "unat (registry_event_size_at (registry_event_bytes e @ rest)) = length (registry_event_bytes e)"
    using registry_event_size_bytes [OF ok]
    by (simp only: registry_event_size_at_def registry_event_at_bytes registry_event_size_def)
  show "unat sizeof_REGISTRY_EVENT \<le> length (registry_event_bytes e)"
    by (simp add: sizeof_REGISTRY_EVENT_def)
qed (simp add: sizeof_REGISTRY_EVENT_def)

end
