(* ===== verification/ExclusionList.thy ===== *)
theory ExclusionList
  imports WideText
begin

text \<open>
  The exclusion lists of the monitors (\<open>Permission.cpp\<close>, \<open>Monitor.cpp\<close>): a permission with
  its regular expressions, the map from action names to permissions, the decision whether an
  event is excluded, adding and clearing permissions, the quoting of paths, and the reader
  of exclusion list files.
\<close>

subsection \<open>What the lists are made of\<close>

text \<open>
  The regular expression library and the case table are not part of the program: which
  expressions it accepts, which strings an expression matches as a whole (ignoring case),
  and \<open>towlower\<close>. \<open>allow_garbage\<close> is what the member \<open>allow\<close> of a new permission holds
  before it is set.
\<close>

record text_env =
  regex_valid :: "wstring \<Rightarrow> bool"
  regex_match :: "wstring \<Rightarrow> wstring \<Rightarrow> bool"
  towlower :: "wchar \<Rightarrow> wchar"
  allow_garbage :: bool

record permission =
  subjects :: "wstring list"
  objects :: "wstring list"
  allow :: bool
  permaneant :: bool

datatype permission_classification = NO_MATCH | ALLOWED | DISALLOWED

text \<open>A map with each action once, in the order the actions were inserted.\<close>

type_synonym permission_map = "(wstring \<times> permission list) list"

definition map_wf :: "permission_map \<Rightarrow> bool" where
  "map_wf m \<longleftrightarrow> distinct (map fst m)"

definition rules_for :: "wstring \<Rightarrow> permission_map \<Rightarrow> permission list" where
  "rules_for a m = (case map_of m a of None \<Rightarrow> [] | Some ps \<Rightarrow> ps)"

definition lower_case :: "text_env \<Rightarrow> wstring \<Rightarrow> wstring" where
  "lower_case env s = map (towlower env) s"

subsection \<open>The decision\<close>

text \<open>\<open>Permission::Check\<close>; the strings are handed to the library as strings of C.\<close>

fun check_objects :: "text_env \<Rightarrow> bool \<Rightarrow> wstring \<Rightarrow> wstring list \<Rightarrow> permission_classification" where
  "check_objects env al obj [] = NO_MATCH"
| "check_objects env al obj (r # rs) =
     (if regex_match env r (c_str obj) then (if al then ALLOWED else DISALLOWED)
      else check_objects env al obj rs)"

definition Check :: "text_env \<Rightarrow> permission \<Rightarrow> wstring \<Rightarrow> wstring \<Rightarrow> permission_classification" where
  "Check env p subject obj =
     (if \<exists>r \<in> set (subjects p). regex_match env r (c_str subject)
      then check_objects env (allow p) obj (objects p) else NO_MATCH)"

definition decide :: "permission_classification \<Rightarrow> permission_classification \<Rightarrow>
    permission_classification" where
  "decide excluded new =
     (case new of
        ALLOWED \<Rightarrow> if excluded \<noteq> DISALLOWED then ALLOWED else excluded
      | DISALLOWED \<Rightarrow> DISALLOWED
      | NO_MATCH \<Rightarrow> excluded)"

definition isEventAllowed ::
    "text_env \<Rightarrow> permission_map \<Rightarrow> wstring \<Rightarrow> wstring \<Rightarrow> wstring \<Rightarrow> bool" where
  "isEventAllowed env m eventType subject obj =
     (foldl (\<lambda>ex p. decide ex (Check env p subject obj)) NO_MATCH
        (rules_for (lower_case env eventType) m) = ALLOWED)"

subsection \<open>Adding and clearing\<close>

fun map_add_rule :: "wstring \<Rightarrow> permission \<Rightarrow> permission_map \<Rightarrow> permission_map" where
  "map_add_rule a p [] = [(a, [p])]"
| "map_add_rule a p ((b, ps) # m) =
     (if a = b then (b, ps @ [p]) # m else (b, ps) # map_add_rule a p m)"

text \<open>
  \<open>addExclusion\<close>: the two expressions are compiled before anything is inserted. Only four
  words set \<open>allow\<close>.
\<close>

definition allow_word :: "text_env \<Rightarrow> wstring \<Rightarrow> bool" where
  "allow_word env excluded =
     (if excluded = wide ''yes'' \<or> excluded = wide ''+'' then True
      else if excluded = wide ''no'' \<or> excluded = wide ''-'' then False
      else allow_garbage env)"

definition addExclusion ::
    "text_env \<Rightarrow> wstring \<Rightarrow> wstring \<Rightarrow> wstring \<Rightarrow> wstring \<Rightarrow> bool \<Rightarrow> permission_map \<Rightarrow>
     client_error + permission_map" where
  "addExclusion env excluded action subject obj perm m =
     (if \<not> regex_valid env (c_str subject) \<or> \<not> regex_valid env (c_str obj) then Inl REGEX_ERROR
      else Inr (map_add_rule (lower_case env action)
             \<lparr>subjects = [c_str subject], objects = [c_str obj],
              allow = allow_word env excluded, permaneant = perm\<rparr> m))"

text \<open>
  \<open>clearExclusionList\<close> removes the element its iterator points at and then advances the
  iterator: the first permission that is not permanent ends in freed memory.
\<close>

fun clear_rules :: "permission list \<Rightarrow> client_error + permission list" where
  "clear_rules [] = Inr []"
| "clear_rules (p # ps) =
     (if permaneant p then and_then (clear_rules ps) (\<lambda>qs. Inr (p # qs)) else Inl DANGLING_ITERATOR)"

fun clearExclusionList :: "permission_map \<Rightarrow> client_error + permission_map" where
  "clearExclusionList [] = Inr []"
| "clearExclusionList ((a, ps) # m) =
     and_then (clear_rules ps) (\<lambda>qs. and_then (clearExclusionList m) (\<lambda>m'. Inr ((a, qs) # m')))"

subsection \<open>Quoting a path\<close>

text \<open>
  The loop of \<open>find\<close> and \<open>replace\<close>: \<open>c\<close> is the character looked for, \<open>r\<close> what it becomes.
\<close>

function replace_loop :: "'a \<Rightarrow> 'a list \<Rightarrow> nat \<Rightarrow> 'a list \<Rightarrow> 'a list" where
  "replace_loop c r offset s =
     (case wfind c offset s of
        None \<Rightarrow> s
      | Some i \<Rightarrow> replace_loop c r (i + length r) (take i s @ r @ drop (Suc i) s))"
  by pat_completeness auto
termination
proof (relation "measure (\<lambda>(c, r, offset, s). length s - offset)")
  fix c :: 'a and r :: "'a list" and offset s i
  assume "wfind c offset s = Some i"
  then have "offset \<le> i" "i < length s" using wfind_Some [of c offset s i] by simp_all
  then show "((c, r, i + length r, take i s @ r @ drop (Suc i) s), c, r, offset, s)
      \<in> measure (\<lambda>(c, r, offset, s). length s - offset)" by simp
qed simp

declare replace_loop.simps [simp del]

definition prepareStringForExclusion :: "wstring \<Rightarrow> wstring" where
  "prepareStringForExclusion s =
     replace_loop 0x2E [0x5C, 0x2E] 0 (replace_loop 0x5C [0x5C, 0x5C] 0 s)"

text \<open>What it comes to: a backslash before every backslash and every full stop.\<close>

definition quote_char :: "wchar \<Rightarrow> wstring" where
  "quote_char c = (if c = 0x5C \<or> c = 0x2E then [0x5C, c] else [c])"

subsection \<open>Reading a file\<close>

datatype list_error = ActionIsRegex | TokenError | NoExclusionType | BadRegex

text \<open>
  A file opened in text mode: a carriage return before a line feed disappears, and the
  character 26 ends the file.
\<close>

fun text_mode :: "u8 list \<Rightarrow> u8 list" where
  "text_mode [] = []"
| "text_mode (c # cs) =
     (if c = 26 then [] else if c = 13 \<and> cs \<noteq> [] \<and> hd cs = 10 then text_mode cs
      else c # text_mode cs)"

fun split_on :: "'a \<Rightarrow> 'a list \<Rightarrow> 'a list list" where
  "split_on c [] = [[]]"
| "split_on c (x # xs) =
     (if x = c then [] # split_on c xs
      else (case split_on c xs of [] \<Rightarrow> [[x]] | f # fs \<Rightarrow> (x # f) # fs))"

text \<open>Characters of the file are signed and widened to 16 bits.\<close>

definition widen :: "u8 \<Rightarrow> wchar" where
  "widen c = scast c"

definition load_line ::
    "text_env \<Rightarrow> u8 list \<Rightarrow> permission_map \<Rightarrow> permission_map \<times> list_error option" where
  "load_line env line m =
     (if line = [] \<or> hd line = 0x23 then (m, None)
      else if hd line = 0x2B \<or> hd line = 0x2D
      then (case map (map widen) (split_on 9 line) of
              [t0, t1, t2, t3] \<Rightarrow>
                if t1 = wide ''.*'' \<or> t1 = wide ''.+'' then (m, Some ActionIsRegex)
                else (case addExclusion env t0 t1 t2 t3 False m of
                        Inl e \<Rightarrow> (m, Some BadRegex)
                      | Inr m' \<Rightarrow> (m', None))
            | _ \<Rightarrow> (m, Some TokenError))
      else (m, Some NoExclusionType))"

text \<open>The map after the lines, and the numbers of the lines that were refused.\<close>

fun load_lines ::
    "text_env \<Rightarrow> nat \<Rightarrow> u8 list list \<Rightarrow> permission_map \<Rightarrow>
     permission_map \<times> (nat \<times> list_error) list" where
  "load_lines env n [] m = (m, [])"
| "load_lines env n (line # ls) m =
     (let (m1, e) = load_line env line m;
          (m2, es) = load_lines env (Suc n) ls m1
      in (m2, (case e of None \<Rightarrow> es | Some x \<Rightarrow> (n, x) # es)))"

text \<open>\<open>None\<close>: the file could not be opened.\<close>

definition loadExclusionList ::
    "text_env \<Rightarrow> u8 list option \<Rightarrow> permission_map \<Rightarrow> permission_map \<times> (nat \<times> list_error) list" where
  "loadExclusionList env file m =
     (case file of
        None \<Rightarrow> (m, [])
      | Some bs \<Rightarrow> load_lines env 1 (split_on 10 (text_mode bs)) m)"

subsection \<open>The decision does not depend on the order\<close>

lemma decide_join:
  "decide x n = (if x = DISALLOWED \<or> n = DISALLOWED then DISALLOWED
     else if x = ALLOWED \<or> n = ALLOWED then ALLOWED else NO_MATCH)"
  by (cases x; cases n) (simp_all add: decide_def)

lemma foldl_decide:
  "foldl (\<lambda>ex p. decide ex (f p)) x ps =
     (if x = DISALLOWED \<or> (\<exists>p \<in> set ps. f p = DISALLOWED) then DISALLOWED
      else if x = ALLOWED \<or> (\<exists>p \<in> set ps. f p = ALLOWED) then ALLOWED else NO_MATCH)"
proof (induction ps arbitrary: x)
  case Nil
  then show ?case by (cases x) auto
next
  case (Cons p ps)
  show ?case
    using Cons.IH [of "decide x (f p)"] decide_join [of x "f p"] by (simp only: foldl_Cons) auto
qed

lemma isEventAllowed_iff:
  "isEventAllowed env m ev subject obj \<longleftrightarrow>
     (\<exists>p \<in> set (rules_for (lower_case env ev) m). Check env p subject obj = ALLOWED) \<and>
     (\<forall>p \<in> set (rules_for (lower_case env ev) m). Check env p subject obj \<noteq> DISALLOWED)"
  unfolding isEventAllowed_def foldl_decide by auto

lemma check_objects_iff:
  "check_objects env al obj rs =
     (if \<exists>r \<in> set rs. regex_match env r (c_str obj) then (if al then ALLOWED else DISALLOWED)
      else NO_MATCH)"
  by (induction rs) auto

lemma Check_single:
  "Check env \<lparr>subjects = [s], objects = [ob], allow = al, permaneant = pm\<rparr> subject obj =
     (if regex_match env s (c_str subject) \<and> regex_match env ob (c_str obj)
      then (if al then ALLOWED else DISALLOWED) else NO_MATCH)"
  by (simp add: Check_def)

subsection \<open>What adding does\<close>

lemma rules_for_add:
  "rules_for b (map_add_rule a p m) = (if b = a then rules_for b m @ [p] else rules_for b m)"
  by (induction m) (auto simp: rules_for_def)

lemma keys_map_add_rule:
  "map fst (map_add_rule a p m) =
     (if a \<in> set (map fst m) then map fst m else map fst m @ [a])"
  by (induction m) force+

lemma map_wf_add: "map_wf m \<Longrightarrow> map_wf (map_add_rule a p m)"
  by (simp add: map_wf_def keys_map_add_rule)

text \<open>A rule that was added decides alone where no other rule speaks against it.\<close>

lemma isEventAllowed_add:
  assumes "addExclusion env excluded action subject obj perm m = Inr m'"
  shows "isEventAllowed env m' ev s t \<longleftrightarrow>
    (if lower_case env ev = lower_case env action \<and>
        regex_match env (c_str subject) (c_str s) \<and> regex_match env (c_str obj) (c_str t)
     then allow_word env excluded \<and>
        (\<forall>p \<in> set (rules_for (lower_case env ev) m). Check env p s t \<noteq> DISALLOWED)
     else isEventAllowed env m ev s t)"
proof -
  have m': "m' = map_add_rule (lower_case env action)
      \<lparr>subjects = [c_str subject], objects = [c_str obj],
       allow = allow_word env excluded, permaneant = perm\<rparr> m"
    using assms unfolding addExclusion_def by (simp split: if_split_asm)
  show ?thesis
    unfolding m' isEventAllowed_iff rules_for_add
    by (cases "allow_word env excluded") (auto simp: Check_single)
qed

subsection \<open>Clearing\<close>

lemma clear_rules_iff:
  "clear_rules ps = (if \<forall>p \<in> set ps. permaneant p then Inr ps else Inl DANGLING_ITERATOR)"
  by (induction ps) auto

lemma clearExclusionList_iff:
  "clearExclusionList m =
     (if \<forall>(a, ps) \<in> set m. \<forall>p \<in> set ps. permaneant p then Inr m else Inl DANGLING_ITERATOR)"
  by (induction m rule: clearExclusionList.induct) (auto simp: clear_rules_iff)

subsection \<open>Quoting\<close>

lemma replace_loop_append:
  "replace_loop c r (length p) (p @ s) = p @ concat (map (\<lambda>x. if x = c then r else [x]) s)"
proof (induction "length s" arbitrary: p s rule: less_induct)
  case less
  show ?case
  proof (cases "c \<in> set s")
    case False
    then have "concat (map (\<lambda>x. if x = c then r else [x]) s) = s"
      by (induction s) auto
    moreover have "wfind c (length p) (p @ s) = None" using False by simp
    ultimately show ?thesis by (subst replace_loop.simps) (simp del: wfind_None)
  next
    case True
    then obtain q t where s: "s = q @ c # t" "c \<notin> set q" by (metis split_list_first)
    have f: "wfind c (length p) (p @ s) = Some (length p + length q)"
      using wfind_append [OF s(2)] s(1) by simp
    have keep: "concat (map (\<lambda>x. if x = c then r else [x]) q) = q"
      using s(2) by (induction q) auto
    have ih: "replace_loop c r (length (p @ q @ r)) ((p @ q @ r) @ t) =
        (p @ q @ r) @ concat (map (\<lambda>x. if x = c then r else [x]) t)"
      by (rule less) (simp add: s(1))
    have cut: "take (length p + length q) (p @ s) @ r @ drop (Suc (length p + length q)) (p @ s)
        = (p @ q @ r) @ t"
      by (simp add: s(1))
    have "replace_loop c r (length p) (p @ s) = replace_loop c r (length (p @ q @ r)) ((p @ q @ r) @ t)"
      by (subst replace_loop.simps) (simp only: f option.case cut length_append add.assoc)
    then show ?thesis using ih keep by (simp add: s(1))
  qed
qed

lemma replace_loop_all: "replace_loop c r 0 s = concat (map (\<lambda>x. if x = c then r else [x]) s)"
  using replace_loop_append [of c r "[]" s] by simp

lemma prepareStringForExclusion_quotes:
  "prepareStringForExclusion s = concat (map quote_char s)"
proof -
  have "concat (map (\<lambda>x. if x = 0x2E then [0x5C, 0x2E] else [x])
      (concat (map (\<lambda>x. if x = 0x5C then [0x5C, 0x5C] else [x]) s))) = concat (map quote_char s)"
    by (induction s) (auto simp: quote_char_def)
  then show ?thesis by (simp add: prepareStringForExclusion_def replace_loop_all)
qed

subsection \<open>Reading\<close>

lemma split_on_ne [simp]: "split_on c s \<noteq> []"
  by (induction s) (auto split: list.splits)

lemma split_on_free: "c \<notin> set f \<Longrightarrow> split_on c (f @ c # s) = f # split_on c s"
  by (induction f) auto

lemma split_on_end: "c \<notin> set f \<Longrightarrow> split_on c f = [f]"
  by (induction f) auto

lemma text_mode_plain: "13 \<notin> set bs \<Longrightarrow> 26 \<notin> set bs \<Longrightarrow> text_mode bs = bs"
  by (induction bs) auto

lemma split_lines:
  "\<forall>l \<in> set ls. 10 \<notin> set l \<Longrightarrow> split_on 10 (concat (map (\<lambda>l. l @ [10]) ls)) = ls @ [[]]"
  by (induction ls) (simp_all add: split_on_free)

lemma load_line_skips:
  "line = [] \<or> hd line = 0x23 \<Longrightarrow> load_line env line m = (m, None)"
  by (simp add: load_line_def)

text \<open>A well-formed line adds exactly the rule it spells out.\<close>

lemma load_line_rule:
  assumes "9 \<notin> set t0 \<union> set t1 \<union> set t2 \<union> set t3" and "t0 = [0x2B] \<or> t0 = [0x2D]"
    and "map widen t1 \<noteq> wide ''.*''" and "map widen t1 \<noteq> wide ''.+''"
    and "addExclusion env (map widen t0) (map widen t1) (map widen t2) (map widen t3) False m = Inr m'"
  shows "load_line env (t0 @ [9] @ t1 @ [9] @ t2 @ [9] @ t3) m = (m', None)"
proof -
  have sp: "split_on 9 (t0 @ [9] @ t1 @ [9] @ t2 @ [9] @ t3) = [t0, t1, t2, t3]"
    using assms(1) by (simp add: split_on_free split_on_end)
  have hd: "hd (t0 @ [9] @ t1 @ [9] @ t2 @ [9] @ t3) \<in> {0x2B, 0x2D}" using assms(2) by auto
  then have "hd (t0 @ [9] @ t1 @ [9] @ t2 @ [9] @ t3) \<noteq> 0x23" by auto
  then show ?thesis using hd assms(3-5) by (simp only: load_line_def sp) auto
qed

text \<open>A list never removes a rule, and a refused line leaves the map as it was.\<close>

lemma addExclusion_keeps:
  "addExclusion env x a s t perm m = Inr m' \<Longrightarrow> \<exists>ps. rules_for b m' = rules_for b m @ ps"
  by (auto simp: addExclusion_def rules_for_add split: if_splits)

lemma load_line_keeps:
  assumes "load_line env line m = (m', e)"
  shows "\<exists>ps. rules_for b m' = rules_for b m @ ps" and "e \<noteq> None \<Longrightarrow> m' = m"
proof -
  have "(m' = m) \<or> (e = None \<and> (\<exists>x a s t. addExclusion env x a s t False m = Inr m'))"
    using assms unfolding load_line_def
    by (auto split: if_splits list.splits sum.splits)
  then show "\<exists>ps. rules_for b m' = rules_for b m @ ps" and "e \<noteq> None \<Longrightarrow> m' = m"
    using addExclusion_keeps by auto
qed

end
