(* ===== verification/ClientTime.thy ===== *)
theory ClientTime
  imports FileEvent WideText
begin

text \<open>
  How the client writes the time of an event (\<open>Time\<close> in \<open>CaptureGlobal.cpp\<close>): seven
  decimal numbers and the separators between them. A text has only one reading.
\<close>

subsection \<open>Decimal numbers\<close>

fun decimal :: "nat \<Rightarrow> wstring" where
  "decimal n = (if n < 10 then [of_nat (48 + n)] else decimal (n div 10) @ [of_nat (48 + n mod 10)])"

declare decimal.simps [simp del]

definition is_digit :: "wchar \<Rightarrow> bool" where
  "is_digit c \<longleftrightarrow> 48 \<le> c \<and> c \<le> 57"

lemma digit_code: "n < 10 \<Longrightarrow> unat (of_nat (48 + n) :: wchar) = 48 + n"
  by (rule unat_of_nat_small16) simp

lemma decimal_digits: "c \<in> set (decimal n) \<Longrightarrow> is_digit c"
proof (induction n rule: decimal.induct)
  case (1 n)
  have "is_digit (of_nat (48 + m))" if "m < 10" for m
    using digit_code [OF that] that by (simp add: is_digit_def word_le_nat_alt del: of_nat_add)
  then show ?case using 1 by (cases "n < 10") (auto simp: decimal.simps [of n] simp del: of_nat_add)
qed

primrec number_of :: "wstring \<Rightarrow> nat \<Rightarrow> nat" where
  "number_of [] a = a"
| "number_of (c # cs) a = number_of cs (a * 10 + (unat c - 48))"

lemma number_of_append: "number_of (xs @ ys) a = number_of ys (number_of xs a)"
  by (induction xs arbitrary: a) auto

lemma number_of_decimal: "number_of (decimal n) 0 = n"
proof (induction n rule: decimal.induct)
  case (1 n)
  show ?case
  proof (cases "n < 10")
    case True
    then show ?thesis using digit_code [of n] by (simp add: decimal.simps [of n] del: of_nat_add)
  next
    case False
    have "unat (of_nat (48 + n mod 10) :: wchar) = 48 + n mod 10" by (rule digit_code) simp
    then show ?thesis using 1 False
      by (simp add: decimal.simps [of n] number_of_append del: of_nat_add)
  qed
qed

lemma decimal_inject: "decimal m = decimal n \<longleftrightarrow> m = n"
  using number_of_decimal by metis

subsection \<open>Times\<close>

text \<open>The fields are unsigned; \<open>SYSTEMTIME\<close> has the same seven and is written in the same way.\<close>

definition timefieldToString :: "time_fields \<Rightarrow> wstring" where
  "timefieldToString t =
     decimal (unat (Day t)) @ 0x2F # decimal (unat (Month t)) @ 0x2F #
     decimal (unat (Year t)) @ 0x20 # decimal (unat (Hour t)) @ 0x3A #
     decimal (unat (Minute t)) @ 0x3A # decimal (unat (Second t)) @ 0x2E #
     decimal (unat (Milliseconds t))"

definition systemtimeToString :: "time_fields \<Rightarrow> wstring" where
  "systemtimeToString t =
     decimal (unat (Day t)) @ 0x2F # decimal (unat (Month t)) @ 0x2F #
     decimal (unat (Year t)) @ 0x20 # decimal (unat (Hour t)) @ 0x3A #
     decimal (unat (Minute t)) @ 0x3A # decimal (unat (Second t)) @ 0x2E #
     decimal (unat (Milliseconds t))"

lemma separated:
  assumes "c \<notin> set a" and "c \<notin> set b" and "a @ c # r = b @ c # s"
  shows "a = b \<and> r = s"
proof -
  have "takeWhile (\<lambda>x. x \<noteq> c) (l @ c # t) = l" if "c \<notin> set l" for l t
    using that by (induction l) auto
  from this [OF assms(1), of r] this [OF assms(2), of s] assms(3) have "a = b" by simp
  then show ?thesis using assms(3) by simp
qed

lemma separated_decimal:
  assumes "\<not> is_digit c" and "decimal a @ c # r = decimal b @ c # s"
  shows "a = b \<and> r = s"
  using separated [OF _ _ assms(2)] decimal_digits assms(1) decimal_inject by metis

lemma timefieldToString_inject:
  assumes "timefieldToString t = timefieldToString u"
  shows "Day t = Day u \<and> Month t = Month u \<and> Year t = Year u \<and> Hour t = Hour u \<and>
    Minute t = Minute u \<and> Second t = Second u \<and> Milliseconds t = Milliseconds u"
proof -
  have nd: "\<not> is_digit 0x2F" "\<not> is_digit 0x20" "\<not> is_digit 0x3A" "\<not> is_digit 0x2E"
    by (simp_all add: is_digit_def)
  note cut = separated_decimal [OF nd(1)] separated_decimal [OF nd(2)]
    separated_decimal [OF nd(3)] separated_decimal [OF nd(4)]
  note eq1 = cut(1) [OF assms [unfolded timefieldToString_def]]
  note eq2 = cut(1) [OF eq1 [THEN conjunct2]]
  note eq3 = cut(2) [OF eq2 [THEN conjunct2]]
  note eq4 = cut(3) [OF eq3 [THEN conjunct2]]
  note eq5 = cut(3) [OF eq4 [THEN conjunct2]]
  note eq6 = cut(4) [OF eq5 [THEN conjunct2]]
  show ?thesis
    using eq1 eq2 eq3 eq4 eq5 eq6 by (simp add: decimal_inject word_unat_eq_iff)
qed

end
