(* ===== verification/ProcessManager.thy ===== *)
theory ProcessManager
  imports ExclusionList ClientTime
begin

text \<open>
  The process manager of the client (\<open>ProcessManager.cpp\<close>) and the handler of process
  events of its monitor (\<open>ProcessMonitor::onProcessEvent\<close>): the map from process ids to
  paths, the conversion of kernel paths, and the lookup, which on a miss reports the process
  it found and so calls itself for the parent.
\<close>

subsection \<open>The system and the state\<close>

text \<open>
  What Windows answers. \<open>dos_target\<close> is the device behind a drive letter (\<open>None\<close>: no such
  drive), \<open>long_path\<close> what \<open>GetLongPathName\<close> writes (\<open>None\<close>: it fails), \<open>image_file_name\<close>
  what \<open>GetProcessImageFileName\<close> writes (\<open>None\<close>: it fails), \<open>image_buffer\<close> what the
  buffer of \<open>initialiseProcessMap\<close> holds after that call, \<open>snapshot\<close> the processes and
  their parents.
\<close>

record proc_env = text_env +
  dos_target :: "wchar \<Rightarrow> wstring option"
  long_path :: "wstring \<Rightarrow> wstring option"
  can_open :: "u32 \<Rightarrow> bool"
  image_file_name :: "u32 \<Rightarrow> wstring option"
  image_buffer :: "u32 \<Rightarrow> wstring"
  has_modules :: "u32 \<Rightarrow> bool"
  process_list :: "u32 list option"
  snapshot :: "(u32 \<times> u32) list option"
  local_time :: wstring

text \<open>An event as it is handed to the analyzer.\<close>

record process_signal =
  ps_created :: bool
  ps_time :: wstring
  ps_parentId :: u32
  ps_parentPath :: wstring
  ps_processId :: u32
  ps_processPath :: wstring

text \<open>
  \<open>arrivals\<close> is what other threads put into the map during the next waits of this one.
\<close>

record proc_state =
  processMap :: "u32 \<rightharpoonup> wstring"
  cacheHits :: nat
  cacheMisses :: nat
  cacheFailures :: nat
  monitor_set :: bool
  arrivals :: "(u32 \<times> wstring) list list"
  signalled :: "process_signal list"

subsection \<open>Paths\<close>

primrec find_drive :: "proc_env \<Rightarrow> wstring \<Rightarrow> wchar list \<Rightarrow> wstring" where
  "find_drive env dev [] = wide ''?:''"
| "find_drive env dev (d # ds) =
     (if dos_target env d = Some (c_str dev) then [d, 0x3A] else find_drive env dev ds)"

definition drive_letters :: "wchar list" where
  "drive_letters = map of_nat [65..<91]"

definition convertDevicePathToDOSDrive :: "proc_env \<Rightarrow> wstring \<Rightarrow> wstring" where
  "convertDevicePathToDOSDrive env dev = find_drive env dev drive_letters"

text \<open>
  The end of the device is the second backslash after the first character; with no backslash
  there, \<open>npos + 1\<close> is 0 and the search finds the first one again.
\<close>

definition device_end :: "wstring \<Rightarrow> nat option" where
  "device_end s = wfind 0x5C (case wfind 0x5C 1 s of None \<Rightarrow> 0 | Some i \<Rightarrow> i + 1) s"

definition convertFileObjectPathToDOSPath :: "proc_env \<Rightarrow> wstring \<Rightarrow> client_error + wstring" where
  "convertFileObjectPathToDOSPath env s =
     (if wfind 0x5C 0 s = Some 0 \<and> 23 < length s
      then (let off = device_end s;
                dev = (case off of None \<Rightarrow> s | Some i \<Rightarrow> take i s)
            in and_then (wsubstr off None s) (\<lambda>rest.
                 let dos = convertDevicePathToDOSDrive env dev @ rest
                 in Inr (case long_path env (c_str dos) of None \<Rightarrow> dos | Some l \<Rightarrow> l)))
      else Inr s)"

subsection \<open>The map\<close>

definition insertProcess :: "proc_env \<Rightarrow> u32 \<Rightarrow> wstring \<Rightarrow> proc_state \<Rightarrow> client_error + proc_state" where
  "insertProcess env pid path s =
     and_then (convertFileObjectPathToDOSPath env path) (\<lambda>p.
       Inr (s\<lparr>processMap := (processMap s)(pid \<mapsto> p)\<rparr>))"

definition pman_onProcessEvent ::
    "proc_env \<Rightarrow> bool \<Rightarrow> u32 \<Rightarrow> wstring \<Rightarrow> proc_state \<Rightarrow> client_error + proc_state" where
  "pman_onProcessEvent env created pid path s =
     (if created then and_then (convertFileObjectPathToDOSPath env path) (\<lambda>p. insertProcess env pid p s)
      else Inr s)"

text \<open>A snapshot that fails gives \<open>-1\<close>; of several entries with the id the last counts.\<close>

definition getParentProcessId :: "proc_env \<Rightarrow> u32 \<Rightarrow> u32" where
  "getParentProcessId env pid =
     (case snapshot env of
        None \<Rightarrow> -1
      | Some ps \<Rightarrow> foldl (\<lambda>par (p, q). if p = pid then q else par) (-1) ps)"

text \<open>One wait of at most 100 ms.\<close>

fun wait_for_process :: "proc_state \<Rightarrow> proc_state" where
  "wait_for_process s =
     (case arrivals s of
        [] \<Rightarrow> s
      | batch # rest \<Rightarrow> s\<lparr>arrivals := rest, processMap := processMap s ++ map_of (rev batch)\<rparr>)"

primrec lookup_retry :: "nat \<Rightarrow> u32 \<Rightarrow> proc_state \<Rightarrow> wstring option \<times> proc_state" where
  "lookup_retry 0 pid s = (None, s)"
| "lookup_retry (Suc n) pid s =
     (case processMap s pid of
        Some p \<Rightarrow> (Some p, s\<lparr>cacheHits := Suc (cacheHits s)\<rparr>)
      | None \<Rightarrow> lookup_retry n pid (wait_for_process s))"

subsection \<open>Lookups and events\<close>

definition file_part :: "wstring \<Rightarrow> wstring" where
  "file_part path = (case wfind_last 0x5C path of None \<Rightarrow> wide ''UNKNOWN'' | Some i \<Rightarrow> drop (i + 1) path)"

type_synonym path_lookup = "u32 \<Rightarrow> proc_state \<Rightarrow> client_error + (wstring \<times> proc_state)"

text \<open>
  \<open>ProcessMonitor::onProcessEvent\<close>, over the lookup it calls: the path comes from the map of
  the manager, not from the event.
\<close>

definition pmon_onProcessEvent ::
    "path_lookup \<Rightarrow> proc_env \<Rightarrow> permission_map \<Rightarrow> bool \<Rightarrow> u32 \<Rightarrow> u32 \<Rightarrow> wstring \<Rightarrow> proc_state \<Rightarrow>
     client_error + proc_state" where
  "pmon_onProcessEvent gp env m create pid parent time s =
     and_then (gp pid s) (\<lambda>(path, s).
     and_then (pman_onProcessEvent env create pid path s) (\<lambda>s.
     and_then (gp pid s) (\<lambda>(path2, s).
     and_then (gp parent s) (\<lambda>(ppath2, s).
     and_then (gp parent s) (\<lambda>(ppath, s).
       Inr (if isEventAllowed (text_env.truncate env) m (file_part path2) (file_part ppath2) path
            then s
            else s\<lparr>signalled := signalled s @
                   [\<lparr>ps_created = create, ps_time = time, ps_parentId = parent,
                     ps_parentPath = ppath, ps_processId = pid, ps_processPath = path\<rparr>]\<rparr>))))))"

text \<open>What happens on a miss: the system is asked, and a process it knows is reported.\<close>

definition path_from_system :: "path_lookup \<Rightarrow> proc_env \<Rightarrow> permission_map \<Rightarrow> path_lookup" where
  "path_from_system gp env m pid s =
     (let unknown = and_then (convertFileObjectPathToDOSPath env (wide ''UNKNOWN'')) (\<lambda>p.
            Inr (p, s\<lparr>cacheFailures := Suc (cacheFailures s)\<rparr>))
      in if \<not> can_open env pid then unknown
         else
           case image_file_name env pid of
             None \<Rightarrow> unknown
           | Some path \<Rightarrow>
               and_then (insertProcess env pid path s) (\<lambda>s.
               and_then
                 (if monitor_set s
                  then pmon_onProcessEvent gp env m True pid (getParentProcessId env pid) (local_time env) s
                  else Inr s) (\<lambda>s.
               and_then (convertFileObjectPathToDOSPath env path) (\<lambda>p. Inr (p, s)))))"

text \<open>
  \<open>ProcessManager::getProcessPath\<close>. The fuel bounds the chain of parents; the theorems show
  how much is enough.
\<close>

fun getProcessPath :: "proc_env \<Rightarrow> permission_map \<Rightarrow> nat \<Rightarrow> path_lookup" where
  "getProcessPath env m 0 pid s = Inl OUT_OF_FUEL"
| "getProcessPath env m (Suc n) pid s =
     (if pid = 4 then Inr (wide ''System'', s)
      else
        case lookup_retry 10 pid s of
          (Some p, s) \<Rightarrow> Inr (p, s)
        | (None, s) \<Rightarrow>
            path_from_system (getProcessPath env m n) env m pid (s\<lparr>cacheMisses := Suc (cacheMisses s)\<rparr>))"

definition getProcessModuleName ::
    "proc_env \<Rightarrow> permission_map \<Rightarrow> nat \<Rightarrow> path_lookup" where
  "getProcessModuleName env m n pid s =
     and_then (getProcessPath env m n pid s) (\<lambda>(path, s). Inr (file_part path, s))"

subsection \<open>Start\<close>

text \<open>The first 1024 processes; a process that cannot be read is \<open><unknown>\<close>.\<close>

fun insert_processes :: "proc_env \<Rightarrow> u32 list \<Rightarrow> proc_state \<Rightarrow> client_error + proc_state" where
  "insert_processes env [] s = Inr s"
| "insert_processes env (p # ps) s =
     (if p \<noteq> 0
      then and_then
             (insertProcess env p
                (if can_open env p \<and> has_modules env p then c_str (image_buffer env p)
                 else wide ''<unknown>'') s)
             (insert_processes env ps)
      else insert_processes env ps s)"

definition initialiseProcessMap :: "proc_env \<Rightarrow> proc_state \<Rightarrow> client_error + proc_state" where
  "initialiseProcessMap env s =
     (case process_list env of None \<Rightarrow> Inr s | Some ps \<Rightarrow> insert_processes env (take 1024 ps) s)"

subsection \<open>What a path becomes\<close>

lemma convert_short [simp]:
  "length s \<le> 23 \<Longrightarrow> convertFileObjectPathToDOSPath env s = Inr s"
  by (simp add: convertFileObjectPathToDOSPath_def)

lemma wfind_Cons_after: "c \<notin> set a \<Longrightarrow> wfind c 1 (x # a @ c # r) = Some (1 + length a)"
  using wfind_append [of c a "[x]" r] by simp

lemma device_end_second:
  assumes "0x5C \<notin> set a" and "0x5C \<notin> set b"
  shows "device_end (0x5C # a @ 0x5C # b) = None"
    and "device_end (0x5C # a @ 0x5C # b @ 0x5C # t) = Some (2 + length a + length b)"
proof -
  have f: "wfind 0x5C 1 (0x5C # a @ 0x5C # r) = Some (1 + length a)" for r
    using wfind_Cons_after [OF assms(1)] .
  have "drop (1 + length a + 1) (0x5C # a @ 0x5C # b) = b" by simp
  then show "device_end (0x5C # a @ 0x5C # b) = None"
    using assms(2) unfolding device_end_def f option.case wfind_None by simp
  have "wfind 0x5C (length (0x5C # a @ [0x5C])) ((0x5C # a @ [0x5C]) @ b @ 0x5C # t) =
      Some (length (0x5C # a @ [0x5C]) + length b)"
    using assms(2) by (rule wfind_append)
  then show "device_end (0x5C # a @ 0x5C # b @ 0x5C # t) = Some (2 + length a + length b)"
    unfolding device_end_def f option.case by simp
qed

text \<open>A file on a device: the device becomes its drive, then the system writes the long form.\<close>

lemma convert_device_path:
  assumes "0x5C \<notin> set a" and "0x5C \<notin> set b" and "23 < length (0x5C # a @ 0x5C # b @ 0x5C # t)"
  shows "convertFileObjectPathToDOSPath env (0x5C # a @ 0x5C # b @ 0x5C # t) =
    (let dos = convertDevicePathToDOSDrive env (0x5C # a @ 0x5C # b) @ 0x5C # t
     in Inr (case long_path env (c_str dos) of None \<Rightarrow> dos | Some l \<Rightarrow> l))"
proof -
  have z: "wfind 0x5C 0 (0x5C # r) = Some (0 :: nat)" for r :: wstring by (simp add: wfind_def)
  have cut: "take (2 + length a + length b) (0x5C # a @ 0x5C # b @ 0x5C # t) = 0x5C # a @ 0x5C # b"
    "drop (2 + length a + length b) (0x5C # a @ 0x5C # b @ 0x5C # t) = 0x5C # t"
    by simp_all
  show ?thesis
    using assms(3) z
    unfolding convertFileObjectPathToDOSPath_def device_end_second(2) [OF assms(1,2)] Let_def
      wsubstr_def option.case cut
    by simp
qed

text \<open>A long name with only two backslashes makes \<open>substr\<close> throw.\<close>

lemma convert_throws:
  assumes "0x5C \<notin> set a" and "0x5C \<notin> set b" and "23 < length (0x5C # a @ 0x5C # b)"
  shows "convertFileObjectPathToDOSPath env (0x5C # a @ 0x5C # b) = Inl OUT_OF_RANGE"
proof -
  have "wfind 0x5C 0 (0x5C # r) = Some (0 :: nat)" for r :: wstring by (simp add: wfind_def)
  then show ?thesis
    using assms(3)
    unfolding convertFileObjectPathToDOSPath_def device_end_second(1) [OF assms(1,2)]
    by (simp add: wsubstr_def Let_def)
qed

lemma convert_no_fuel: "convertFileObjectPathToDOSPath env s \<noteq> Inl OUT_OF_FUEL"
  by (auto simp: convertFileObjectPathToDOSPath_def wsubstr_def Let_def and_then_Inl_iff
      split: option.splits)

subsection \<open>The map only grows\<close>

definition unmapped :: "proc_state \<Rightarrow> nat" where
  "unmapped s = card (- dom (processMap s))"

definition grows :: "proc_state \<Rightarrow> proc_state \<Rightarrow> bool" where
  "grows s s' \<longleftrightarrow> dom (processMap s) \<subseteq> dom (processMap s')"

lemma grows_refl [simp]: "grows s s"
  by (simp add: grows_def)

lemma grows_trans [trans]: "grows s s' \<Longrightarrow> grows s' s'' \<Longrightarrow> grows s s''"
  unfolding grows_def by (rule subset_trans)

lemma grows_same: "processMap s' = processMap s \<Longrightarrow> grows s s'"
  by (simp add: grows_def)

lemma grows_unmapped: "grows s s' \<Longrightarrow> unmapped s' \<le> unmapped s"
  unfolding unmapped_def grows_def by (rule card_mono) auto

lemma insertProcess_grows:
  "insertProcess env pid path s = Inr s' \<Longrightarrow> grows s s' \<and> pid \<in> dom (processMap s')"
  by (auto simp: insertProcess_def grows_def and_then_Inr_iff)

lemma unmapped_less:
  assumes "grows s s'" and "processMap s pid = None" and "pid \<in> dom (processMap s')"
  shows "unmapped s' < unmapped s"
proof -
  have "- dom (processMap s') \<subset> - dom (processMap s)" using assms by (auto simp: grows_def)
  then show ?thesis unfolding unmapped_def by (intro psubset_card_mono) auto
qed

lemma insertProcess_no_fuel: "insertProcess env pid path s \<noteq> Inl OUT_OF_FUEL"
  using convert_no_fuel by (auto simp: insertProcess_def and_then_Inl_iff)

lemma pman_onProcessEvent_grows:
  "pman_onProcessEvent env created pid path s = Inr s' \<Longrightarrow> grows s s'"
  by (auto simp: pman_onProcessEvent_def insertProcess_def grows_def and_then_Inr_iff split: if_splits)

lemma pman_onProcessEvent_no_fuel: "pman_onProcessEvent env created pid path s \<noteq> Inl OUT_OF_FUEL"
  using convert_no_fuel insertProcess_no_fuel
  by (auto simp: pman_onProcessEvent_def and_then_Inl_iff)

lemma lookup_retry_grows: "lookup_retry n pid s = (r, s') \<Longrightarrow> grows s s'"
proof (induction n arbitrary: s)
  case (Suc n)
  have "grows s (wait_for_process s)" by (auto simp: grows_def split: list.splits)
  with Suc show ?case
    by (auto split: option.splits simp del: wait_for_process.simps
        intro: grows_same grows_trans [of s "wait_for_process s"])
qed simp


lemma lookup_retry_hit:
  "processMap s pid = Some p \<Longrightarrow> 0 < n \<Longrightarrow>
     lookup_retry n pid s = (Some p, s\<lparr>cacheHits := Suc (cacheHits s)\<rparr>)"
  by (cases n) auto

lemma lookup_retry_miss:
  "lookup_retry (Suc n) pid s = (None, s') \<Longrightarrow> processMap s pid = None"
  by (auto split: option.splits)

subsection \<open>Lookups that end\<close>

text \<open>
  What the handler of process events needs of the lookup it calls: the map only grows, and
  the lookup has enough fuel in every state with fewer than \<open>n\<close> processes unmapped.
\<close>

locale path_lookup_laws =
  fixes gp :: path_lookup and n :: nat
  assumes lookup_grows: "gp pid s = Inr (p, s') \<Longrightarrow> grows s s'"
    and lookup_enough: "unmapped s < n \<Longrightarrow> gp pid s \<noteq> Inl OUT_OF_FUEL"
begin

lemma onProcessEvent_grows:
  assumes "pmon_onProcessEvent gp env m create pid parent time s = Inr s'"
  shows "grows s s'"
proof -
  from assms obtain path s1 s2 path2 s3 ppath2 s4 ppath s5 where
    "gp pid s = Inr (path, s1)" "pman_onProcessEvent env create pid path s1 = Inr s2"
    "gp pid s2 = Inr (path2, s3)" "gp parent s3 = Inr (ppath2, s4)"
    "gp parent s4 = Inr (ppath, s5)" and "processMap s' = processMap s5"
    by (auto simp: pmon_onProcessEvent_def and_then_Inr_iff split: if_splits)
  then have "grows s s1" "grows s1 s2" "grows s2 s3" "grows s3 s4" "grows s4 s5" "grows s5 s'"
    using lookup_grows pman_onProcessEvent_grows grows_same by blast+
  then show ?thesis by (meson grows_trans)
qed

lemma onProcessEvent_enough:
  assumes "unmapped s < n"
  shows "pmon_onProcessEvent gp env m create pid parent time s \<noteq> Inl OUT_OF_FUEL"
proof -
  have gp: "gp p s1 \<noteq> Inl OUT_OF_FUEL" if "grows s s1" for p s1
    using lookup_enough [of s1 p] grows_unmapped [OF that] assms by simp
  show ?thesis
    using gp pman_onProcessEvent_no_fuel
    by (auto simp: pmon_onProcessEvent_def and_then_Inl_iff split: if_splits
        dest!: lookup_grows pman_onProcessEvent_grows) (meson grows_trans)+
qed

lemma path_from_system_grows:
  assumes "path_from_system gp env m pid s = Inr (p, s')"
  shows "grows s s'"
proof (cases "can_open env pid \<and> image_file_name env pid \<noteq> None")
  case True
  then obtain path where path: "can_open env pid" "image_file_name env pid = Some path" by auto
  with assms obtain s1 where s1: "insertProcess env pid path s = Inr s1" and
    "s' = s1 \<or> (\<exists>par time. pmon_onProcessEvent gp env m True pid par time s1 = Inr s')"
    by (auto simp: path_from_system_def and_then_Inr_iff split: if_split_asm)
  then have "grows s1 s'" using onProcessEvent_grows by auto
  with insertProcess_grows [OF s1] show ?thesis using grows_trans by blast
next
  case False
  with assms show ?thesis
    by (auto simp: path_from_system_def Let_def and_then_Inr_iff grows_same split: if_split_asm)
qed

lemma path_from_system_enough:
  assumes "grows s0 s" and "processMap s0 pid = None" and "unmapped s0 \<le> n"
  shows "path_from_system gp env m pid s \<noteq> Inl OUT_OF_FUEL"
proof (cases "can_open env pid \<and> image_file_name env pid \<noteq> None")
  case True
  then obtain path where path: "can_open env pid" "image_file_name env pid = Some path" by auto
  have "unmapped s1 < n" if "insertProcess env pid path s = Inr s1" for s1
    using insertProcess_grows [OF that] assms unmapped_less [of s0 s1 pid] grows_trans by fastforce
  then show ?thesis
    using path insertProcess_no_fuel convert_no_fuel onProcessEvent_enough
    by (auto simp: path_from_system_def and_then_Inl_iff split: if_split_asm)
next
  case False
  then show ?thesis
    using convert_no_fuel by (auto simp: path_from_system_def Let_def and_then_Inl_iff)
qed

end

lemma getProcessPath_laws: "path_lookup_laws (getProcessPath env m n) n"
proof (induction n)
  case 0
  show ?case by unfold_locales simp_all
next
  case (Suc n)
  note grow = path_lookup_laws.path_from_system_grows [OF Suc]
    and enough = path_lookup_laws.path_from_system_enough [OF Suc]
  show ?case
  proof
    fix pid s p s'
    obtain r s1 where r: "lookup_retry 10 pid s = (r, s1)" by fastforce
    have g2: "grows s (s1\<lparr>cacheMisses := c\<rparr>)" for c
      using lookup_retry_grows [OF r] by (simp add: grows_def)
    show "grows s s'" if "getProcessPath env m (Suc n) pid s = Inr (p, s')"
    proof (cases "r = None \<and> pid \<noteq> 4")
      case True
      then have "path_from_system (getProcessPath env m n) env m pid
          (s1\<lparr>cacheMisses := Suc (cacheMisses s1)\<rparr>) = Inr (p, s')" using that r by simp
      from grows_trans [OF g2 grow [OF this]] show ?thesis .
    qed (use that r lookup_retry_grows [OF r] in \<open>auto split: if_split_asm\<close>)
    show "getProcessPath env m (Suc n) pid s \<noteq> Inl OUT_OF_FUEL" if "unmapped s < Suc n"
    proof (cases r)
      case None
      then have "processMap s pid = None" using lookup_retry_miss [of 9 pid s s1] r by simp
      with enough [OF g2] that r None show ?thesis by simp
    qed (use r in simp)
  qed
qed

interpretation lookup: path_lookup_laws "getProcessPath env m n" n for env m n
  by (rule getProcessPath_laws)

text \<open>
  There are \<open>2 ^ 32\<close> process ids, so this much fuel is always enough: the chain of parents
  ends, also where the ids of parents have been used again and the parents form a cycle.
\<close>

lemma unmapped_bound: "unmapped s \<le> 2 ^ 32"
  using card_mono [of "UNIV :: u32 set" "- dom (processMap s)"]
  by (simp add: unmapped_def card_word)

lemma getProcessPath_ends: "unmapped s < n \<Longrightarrow> getProcessPath env m n pid s \<noteq> Inl OUT_OF_FUEL"
  by (rule lookup.lookup_enough)

text \<open>A process in the map is never asked for again.\<close>

lemma getProcessPath_hit:
  "processMap s pid = Some p \<Longrightarrow> pid \<noteq> 4 \<Longrightarrow>
     getProcessPath env m (Suc n) pid s = Inr (p, s\<lparr>cacheHits := Suc (cacheHits s)\<rparr>)"
  by (simp add: lookup_retry_hit)

text \<open>A lookup during which another thread delivers the process finds it.\<close>

lemma lookup_retry_arrival:
  assumes "processMap s pid = None" and "\<forall>b \<in> set (take k (arrivals s)). pid \<notin> fst ` set b"
    and "k < length (arrivals s)" and "map_of (rev (arrivals s ! k)) pid = Some p" and "k < n"
  shows "\<exists>s'. lookup_retry (Suc n) pid s = (Some p, s')"
  using assms
proof (induction k arbitrary: s n)
  case 0
  then obtain j where "n = Suc j" by (cases n) auto
  with 0 show ?case by (cases "arrivals s") auto
next
  case (Suc k)
  obtain b bs where b: "arrivals s = b # bs" using Suc.prems by (cases "arrivals s") auto
  obtain j where j: "n = Suc j" using Suc.prems by (cases n) auto
  have "map_of (rev b) pid = None" using Suc.prems(2) b by (auto simp: map_of_eq_None_iff)
  then have "\<exists>s'. lookup_retry (Suc j) pid (wait_for_process s) = (Some p, s')"
    using Suc.prems b j by (intro Suc.IH) auto
  then show ?case using Suc.prems(1) j by simp
qed


subsection \<open>What is reported\<close>

text \<open>
  The handler reports the path the map has for the process, which is the path of the process
  that had the id first: the name in the event is not used, and the map is not changed.
\<close>

lemma pmon_onProcessEvent_cached:
  assumes p: "processMap s pid = Some p" "pid \<noteq> 4" and q: "processMap s parent = Some q" "parent \<noteq> 4"
    and c: "convertFileObjectPathToDOSPath env p = Inr p"
    and ex: "\<not> isEventAllowed (text_env.truncate env) m (file_part p) (file_part q) p"
  shows "\<exists>s'. pmon_onProcessEvent (getProcessPath env m (Suc n)) env m create pid parent time s = Inr s' \<and>
    processMap s' = processMap s \<and>
    signalled s' = signalled s @ [\<lparr>ps_created = create, ps_time = time, ps_parentId = parent,
      ps_parentPath = q, ps_processId = pid, ps_processPath = p\<rparr>]"
proof -
  have self: "(processMap s)(pid \<mapsto> p) = processMap s" using p(1) by (simp add: fun_upd_idem)
  have "\<exists>s1. pman_onProcessEvent env create pid p (s\<lparr>cacheHits := h\<rparr>) = Inr s1 \<and>
      processMap s1 = processMap s \<and> signalled s1 = signalled s" for h
    using c self by (cases create) (simp_all add: pman_onProcessEvent_def insertProcess_def)
  then obtain s1 where s1: "pman_onProcessEvent env create pid p (s\<lparr>cacheHits := Suc (cacheHits s)\<rparr>) = Inr s1"
    "processMap s1 = processMap s" "signalled s1 = signalled s" by blast
  show ?thesis
    using s1 p q ex
    by (simp add: pmon_onProcessEvent_def getProcessPath_hit del: getProcessPath.simps)
qed

text \<open>
  A process that is not in the map yet is reported twice: by the lookup of its path, and by
  the handler that asked for it.
\<close>

lemma lookup_retry_alone:
  "processMap s pid = None \<Longrightarrow> arrivals s = [] \<Longrightarrow> lookup_retry n pid s = (None, s)"
  by (induction n) auto

lemma pmon_onProcessEvent_fresh:
  assumes new: "processMap s pid = None" "arrivals s = []" "pid \<noteq> 4" "monitor_set s"
    and sys: "can_open env pid" "image_file_name env pid = Some path"
      "convertFileObjectPathToDOSPath env path = Inr p" "convertFileObjectPathToDOSPath env p = Inr p"
    and par: "parent = getParentProcessId env pid" "processMap s parent = Some q" "parent \<noteq> 4"
    and ex: "\<not> isEventAllowed (text_env.truncate env) m (file_part p) (file_part q) p"
  defines "report c t \<equiv> \<lparr>ps_created = c, ps_time = t, ps_parentId = parent, ps_parentPath = q,
      ps_processId = pid, ps_processPath = p\<rparr>"
  shows "\<exists>s'. pmon_onProcessEvent (getProcessPath env m (Suc (Suc n))) env m create pid parent time s = Inr s' \<and>
    processMap s' = (processMap s)(pid \<mapsto> p) \<and>
    signalled s' = signalled s @ [report True (local_time env), report create time]"
proof -
  have ne: "parent \<noteq> pid" using new(1) par(2) by auto
  let ?s1 = "s\<lparr>cacheMisses := Suc (cacheMisses s), processMap := (processMap s)(pid \<mapsto> p)\<rparr>"
  have "insertProcess env pid path (s\<lparr>cacheMisses := Suc (cacheMisses s)\<rparr>) = Inr ?s1"
    using sys(3) by (simp add: insertProcess_def)
  moreover obtain s2 where s2: "pmon_onProcessEvent (getProcessPath env m (Suc n)) env m True pid parent
      (local_time env) ?s1 = Inr s2" "processMap s2 = processMap ?s1"
      "signalled s2 = signalled ?s1 @ [report True (local_time env)]"
    using pmon_onProcessEvent_cached [of ?s1 pid p parent q env m n True "local_time env"] new(3) par(2,3) sys(4) ex ne
    by (auto simp: report_def)
  ultimately have fs: "path_from_system (getProcessPath env m (Suc n)) env m pid
      (s\<lparr>cacheMisses := Suc (cacheMisses s)\<rparr>) = Inr (p, s2)"
    using sys new(4) par(1) by (simp add: path_from_system_def Let_def)
  have l: "lookup_retry 10 pid s = (None, s)" using new(1,2) by (rule lookup_retry_alone)
  have first: "getProcessPath env m (Suc (Suc n)) pid s = Inr (p, s2)"
    using fs l new(3) by simp
  have m2: "processMap s2 pid = Some p" "processMap s2 parent = Some q" using s2(2) par(2) ne by simp_all
  have "\<exists>s3. pman_onProcessEvent env create pid p s2 = Inr s3 \<and>
      processMap s3 = processMap s2 \<and> signalled s3 = signalled s2"
    using sys(4) m2(1) by (cases create) (auto simp: pman_onProcessEvent_def insertProcess_def)
  then obtain s3 where s3: "pman_onProcessEvent env create pid p s2 = Inr s3"
    "processMap s3 = processMap s2" "signalled s3 = signalled s2" by blast
  show ?thesis
    using first s3 m2 new(3) par(3) ex s2(2,3)
    by (simp add: pmon_onProcessEvent_def getProcessPath_hit report_def del: getProcessPath.simps)
qed

text \<open>A path that does not start with a backslash, such as a converted one, stays as it is.\<close>

lemma convert_fixed:
  "s = [] \<or> hd s \<noteq> 0x5C \<Longrightarrow> convertFileObjectPathToDOSPath env s = Inr s"
proof -
  assume "s = [] \<or> hd s \<noteq> 0x5C"
  then have "wfind 0x5C 0 s \<noteq> Some 0" using wfind_Some [of "0x5C" 0 s 0] by (cases s) auto
  then show ?thesis by (simp add: convertFileObjectPathToDOSPath_def)
qed

end
