(* ===== verification/ClientMonitor.thy ===== *)
theory ClientMonitor
  imports EventLoop ProcessManager
begin

text \<open>
  What the three monitors of the client share: the attributes of an exclusion sent by the
  server, and the signals of the file and the registry monitor.
\<close>

subsection \<open>Exclusions from the server\<close>

type_synonym attribute_list = "(wstring \<times> wstring) list"

text \<open>Of several attributes with the name the last counts.\<close>

definition attribute_of :: "wstring \<Rightarrow> attribute_list \<Rightarrow> wstring" where
  "attribute_of n as = foldl (\<lambda>v (a, b). if a = n then b else v) [] as"

text \<open>
  \<open>onFileExclusionReceived\<close>, \<open>onRegistryExclusionReceived\<close> and \<open>onProcessExclusionReceived\<close>
  do the same to the list of their monitor.
\<close>

definition onExclusionReceived ::
    "text_env \<Rightarrow> attribute_list \<Rightarrow> permission_map \<Rightarrow> client_error + permission_map" where
  "onExclusionReceived env as m =
     addExclusion env (attribute_of (wide ''excluded'') as) (attribute_of (wide ''action'') as)
       (attribute_of (wide ''subject'') as) (attribute_of (wide ''object'') as) False m"

subsection \<open>The state of a monitor\<close>

record monitor_signal =
  ms_event :: wstring
  ms_time :: wstring
  ms_processId :: u32
  ms_processPath :: wstring
  ms_path :: wstring

record client_monitor =
  permissionMap :: permission_map
  procs :: proc_state
  events :: "monitor_signal list"
  stopping :: bool

text \<open>The buffer both monitors hand to their driver.\<close>

definition EVENTS_BUFFER_SIZE :: u32 where
  "EVENTS_BUFFER_SIZE = 5 * 65536"

lemma attribute_of_snoc [simp]:
  "attribute_of n (as @ [(a, b)]) = (if a = n then b else attribute_of n as)"
  by (simp add: attribute_of_def)

lemma attribute_of_Nil [simp]: "attribute_of n [] = []"
  by (simp add: attribute_of_def)

end
