(* ===== verification/ClientFileMonitor.thy ===== *)
theory ClientFileMonitor
  imports ClientMonitor
begin

text \<open>
  The file monitor of the client (\<open>FileMonitor.cpp\<close>): the exclusions it starts with, names
  and paths of events, the files it remembers and copies, one event, and one round of its
  loop against the driver.
\<close>

record client_env = proc_env +
  is_directory :: "wstring \<Rightarrow> bool"

record client_file_monitor = client_monitor +
  dosNameMap :: "(wstring \<times> wstring) list"
  modifiedFiles :: "wstring list"
  monitorModifiedFiles :: bool

subsection \<open>Names of events and paths\<close>

abbreviation "FILE_SUPERSEDED \<equiv> 0 :: u32"
abbreviation "FILE_OPENED \<equiv> 1 :: u32"
abbreviation "FILE_CREATED \<equiv> 2 :: u32"
abbreviation "FILE_OVERWRITTEN \<equiv> 3 :: u32"

text \<open>An alternate data stream has a colon in its path; opening one is not an event.\<close>

definition getFileEventName :: "file_event \<Rightarrow> wstring \<Rightarrow> wstring option" where
  "getFileEventName e path =
     (if majorFileEventType e = irp_code IRP_MJ_CREATE
      then (if 0x3A \<in> set path then None
            else if fe_information e \<in> {FILE_CREATED, FILE_OVERWRITTEN, FILE_SUPERSEDED}
            then Some (wide ''Create'')
            else if fe_information e = FILE_OPENED then Some (wide ''Open'') else None)
      else if majorFileEventType e = irp_code IRP_MJ_READ then Some (wide ''Read'')
      else if majorFileEventType e = irp_code IRP_MJ_WRITE then Some (wide ''Write'')
      else if majorFileEventType e = IRP_MJ_DELETE then Some (wide ''Delete'')
      else None)"

definition convertFileObjectNameToDosName :: "(wstring \<times> wstring) list \<Rightarrow> wstring \<Rightarrow> wstring" where
  "convertFileObjectNameToDosName names path = replace_prefix names path"

text \<open>The volumes and their drive letters; a volume is inserted once.\<close>

fun initialiseDosNameMap ::
    "(wstring \<times> wstring option) list \<Rightarrow> (wstring \<times> wstring) list \<Rightarrow> (wstring \<times> wstring) list" where
  "initialiseDosNameMap [] names = names"
| "initialiseDosNameMap ((v, d) # vs) names =
     initialiseDosNameMap vs
       (case d of
          None \<Rightarrow> names
        | Some l \<Rightarrow> if c_str v \<in> set (map fst names) then names else names @ [(c_str v, c_str l)])"

subsection \<open>Exclusions of its own\<close>

definition quoted_directory :: "wstring \<Rightarrow> wstring" where
  "quoted_directory dir = prepareStringForExclusion dir @ wide [CHR 0x5C, CHR 0x5C, CHR 0x2E, CHR 0x2A]"

fun add_exclusions ::
    "text_env \<Rightarrow> (wstring \<times> wstring \<times> wstring) list \<Rightarrow> permission_map \<Rightarrow> client_error + permission_map" where
  "add_exclusions env [] m = Inr m"
| "add_exclusions env ((action, subject, obj) # xs) m =
     and_then (addExclusion env (wide ''+'') action subject obj True m) (add_exclusions env xs)"

definition directory_exclusions :: "wstring \<Rightarrow> (wstring \<times> wstring \<times> wstring) list" where
  "directory_exclusions dir =
     map (\<lambda>a. (wide a, wide ''.*'', quoted_directory dir))
       [''write'', ''create'', ''delete'', ''open'', ''read'']"

text \<open>The log file is named where the option asks for one.\<close>

definition own_exclusions ::
    "text_env \<Rightarrow> wstring \<Rightarrow> wstring \<Rightarrow> wstring \<Rightarrow> wstring option \<Rightarrow> permission_map \<Rightarrow>
     client_error + permission_map" where
  "own_exclusions env logs temp executable logFile m =
     add_exclusions env
       (directory_exclusions logs @ directory_exclusions temp @
        (case logFile of
           None \<Rightarrow> []
         | Some f \<Rightarrow> map (\<lambda>a. (wide a, prepareStringForExclusion executable, prepareStringForExclusion f))
                       [''create'', ''write''])) m"

subsection \<open>Modified files\<close>

text \<open>\<open>hash_set\<close>: each file once.\<close>

definition track_file :: "client_env \<Rightarrow> file_event \<Rightarrow> wstring \<Rightarrow> wstring list \<Rightarrow> wstring list" where
  "track_file env e path fs =
     (if is_directory env path then fs
      else if majorFileEventType e = irp_code IRP_MJ_CREATE \<or> majorFileEventType e = irp_code IRP_MJ_WRITE
      then (if path \<in> set fs then fs else path # fs)
      else if majorFileEventType e = IRP_MJ_DELETE then removeAll path fs
      else fs)"

text \<open>
  Where \<open>createFilePathAndCopy\<close> puts a file: the directory and the name. \<open>npos + 1\<close> is 0;
  with a single backslash the length of the middle part is \<open>-1\<close>, which is all the rest.
\<close>

definition copy_target :: "wstring \<Rightarrow> wstring \<Rightarrow> wstring \<times> wstring" where
  "copy_target logPath path =
     (let drive = (case wfind 0x3A 0 path of None \<Rightarrow> path | Some i \<Rightarrow> take i path);
          name = (case wfind_last 0x5C path of None \<Rightarrow> path | Some j \<Rightarrow> drop (j + 1) path);
          middle = (case (wfind 0x5C 0 path, wfind_last 0x5C path) of
                      (Some i, Some j) \<Rightarrow>
                        if i = j then drop (i + 1) path else take (j - i - 1) (drop (i + 1) path)
                    | _ \<Rightarrow> path);
          dir = logPath @ drive @ [0x5C] @ middle
      in (dir, dir @ [0x5C] @ name))"

text \<open>The copies made, from which file to which.\<close>

definition copyCreatedFiles ::
    "wstring \<Rightarrow> client_file_monitor \<Rightarrow> (wstring \<times> wstring) list \<times> client_file_monitor" where
  "copyCreatedFiles logPath s =
     (map (\<lambda>f. (f, snd (copy_target logPath f))) (modifiedFiles s), s\<lparr>modifiedFiles := []\<rparr>)"

subsection \<open>One event\<close>

definition report_file_event ::
    "path_lookup \<Rightarrow> client_env \<Rightarrow> file_event \<Rightarrow> wstring \<Rightarrow> client_file_monitor \<Rightarrow>
     client_error + client_file_monitor" where
  "report_file_event gp env e raw s =
     (case getFileEventName e raw of
        None \<Rightarrow> Inr s
      | Some name \<Rightarrow>
          and_then (gp (fe_processId e) (procs s)) (\<lambda>(processPath, ps).
          and_then (gp (fe_processId e) ps) (\<lambda>(_, ps).
            let s = s\<lparr>procs := ps\<rparr>;
                path = convertFileObjectNameToDosName (dosNameMap s) raw
            in if path = wide ''UNKNOWN'' then Inr s
               else if isEventAllowed (text_env.truncate env) (permissionMap s) name processPath path then Inr s
               else Inr (s\<lparr>modifiedFiles := (if monitorModifiedFiles s then track_file env e path (modifiedFiles s)
                                             else modifiedFiles s),
                          events := events s @ [\<lparr>ms_event = name, ms_time = timefieldToString (fe_time e),
                            ms_processId = fe_processId e, ms_processPath = processPath, ms_path = path\<rparr>]\<rparr>))))"

text \<open>The path of an event in a buffer is what is there up to the first zero.\<close>

definition handle_file_event ::
    "path_lookup \<Rightarrow> client_env \<Rightarrow> u8 list \<Rightarrow> client_file_monitor \<Rightarrow> client_error + client_file_monitor" where
  "handle_file_event gp env bs s =
     report_file_event gp env (file_event_at bs) (c_str (bytes_wchars (drop 40 bs))) s"

subsection \<open>One round against the driver\<close>

text \<open>The wait before the next round, in milliseconds.\<close>

definition file_wait_time :: "u32 \<Rightarrow> nat" where
  "file_wait_time bytesReturned = (if bytesReturned = EVENTS_BUFFER_SIZE then 5 else 50)"

definition file_monitor_round ::
    "path_lookup \<Rightarrow> client_env \<Rightarrow> u32 \<Rightarrow> fm_state \<Rightarrow> client_file_monitor \<Rightarrow>
     bugcheck + ((client_error + client_file_monitor) option \<times> nat \<times> fm_state)" where
  "file_monitor_round gp env now d s =
     and_then (poll_file now (unat EVENTS_BUFFER_SIZE) d) (\<lambda>(out, d').
       let n = of_nat (length out);
           buffer = out @ replicate (unat EVENTS_BUFFER_SIZE - length out) 0
       in Inr (handle_answer sizeof_FILE_EVENT file_event_size_at (handle_file_event gp env) stopping buffer n s,
               file_wait_time n, d'))"

text \<open>
  The message of \<open>setMonitorModifiedFiles\<close>: \<open>buffer\<close> is the array of 1024 characters after
  the system wrote the full path of the directory into it.
\<close>

definition client_setup_message :: "bool \<Rightarrow> wstring \<Rightarrow> u8 list" where
  "client_setup_message monitor buffer =
     [if monitor then 1 else 0, 0, 0, 0] @ le32 (of_nat (2 * length (c_str buffer))) @ wchars_bytes buffer"

definition setMonitorModifiedFiles ::
    "bool \<Rightarrow> wstring \<Rightarrow> client_file_monitor \<Rightarrow> u8 list \<times> client_file_monitor" where
  "setMonitorModifiedFiles monitor buffer s =
     (client_setup_message monitor buffer, s\<lparr>monitorModifiedFiles := monitor\<rparr>)"


subsection \<open>Paths\<close>

lemma bytes_wchars_append [simp]: "bytes_wchars (wchars_bytes cs @ rest) = cs @ bytes_wchars rest"
  by (induction cs) (simp_all add: le16_def le16_join)

lemma c_str_prefix: "0 \<in> set s \<Longrightarrow> c_str (s @ t) = c_str s"
  unfolding c_str_def by (rule takeWhile_append1 [of 0]) simp_all

lemma handle_file_event_encoded:
  assumes "file_event_wf e" and "0 \<in> set (filePath e)"
  shows "handle_file_event gp env (file_event_bytes e @ rest) s =
    report_file_event gp env e (c_str (filePath e)) s"
  by (simp only: handle_file_event_def file_event_at_bytes [OF assms(1)] file_event_fields
      bytes_wchars_append c_str_prefix [OF assms(2)])

text \<open>
  A file below a directory is copied to the same place below the log; the last part of a
  path is a directory of its own only in the root of a drive.
\<close>

lemma copy_target_below:
  assumes "0x3A \<notin> set d" and "0x5C \<notin> set d" and "0x5C \<notin> set name"
  shows "copy_target logs (d @ 0x3A # 0x5C # dir @ 0x5C # name) =
    (logs @ d @ 0x5C # dir, logs @ d @ 0x5C # dir @ 0x5C # name)"
proof -
  let ?p = "d @ 0x3A # 0x5C # dir @ 0x5C # name"
  have c: "wfind 0x3A 0 ?p = Some (length d)"
    using wfind_append [OF assms(1), of "[]" "0x5C # dir @ 0x5C # name"] by simp
  have f: "wfind 0x5C 0 ?p = Some (length d + 1)"
    using wfind_append [of "0x5C" "d @ [0x3A]" "[]" "dir @ 0x5C # name"] assms(2) by simp
  have l: "wfind_last 0x5C ?p = Some (length d + 2 + length dir)"
    using wfind_last_append [OF assms(3), of "d @ 0x3A # 0x5C # dir"] by simp
  show ?thesis unfolding copy_target_def c f l Let_def by (simp add: eval_nat_numeral)
qed

lemma copy_target_root:
  assumes "0x3A \<notin> set d" and "0x5C \<notin> set d" and "0x5C \<notin> set name"
  shows "copy_target logs (d @ 0x3A # 0x5C # name) =
    (logs @ d @ 0x5C # name, logs @ d @ 0x5C # name @ 0x5C # name)"
proof -
  let ?p = "d @ 0x3A # 0x5C # name"
  have c: "wfind 0x3A 0 ?p = Some (length d)"
    using wfind_append [OF assms(1), of "[]" "0x5C # name"] by simp
  have f: "wfind 0x5C 0 ?p = Some (length d + 1)"
    using wfind_append [of "0x5C" "d @ [0x3A]" "[]" name] assms(2) by simp
  have l: "wfind_last 0x5C ?p = Some (length d + 1)"
    using wfind_last_append [OF assms(3), of "d @ [0x3A]"] by simp
  show ?thesis unfolding copy_target_def c f l Let_def by simp
qed

text \<open>Files below a directory never overwrite each other's copies.\<close>

lemma copy_target_inject:
  assumes "0x3A \<notin> set d" "0x5C \<notin> set d" "0x5C \<notin> set name"
    and "0x3A \<notin> set d'" "0x5C \<notin> set d'" "0x5C \<notin> set name'"
    and "snd (copy_target logs (d @ 0x3A # 0x5C # dir @ 0x5C # name)) =
      snd (copy_target logs (d' @ 0x3A # 0x5C # dir' @ 0x5C # name'))"
  shows "d = d' \<and> dir = dir' \<and> name = name'"
proof -
  have eq: "d @ 0x5C # dir @ 0x5C # name = d' @ 0x5C # dir' @ 0x5C # name'"
    using assms by (simp add: copy_target_below)
  then have d: "d = d'" and t: "dir @ 0x5C # name = dir' @ 0x5C # name'"
    using separated [OF assms(2,5)] by blast+
  have "rev name = rev name' \<and> rev dir = rev dir'"
    by (rule separated [of "0x5C"]) (use assms(3,6) t [THEN arg_cong [of _ _ rev]] in simp_all)
  then show ?thesis using d by simp
qed

subsection \<open>The files that are remembered\<close>

lemma track_file_distinct: "distinct fs \<Longrightarrow> distinct (track_file env e path fs)"
  by (simp add: track_file_def distinct_removeAll)

subsection \<open>One event\<close>

text \<open>An event is reported just when it has a name, a path and no permission covers it.\<close>

lemma report_file_event_result:
  assumes "gp (fe_processId e) (procs s) = Inr (processPath, ps)"
    and "gp (fe_processId e) ps = Inr (p2, ps2)"
  shows "\<exists>s'. report_file_event gp env e raw s = Inr s' \<and>
    events s' = events s @
      (case getFileEventName e raw of
         None \<Rightarrow> []
       | Some name \<Rightarrow>
           if replace_prefix (dosNameMap s) raw = wide ''UNKNOWN'' \<or>
              isEventAllowed (text_env.truncate env) (permissionMap s) name processPath
                (replace_prefix (dosNameMap s) raw)
           then []
           else [\<lparr>ms_event = name, ms_time = timefieldToString (fe_time e),
                  ms_processId = fe_processId e, ms_processPath = processPath,
                  ms_path = replace_prefix (dosNameMap s) raw\<rparr>])"
  using assms
  by (auto simp: report_file_event_def convertFileObjectNameToDosName_def Let_def
      split: option.splits)

subsection \<open>One round\<close>

text \<open>A round hands every event the driver delivers to the monitor once and in order.\<close>

lemma file_monitor_round_delivers:
  assumes d: "holds_file_events d q" and t: "\<forall>e \<in> set q. 0 \<in> set (filePath e)"
    and dr: "drain_events file_weight (unat EVENTS_BUFFER_SIZE) q = (served, later)"
  shows "\<exists>wait d'. file_monitor_round gp env now d s =
      Inr (Some (handle_events (\<lambda>e. report_file_event gp env e (c_str (filePath e))) stopping served s),
        wait, d') \<and>
    holds_file_events d' later \<and> wait \<in> {5, 50}"
proof -
  have B: "unat EVENTS_BUFFER_SIZE = 327680" by (simp add: EVENTS_BUFFER_SIZE_def)
  obtain d' where p: "poll_file now (unat EVENTS_BUFFER_SIZE) d = Inr (concat (map file_event_bytes served), d')"
    and h: "holds_file_events d' later"
    using filemon.poll_refines [OF d _ dr, of now] B by auto
  let ?out = "concat (map file_event_bytes served)"
  have sub: "set served \<subseteq> set q" using drain_events_split [OF dr] by auto
  have wf: "\<forall>e \<in> set served. file_event_wf e"
    using d sub by (auto simp: holds_file_events_def dest: fm_invD(3))
  have "length ?out \<le> 327680" using filemon.poll_length [OF d _ p] B by simp
  then have "length ?out < 2 ^ 32" by simp
  then have n: "length ?out = unat (of_nat (length ?out) :: u32)" by (rule unat_of_nat_small32 [symmetric])
  have "handle_answer sizeof_FILE_EVENT file_event_size_at (handle_file_event gp env) stopping
      (?out @ replicate (unat EVENTS_BUFFER_SIZE - length ?out) 0) (of_nat (length ?out)) s =
    Some (handle_events (\<lambda>e. report_file_event gp env e (c_str (filePath e))) stopping served s)"
    by (rule file_codec.handle_answer_encoded [OF wf _ n])
       (use handle_file_event_encoded wf sub t in blast)
  then show ?thesis using p h by (simp add: file_monitor_round_def Let_def file_wait_time_def)
qed


subsection \<open>Its own directories\<close>

lemma addExclusion_rules:
  assumes "addExclusion env excluded action subject obj perm m = Inr m'"
  shows "rules_for b m' = rules_for b m @ (if b = lower_case env action then
    [\<lparr>subjects = [c_str subject], objects = [c_str obj], allow = allow_word env excluded,
      permaneant = perm\<rparr>] else [])"
  using assms by (auto simp: addExclusion_def rules_for_add split: if_split_asm)

lemma add_exclusions_rules:
  "add_exclusions env xs m = Inr m' \<Longrightarrow>
     set (rules_for b m') = set (rules_for b m) \<union>
       {\<lparr>subjects = [c_str sb], objects = [c_str ob], allow = True, permaneant = True\<rparr> | a sb ob.
          (a, sb, ob) \<in> set xs \<and> lower_case env a = b}"
proof (induction xs arbitrary: m)
  case (Cons x xs)
  obtain a sb ob where x: "x = (a, sb, ob)" by (cases x)
  from Cons.prems obtain m1 where m1: "addExclusion env (wide ''+'') a sb ob True m = Inr m1"
    and "add_exclusions env xs m1 = Inr m'"
    by (auto simp: x and_then_Inr_iff)
  note ih = Cons.IH [OF this(2)]
  have "allow_word env (wide ''+'')" by (simp add: allow_word_def)
  with addExclusion_rules [OF m1, of b] show ?case unfolding ih x by auto
qed simp

text \<open>
  Whatever happens below the directories of the program is excluded, unless a list file says
  no to it.
\<close>

lemma own_exclusions_cover:
  assumes own: "own_exclusions env logs temp executable logFile m = Inr m'"
    and dir: "dir = logs \<or> dir = temp" "0 \<notin> set dir"
    and a: "a \<in> {''write'', ''create'', ''delete'', ''open'', ''read''}"
    and any: "regex_match env (wide ''.*'') (c_str proc)"
    and sub: "regex_match env (quoted_directory dir) (c_str path)"
    and no: "\<forall>p \<in> set (rules_for (lower_case env (wide a)) m'). Check env p proc path \<noteq> DISALLOWED"
  shows "isEventAllowed env m' (wide a) proc path"
proof -
  have z: "0 \<notin> set (quoted_directory dir)"
    using dir(2) by (auto simp: quoted_directory_def prepareStringForExclusion_quotes quote_char_def
        wide_def split: if_splits)
  have zs: "c_str s = s" if "0 \<notin> set s" for s :: wstring
    using that by (simp add: c_str_def takeWhile_eq_all_conv) blast
  have "(wide a, wide ''.*'', quoted_directory dir) \<in>
      set (directory_exclusions logs) \<union> set (directory_exclusions temp)"
    using dir(1) a by (auto simp: directory_exclusions_def)
  then have "\<lparr>subjects = [c_str (wide ''.*'')], objects = [c_str (quoted_directory dir)], allow = True,
      permaneant = True\<rparr> \<in> set (rules_for (lower_case env (wide a)) m')"
    unfolding add_exclusions_rules [OF own [unfolded own_exclusions_def]] by auto
  moreover have "Check env \<lparr>subjects = [c_str (wide ''.*'')], objects = [c_str (quoted_directory dir)],
      allow = True, permaneant = True\<rparr> proc path = ALLOWED"
    using any sub zs [OF z] by (simp add: Check_single) (simp add: c_str_def wide_def)
  ultimately show ?thesis unfolding isEventAllowed_iff using no by blast
qed

subsection \<open>Setting the driver up\<close>

lemma client_setup_message_fields:
  assumes "length buffer = 1024"
  shows "length (client_setup_message monitor buffer) = sizeof_FILEMONITOR_SETUP"
    and "filemonitor_setup_at (client_setup_message monitor buffer) =
      \<lparr>fs_collect = monitor, nLogDirectorySize = of_nat (2 * length (c_str buffer)), wszLogDirectory = buffer\<rparr>"
proof -
  let ?b = "client_setup_message monitor buffer"
  show "length ?b = sizeof_FILEMONITOR_SETUP"
    using assms by (simp add: client_setup_message_def sizeof_FILEMONITOR_SETUP_def)
  have "u32_at ?b 4 = of_nat (2 * length (c_str buffer))"
    unfolding client_setup_message_def by (rule u32_at_le32_at) simp
  moreover have "byte_at ?b 0 = (if monitor then 1 else 0)"
    by (simp add: client_setup_message_def byte_at_def)
  moreover have "take 2048 (drop 8 ?b) = wchars_bytes buffer"
    using assms by (simp add: client_setup_message_def)
  ultimately show "filemonitor_setup_at ?b =
      \<lparr>fs_collect = monitor, nLogDirectorySize = of_nat (2 * length (c_str buffer)), wszLogDirectory = buffer\<rparr>"
    by (simp only: filemonitor_setup_at_def bytes_wchars_inverse) simp
qed

text \<open>The driver ends up with the flag and the directory the client asked for.\<close>

lemma setMonitorModifiedFiles_reaches_driver:
  assumes inv: "fm_inv strict d C es" and all: "\<forall>n. granted d n"
    and b: "length buffer = 1024" "0 \<in> set buffer"
    and msg: "setMonitorModifiedFiles True buffer s = (bytes, s')"
  shows "monitorModifiedFiles s' \<and> (\<exists>d'. MessageCallback now (setup_message bytes) d =
      Inr (STATUS_INVALID_PARAMETER, [], None, d') \<and> bCollectDeletedFiles d' \<and>
    us_wf (logDirectory d') \<and> Chars (logDirectory d') = Chars nt_prefix @ c_str buffer)"
proof -
  have bytes: "bytes = client_setup_message True buffer" and s': "monitorModifiedFiles s'"
    using msg by (auto simp: setMonitorModifiedFiles_def)
  note f = client_setup_message_fields [OF b(1), of True]
  have "length (c_str buffer) \<le> 1024" using b(1) by (metis c_str_def length_takeWhile_le)
  then obtain d' where "set_log_directory (filemonitor_setup_at bytes) d = Inr d'"
    "bCollectDeletedFiles d'" "us_wf (logDirectory d')"
    "Chars (logDirectory d') = Chars nt_prefix @ c_str buffer"
    using set_log_directory_result [OF inv all, of "filemonitor_setup_at bytes" "c_str buffer"] b
    by (auto simp: bytes f c_str_def)
  then show ?thesis using s' f by (simp add: MessageCallback_setup setup_monitor_def bytes)
qed

end
