(* ===== verification/ClientRegistryMonitor.thy ===== *)
theory ClientRegistryMonitor
  imports ClientMonitor
begin

text \<open>
  The registry monitor of the client (\<open>RegistryMonitor.cpp\<close>): the names of events and of
  hives, one event, and one round of its loop against the driver.
\<close>

record client_registry_monitor = client_monitor +
  objectNameMap :: "(wstring \<times> wstring) list"

subsection \<open>Names\<close>

definition getRegistryEventName :: "u32 \<Rightarrow> wstring" where
  "getRegistryEventName t =
     (if t = reg_code RegNtPostCreateKey then wide ''CreateKey''
      else if t = reg_code RegNtPostOpenKey then wide ''OpenKey''
      else if t = reg_code RegNtPreDeleteKey then wide ''DeleteKey''
      else if t = reg_code RegNtPreDeleteValueKey then wide ''DeleteValueKey''
      else if t = reg_code RegNtPreSetValueKey then wide ''SetValueKey''
      else if t = reg_code RegNtPreEnumerateKey then wide ''EnumerateKey''
      else if t = reg_code RegNtPreEnumerateValueKey then wide ''EnumerateValueKey''
      else if t = reg_code RegNtPreQueryKey then wide ''QueryKey''
      else if t = reg_code RegNtPreQueryValueKey then wide ''QueryValueKey''
      else if t = reg_code RegNtPreKeyHandleClose then wide ''CloseKey''
      else wide ''<UNKNOWN>'')"

definition backslash :: string where
  "backslash = [CHR 0x5C]"

text \<open>
  \<open>answer\<close> is what the system says of the key of the current user: the length it asks for
  and the name; the name is copied to an array of 512 bytes.
\<close>

definition initialiseObjectNameMap ::
    "(nat \<times> wstring) option \<Rightarrow> client_error + (wstring \<times> wstring) list" where
  "initialiseObjectNameMap answer =
     (case answer of
        None \<Rightarrow> Inr []
      | Some (required, name) \<Rightarrow>
          if 512 < required then Inl BUFFER_OVERRUN
          else Inr
            [(c_str name @ wide ''_CLASSES'', wide ''HKCR''),
             (c_str name, wide ''HKCU''),
             (wide (backslash @ ''REGISTRY'' @ backslash @ ''MACHINE''), wide ''HKLM''),
             (wide (backslash @ ''REGISTRY'' @ backslash @ ''USER''), wide ''HKU''),
             (wide (backslash @ ''Registry'' @ backslash @ ''Machine''), wide ''HKLM'')])"

definition convertRegistryObjectNameToHiveName ::
    "(wstring \<times> wstring) list \<Rightarrow> wstring \<Rightarrow> wstring" where
  "convertRegistryObjectNameToHiveName names path = replace_prefix names path"

subsection \<open>One event\<close>

text \<open>
  The path is copied to a block of its length; a path without a zero is read past its end.
\<close>

definition registry_path_of :: "registry_event \<Rightarrow> client_error + wstring" where
  "registry_path_of e =
     (let cs = bytes_wchars (take (unat (registryPathLengthB e)) (registryData e))
      in if 0 \<in> set cs then Inr (c_str cs) else Inl BUFFER_OVERRUN)"

definition report_registry_event ::
    "path_lookup \<Rightarrow> text_env \<Rightarrow> registry_event \<Rightarrow> client_registry_monitor \<Rightarrow>
     client_error + client_registry_monitor" where
  "report_registry_event gp env e s =
     and_then (registry_path_of e) (\<lambda>raw.
     and_then (gp (re_processId e) (procs s)) (\<lambda>(processPath, ps).
       let s = s\<lparr>procs := ps\<rparr>;
           name = getRegistryEventName (re_eventType e);
           path = convertRegistryObjectNameToHiveName (objectNameMap s) raw
       in if isEventAllowed env (permissionMap s) name processPath path then Inr s
          else Inr (s\<lparr>events := events s @ [\<lparr>ms_event = name, ms_time = timefieldToString (re_time e),
                 ms_processId = re_processId e, ms_processPath = processPath, ms_path = path\<rparr>]\<rparr>)))"

definition handle_registry_event ::
    "path_lookup \<Rightarrow> text_env \<Rightarrow> u8 list \<Rightarrow> client_registry_monitor \<Rightarrow> client_error + client_registry_monitor" where
  "handle_registry_event gp env bs s = report_registry_event gp env (registry_event_at bs) s"

subsection \<open>One round against the driver\<close>

definition registry_wait_time :: "u32 \<Rightarrow> nat" where
  "registry_wait_time n = (if n = EVENTS_BUFFER_SIZE then 5 else 65)"

definition registry_monitor_round ::
    "path_lookup \<Rightarrow> text_env \<Rightarrow> u32 \<Rightarrow> rm_state \<Rightarrow> client_registry_monitor \<Rightarrow>
     bugcheck + ((client_error + client_registry_monitor) option \<times> nat \<times> rm_state)" where
  "registry_monitor_round gp env now d s =
     and_then (poll_registry now (unat EVENTS_BUFFER_SIZE) d) (\<lambda>(out, d').
       let n = of_nat (length out);
           buffer = out @ replicate (unat EVENTS_BUFFER_SIZE - length out) 0
       in Inr (handle_answer sizeof_REGISTRY_EVENT registry_event_size_at (handle_registry_event gp env)
                 stopping buffer n s,
               registry_wait_time n, d'))"

subsection \<open>Hives\<close>

text \<open>The order of the list matters: the classes of a user come before the user.\<close>

lemma hive_names:
  assumes "initialiseObjectNameMap (Some (n, user)) = Inr names" and "c_str user = u"
  shows "convertRegistryObjectNameToHiveName names (u @ wide ''_CLASSES'' @ t) = wide ''HKCR'' @ t"
    and "\<not> starts_with (wide ''_CLASSES'') t \<Longrightarrow>
      convertRegistryObjectNameToHiveName names (u @ t) = wide ''HKCU'' @ t"
    and "\<not> starts_with u (wide (backslash @ ''REGISTRY'' @ backslash @ ''MACHINE'') @ t) \<Longrightarrow>
      convertRegistryObjectNameToHiveName names (wide (backslash @ ''REGISTRY'' @ backslash @ ''MACHINE'') @ t) =
      wide ''HKLM'' @ t"
    and "\<not> starts_with u (wide (backslash @ ''REGISTRY'' @ backslash @ ''USER'') @ t) \<Longrightarrow>
      convertRegistryObjectNameToHiveName names (wide (backslash @ ''REGISTRY'' @ backslash @ ''USER'') @ t) =
      wide ''HKU'' @ t"
proof -
  have names: "names = [(u @ wide ''_CLASSES'', wide ''HKCR''), (u, wide ''HKCU''),
      (wide (backslash @ ''REGISTRY'' @ backslash @ ''MACHINE''), wide ''HKLM''),
      (wide (backslash @ ''REGISTRY'' @ backslash @ ''USER''), wide ''HKU''),
      (wide (backslash @ ''Registry'' @ backslash @ ''Machine''), wide ''HKLM'')]"
    using assms by (auto simp: initialiseObjectNameMap_def split: if_split_asm)
  note d = convertRegistryObjectNameToHiveName_def names
  have app: "starts_with (u @ v) (u @ w) \<longleftrightarrow> starts_with v w" for v w
    by (simp add: starts_with_def)
  have longer: "starts_with (u @ v) w \<Longrightarrow> starts_with u w" for v w
    by (metis append_assoc starts_withE starts_with_append)
  show "convertRegistryObjectNameToHiveName names (u @ wide ''_CLASSES'' @ t) = wide ''HKCR'' @ t"
    by (simp add: d app)
  show "convertRegistryObjectNameToHiveName names (u @ t) = wide ''HKCU'' @ t"
    if "\<not> starts_with (wide ''_CLASSES'') t"
    using that by (simp add: d app)
  show "convertRegistryObjectNameToHiveName names (wide (backslash @ ''REGISTRY'' @ backslash @ ''MACHINE'') @ t) =
      wide ''HKLM'' @ t" if "\<not> starts_with u (wide (backslash @ ''REGISTRY'' @ backslash @ ''MACHINE'') @ t)"
    using that longer unfolding d by auto
  have user: "\<not> starts_with (wide (backslash @ ''REGISTRY'' @ backslash @ ''MACHINE''))
      (wide (backslash @ ''REGISTRY'' @ backslash @ ''USER'') @ t)"
    by (simp add: starts_with_def wide_def backslash_def)
  show "convertRegistryObjectNameToHiveName names (wide (backslash @ ''REGISTRY'' @ backslash @ ''USER'') @ t) =
      wide ''HKU'' @ t" if "\<not> starts_with u (wide (backslash @ ''REGISTRY'' @ backslash @ ''USER'') @ t)"
    using that longer user unfolding d by auto
qed


subsection \<open>One event and one round\<close>

text \<open>A path the driver wrote is read as it was written.\<close>

definition registry_terminated :: "registry_event \<Rightarrow> bool" where
  "registry_terminated e \<longleftrightarrow> 0 \<in> set (bytes_wchars (take (unat (registryPathLengthB e)) (registryData e)))"

lemma registry_path_written:
  assumes "0 \<notin> set cs" and "registryData e = wchars_bytes cs @ [0, 0] @ d"
    and "unat (registryPathLengthB e) = 2 * length cs + 2"
  shows "registry_terminated e" and "registry_path_of e = Inr cs"
proof -
  have "take (unat (registryPathLengthB e)) (registryData e) = wchars_bytes cs @ [0, 0]"
    using assms(2,3) by simp
  moreover have "bytes_wchars (wchars_bytes cs @ [0, 0]) = cs @ [0]"
    by (induction cs) (simp_all add: le16_def le16_join)
  moreover have "c_str (cs @ [0]) = cs" by (rule c_str_terminated [OF assms(1)])
  ultimately show "registry_terminated e" and "registry_path_of e = Inr cs"
    by (simp_all add: registry_terminated_def registry_path_of_def)
qed

lemma report_registry_event_result:
  assumes "registry_path_of e = Inr raw" and "gp (re_processId e) (procs s) = Inr (processPath, ps)"
  shows "\<exists>s'. report_registry_event gp env e s = Inr s' \<and>
    events s' = events s @
      (let path = replace_prefix (objectNameMap s) raw; name = getRegistryEventName (re_eventType e)
       in if isEventAllowed env (permissionMap s) name processPath path then []
          else [\<lparr>ms_event = name, ms_time = timefieldToString (re_time e),
                 ms_processId = re_processId e, ms_processPath = processPath, ms_path = path\<rparr>])"
  using assms
  by (auto simp: report_registry_event_def convertRegistryObjectNameToHiveName_def Let_def)

text \<open>A round hands every event the driver delivers to the monitor once and in order.\<close>

lemma registry_monitor_round_delivers:
  assumes d: "holds_registry_events d q"
    and dr: "drain_events registry_weight (unat EVENTS_BUFFER_SIZE) q = (served, later)"
  shows "\<exists>wait d'. registry_monitor_round gp env now d s =
      Inr (Some (handle_events (report_registry_event gp env) stopping served s), wait, d') \<and>
    holds_registry_events d' later \<and> wait \<in> {5, 65}"
proof -
  have B: "unat EVENTS_BUFFER_SIZE = 327680" by (simp add: EVENTS_BUFFER_SIZE_def)
  obtain d' where p: "poll_registry now (unat EVENTS_BUFFER_SIZE) d = Inr (concat (map registry_event_bytes served), d')"
    and h: "holds_registry_events d' later"
    using regmon.poll_refines [OF d _ dr, of now] B by auto
  let ?out = "concat (map registry_event_bytes served)"
  have wf: "\<forall>e \<in> set served. registry_event_wf e"
    using d drain_events_split [OF dr] by (auto simp: holds_registry_events_def rm_inv_def)
  have "length ?out \<le> 327680" using regmon.poll_length [OF d _ p] B by simp
  then have "length ?out < 2 ^ 32" by simp
  then have n: "length ?out = unat (of_nat (length ?out) :: u32)" by (rule unat_of_nat_small32 [symmetric])
  have "handle_answer sizeof_REGISTRY_EVENT registry_event_size_at (handle_registry_event gp env) stopping
      (?out @ replicate (unat EVENTS_BUFFER_SIZE - length ?out) 0) (of_nat (length ?out)) s =
    Some (handle_events (report_registry_event gp env) stopping served s)"
    by (rule registry_codec.handle_answer_encoded [OF wf _ n])
       (use wf in \<open>simp only: handle_registry_event_def registry_event_at_bytes\<close>)
  then show ?thesis using p h by (simp add: registry_monitor_round_def Let_def registry_wait_time_def)
qed

end
