(* ===== verification/Reporting.thy ===== *)
theory Reporting
  imports ClientFileMonitor ClientRegistryMonitor
begin

text \<open>
  What one round of the file and of the registry monitor signals, against their drivers: every
  event the driver serves is judged on its own, with the names, the permissions and the paths
  of processes the monitor has.
\<close>

subsection \<open>One event after the other\<close>

text \<open>
  \<open>reports s e\<close> is what event \<open>e\<close> adds to the output in state \<open>s\<close>; handling an event does not
  change what the later ones add.
\<close>

locale reporter =
  fixes step :: "'e \<Rightarrow> 's \<Rightarrow> client_error + 's" and out :: "'s \<Rightarrow> 'r list"
    and reports :: "'s \<Rightarrow> 'e \<Rightarrow> 'r list" and ready :: "'s \<Rightarrow> 'e \<Rightarrow> bool" and stop :: "'s \<Rightarrow> bool"
  assumes step_reports: "ready s e \<Longrightarrow> \<exists>s'. step e s = Inr s' \<and> out s' = out s @ reports s e \<and>
      stop s' = stop s \<and> reports s' = reports s \<and> ready s' = ready s"
begin

lemma handle_events_reports:
  "\<forall>e \<in> set es. ready s e \<Longrightarrow> \<not> stop s \<Longrightarrow>
     \<exists>s'. handle_events step stop es s = Inr s' \<and> out s' = out s @ concat (map (reports s) es)"
proof (induction es arbitrary: s)
  case (Cons e es)
  then obtain s1 where s1: "step e s = Inr s1" "out s1 = out s @ reports s e" "\<not> stop s1"
    "reports s1 = reports s" "ready s1 = ready s"
    using step_reports [of s e] by auto
  with Cons.IH [of s1] Cons.prems show ?case by auto
qed simp

end

subsection \<open>Processes the client knows\<close>

definition process_path :: "proc_state \<Rightarrow> u32 \<Rightarrow> wstring option" where
  "process_path ps pid = (if pid = 4 then Some (wide ''System'') else processMap ps pid)"

lemma getProcessPath_known:
  "process_path ps pid = Some p \<Longrightarrow>
     \<exists>ps'. getProcessPath env m (Suc n) pid ps = Inr (p, ps') \<and> process_path ps' = process_path ps"
  by (cases "pid = 4") (auto simp: process_path_def getProcessPath_hit fun_eq_iff simp del: getProcessPath.simps,
      simp add: process_path_def)

subsection \<open>Files\<close>

definition file_reports :: "client_env \<Rightarrow> client_file_monitor \<Rightarrow> file_event \<Rightarrow> monitor_signal list" where
  "file_reports env s e =
     (let raw = c_str (filePath e); path = replace_prefix (dosNameMap s) raw
      in case (getFileEventName e raw, process_path (procs s) (fe_processId e)) of
           (Some name, Some p) \<Rightarrow>
             if path = wide ''UNKNOWN'' \<or> isEventAllowed (text_env.truncate env) (permissionMap s) name p path
             then []
             else [\<lparr>ms_event = name, ms_time = timefieldToString (fe_time e), ms_processId = fe_processId e,
                    ms_processPath = p, ms_path = path\<rparr>]
         | _ \<Rightarrow> [])"

definition file_ready :: "client_file_monitor \<Rightarrow> file_event \<Rightarrow> bool" where
  "file_ready s e \<longleftrightarrow> process_path (procs s) (fe_processId e) \<noteq> None"

lemma file_reports_view:
  fixes t :: client_file_monitor
  assumes "process_path (procs t) = process_path (procs s)" and "dosNameMap t = dosNameMap s"
    and "permissionMap t = permissionMap s"
  shows "file_reports env t = file_reports env s" and "file_ready t = file_ready s"
  unfolding file_reports_def file_ready_def assms by (rule refl)+

lemma report_file_event_known:
  fixes s :: client_file_monitor
  assumes "file_ready s e"
  shows "\<exists>s'. report_file_event (getProcessPath penv m (Suc n)) env e (c_str (filePath e)) s = Inr s' \<and>
    events s' = events s @ file_reports env s e \<and> stopping s' = stopping s \<and>
    file_reports env s' = file_reports env s \<and> file_ready s' = file_ready s"
proof -
  obtain p where p: "process_path (procs s) (fe_processId e) = Some p"
    using assms by (auto simp: file_ready_def)
  obtain ps where ps: "getProcessPath penv m (Suc n) (fe_processId e) (procs s) = Inr (p, ps)"
    "process_path ps = process_path (procs s)" using getProcessPath_known [OF p] by blast
  then obtain ps' where ps': "getProcessPath penv m (Suc n) (fe_processId e) ps = Inr (p, ps')"
    "process_path ps' = process_path (procs s)" using getProcessPath_known [of ps] p by metis
  have view: "file_reports env t = file_reports env s" "file_ready t = file_ready s"
    if "process_path (procs t) = process_path (procs s)" "dosNameMap t = dosNameMap s"
      "permissionMap t = permissionMap s" for t :: client_file_monitor
    by (rule file_reports_view [OF that])+
  let ?raw = "c_str (filePath e)"
  let ?path = "replace_prefix (dosNameMap s) ?raw"
  show ?thesis
  proof (cases "getFileEventName e ?raw")
    case None
    then have "file_reports env s e = []" by (simp add: file_reports_def Let_def)
    then show ?thesis using None by (simp add: report_file_event_def)
  next
    case (Some name)
    note simps = report_file_event_def convertFileObjectNameToDosName_def Some p ps(1) ps'(1) Let_def
    let ?t = "s\<lparr>procs := ps'\<rparr>"
    let ?off = "?path = wide ''UNKNOWN'' \<or> isEventAllowed (text_env.truncate env) (permissionMap s) name p ?path"
    let ?sig = "\<lparr>ms_event = name, ms_time = timefieldToString (fe_time e), ms_processId = fe_processId e,
      ms_processPath = p, ms_path = ?path\<rparr>"
    let ?u = "?t\<lparr>modifiedFiles := (if monitorModifiedFiles s then track_file env e ?path (modifiedFiles s)
        else modifiedFiles s), events := events s @ [?sig]\<rparr>"
    have r: "report_file_event (getProcessPath penv m (Suc n)) env e ?raw s = Inr (if ?off then ?t else ?u)"
      by (simp add: simps del: getProcessPath.simps)
    have "file_reports env s e = (if ?off then [] else [?sig])"
      by (simp add: file_reports_def Some p Let_def)
    then show ?thesis unfolding r using view [of ?t] view [of ?u] ps'(2) by simp
  qed
qed

interpretation files: reporter
  "\<lambda>e. report_file_event (getProcessPath penv m (Suc n)) env e (c_str (filePath e))"
  events "file_reports env" file_ready stopping for penv m n env
  by unfold_locales (rule report_file_event_known)

subsection \<open>The registry\<close>

definition registry_reports ::
    "text_env \<Rightarrow> client_registry_monitor \<Rightarrow> registry_event \<Rightarrow> monitor_signal list" where
  "registry_reports env s e =
     (case (registry_path_of e, process_path (procs s) (re_processId e)) of
        (Inr raw, Some p) \<Rightarrow>
          (let path = replace_prefix (objectNameMap s) raw; name = getRegistryEventName (re_eventType e)
           in if isEventAllowed env (permissionMap s) name p path then []
              else [\<lparr>ms_event = name, ms_time = timefieldToString (re_time e), ms_processId = re_processId e,
                     ms_processPath = p, ms_path = path\<rparr>])
      | _ \<Rightarrow> [])"

definition registry_ready :: "client_registry_monitor \<Rightarrow> registry_event \<Rightarrow> bool" where
  "registry_ready s e \<longleftrightarrow> registry_terminated e \<and> process_path (procs s) (re_processId e) \<noteq> None"

lemma registry_reports_view:
  fixes t :: client_registry_monitor
  assumes "process_path (procs t) = process_path (procs s)" and "objectNameMap t = objectNameMap s"
    and "permissionMap t = permissionMap s"
  shows "registry_reports env t = registry_reports env s" and "registry_ready t = registry_ready s"
  unfolding registry_reports_def registry_ready_def assms by (rule refl)+

lemma report_registry_event_known:
  fixes s :: client_registry_monitor
  assumes "registry_ready s e"
  shows "\<exists>s'. report_registry_event (getProcessPath penv m (Suc n)) env e s = Inr s' \<and>
    events s' = events s @ registry_reports env s e \<and> stopping s' = stopping s \<and>
    registry_reports env s' = registry_reports env s \<and> registry_ready s' = registry_ready s"
proof -
  obtain p where p: "process_path (procs s) (re_processId e) = Some p"
    using assms by (auto simp: registry_ready_def)
  obtain ps where ps: "getProcessPath penv m (Suc n) (re_processId e) (procs s) = Inr (p, ps)"
    "process_path ps = process_path (procs s)" using getProcessPath_known [OF p] by blast
  obtain raw where raw: "registry_path_of e = Inr raw"
    using assms by (auto simp: registry_ready_def registry_terminated_def registry_path_of_def)
  have view: "registry_reports env t = registry_reports env s" "registry_ready t = registry_ready s"
    if "process_path (procs t) = process_path (procs s)" "objectNameMap t = objectNameMap s"
      "permissionMap t = permissionMap s" for t :: client_registry_monitor
    by (rule registry_reports_view [OF that])+
  let ?path = "replace_prefix (objectNameMap s) raw"
  let ?name = "getRegistryEventName (re_eventType e)"
  let ?off = "isEventAllowed env (permissionMap s) ?name p ?path"
  let ?sig = "\<lparr>ms_event = ?name, ms_time = timefieldToString (re_time e), ms_processId = re_processId e,
    ms_processPath = p, ms_path = ?path\<rparr>"
  let ?t = "s\<lparr>procs := ps\<rparr>"
  let ?u = "?t\<lparr>events := events s @ [?sig]\<rparr>"
  have r: "report_registry_event (getProcessPath penv m (Suc n)) env e s = Inr (if ?off then ?t else ?u)"
    by (simp add: report_registry_event_def convertRegistryObjectNameToHiveName_def raw ps(1) Let_def
        del: getProcessPath.simps)
  have "registry_reports env s e = (if ?off then [] else [?sig])"
    by (simp add: registry_reports_def raw p Let_def)
  then show ?thesis unfolding r using view [of ?t] view [of ?u] ps(2) by simp
qed

interpretation keys: reporter "report_registry_event (getProcessPath penv m (Suc n)) env"
  events "registry_reports env" registry_ready stopping for penv m n env
  by unfold_locales (rule report_registry_event_known)

end
