(* ===== verification/ExclusionClaims.thy ===== *)
theory ExclusionClaims
  imports ClientFileMonitor
begin

text \<open>
  The properties of the exclusion lists: what a whole list file means, what the operations
  keep, and where they fail.
\<close>

subsection \<open>A list file\<close>

text \<open>A rule as it stands in a file: sign, action, subject and object, with tabs between.\<close>

type_synonym list_rule = "u8 list \<times> u8 list \<times> u8 list \<times> u8 list"

definition rule_line :: "list_rule \<Rightarrow> u8 list" where
  "rule_line = (\<lambda>(x, a, s, t). x @ [9] @ a @ [9] @ s @ [9] @ t)"

definition list_file :: "list_rule list \<Rightarrow> u8 list" where
  "list_file rs = concat (map (\<lambda>r. rule_line r @ [10]) rs)"

definition plain_text :: "u8 list \<Rightarrow> bool" where
  "plain_text f \<longleftrightarrow> set f \<inter> {0, 9, 10, 13, 26} = {}"

definition list_rule_ok :: "text_env \<Rightarrow> list_rule \<Rightarrow> bool" where
  "list_rule_ok env = (\<lambda>(x, a, s, t).
     (x = [0x2B] \<or> x = [0x2D]) \<and> plain_text a \<and> plain_text s \<and> plain_text t \<and>
     map widen a \<notin> {wide ''.*'', wide ''.+''} \<and>
     regex_valid env (map widen s) \<and> regex_valid env (map widen t))"

definition rule_covers :: "text_env \<Rightarrow> wstring \<Rightarrow> wstring \<Rightarrow> wstring \<Rightarrow> list_rule \<Rightarrow> bool" where
  "rule_covers env ev subject obj = (\<lambda>(x, a, s, t).
     lower_case env (map widen a) = lower_case env ev \<and>
     regex_match env (map widen s) (c_str subject) \<and> regex_match env (map widen t) (c_str obj))"

definition permission_of :: "list_rule \<Rightarrow> permission" where
  "permission_of = (\<lambda>(x, a, s, t). \<lparr>subjects = [map widen s], objects = [map widen t],
     allow = (x = [0x2B]), permaneant = False\<rparr>)"

lemma widen_inject [simp]: "widen c = widen d \<longleftrightarrow> c = d"
proof
  assume eq: "widen c = widen d"
  have "bit c n = bit d n" if "n < 8" for n
  proof -
    have "bit (widen c) n = bit (widen d) n" using eq by simp
    then show ?thesis using that by (simp add: widen_def bit_word_scast_iff)
  qed
  then show "c = d" by (intro bit_word_eqI) simp
qed simp

lemma widen_0 [simp]: "widen c = 0 \<longleftrightarrow> c = 0"
  using widen_inject [of c 0] by (simp add: widen_def del: widen_inject)

lemma c_str_widen: "plain_text f \<Longrightarrow> c_str (map widen f) = map widen f"
proof -
  assume "plain_text f"
  then have "\<forall>c \<in> set (map widen f). c \<noteq> 0" by (auto simp: plain_text_def)
  then show ?thesis unfolding c_str_def takeWhile_eq_all_conv .
qed

subsection \<open>Reading it\<close>

lemma rule_line_plain:
  "list_rule_ok env r \<Longrightarrow> set (rule_line r) \<inter> {10, 13, 26} = {}"
  by (auto simp: list_rule_ok_def rule_line_def plain_text_def)

lemma load_rule_line:
  assumes "list_rule_ok env r"
  shows "\<exists>a. lower_case env (map widen (fst (snd r))) = a \<and>
    load_line env (rule_line r) m = (map_add_rule a (permission_of r) m, None)"
proof -
  obtain x a s t where r: "r = (x, a, s, t)" by (cases r)
  have x: "x = [0x2B] \<or> x = [0x2D]" and f: "plain_text a" "plain_text s" "plain_text t"
    and "map widen a \<notin> {wide ''.*'', wide ''.+''}" "regex_valid env (map widen s)" "regex_valid env (map widen t)"
    using assms by (simp_all add: r list_rule_ok_def)
  moreover have "9 \<notin> set x \<union> set a \<union> set s \<union> set t" using x f by (auto simp: plain_text_def)
  moreover have "allow_word env (map widen x) = (x = [0x2B])"
    using x by (auto simp: allow_word_def wide_def widen_def)
  ultimately have "load_line env (rule_line r) m =
      (map_add_rule (lower_case env (map widen a)) (permission_of r) m, None)"
    unfolding rule_line_def r permission_of_def split_conv
    by (intro load_line_rule) (auto simp: addExclusion_def c_str_widen)
  then show ?thesis by (simp add: r)
qed

lemma load_rule_lines:
  "\<forall>r \<in> set rs. list_rule_ok env r \<Longrightarrow>
     \<exists>m'. load_lines env n (map rule_line rs @ [[]]) m = (m', []) \<and>
       (\<forall>b. rules_for b m' = rules_for b m @
          map permission_of (filter (\<lambda>r. lower_case env (map widen (fst (snd r))) = b) rs))"
proof (induction rs arbitrary: n m)
  case (Cons r rs)
  have ok: "list_rule_ok env r" and oks: "\<forall>r \<in> set rs. list_rule_ok env r" using Cons.prems by auto
  from load_rule_line [OF ok] obtain a where a: "lower_case env (map widen (fst (snd r))) = a"
    and l: "load_line env (rule_line r) m = (map_add_rule a (permission_of r) m, None)" by blast
  show ?case
    using Cons.IH [OF oks, of "Suc n" "map_add_rule a (permission_of r) m"] a l
    by (auto simp: rules_for_add)
qed (simp add: load_line_def)

lemma load_list_file:
  assumes "\<forall>r \<in> set rs. list_rule_ok env r"
  shows "\<exists>m. loadExclusionList env (Some (list_file rs)) [] = (m, []) \<and>
    (\<forall>b. rules_for b m = map permission_of (filter (\<lambda>r. lower_case env (map widen (fst (snd r))) = b) rs))"
proof -
  have "\<forall>l \<in> set (map rule_line rs). set l \<inter> {10, 13, 26} = {}"
    using assms rule_line_plain by auto
  then have "text_mode (list_file rs) = list_file rs" and "\<forall>l \<in> set (map rule_line rs). 10 \<notin> set l"
    by (auto simp: list_file_def intro!: text_mode_plain split: if_split_asm)
  then have "split_on 10 (text_mode (list_file rs)) = map rule_line rs @ [[]]"
    using split_lines [of "map rule_line rs"] by (simp add: list_file_def comp_def)
  then show ?thesis
    using load_rule_lines [OF assms, of 1 "[]"] by (auto simp: loadExclusionList_def rules_for_def)
qed

lemma Check_permission_of:
  assumes "list_rule_ok env r" and "lower_case env (map widen (fst (snd r))) = lower_case env ev"
  shows "Check env (permission_of r) subject obj =
    (if rule_covers env ev subject obj r then (if fst r = [0x2B] then ALLOWED else DISALLOWED) else NO_MATCH)"
  using assms by (cases r) (auto simp: permission_of_def rule_covers_def Check_single)

subsection \<open>The properties\<close>

text \<open>
  C5. What a list file means. Read into an empty list, a file of well-formed rules is taken in
  whole, without an error; from then on an event is allowed just when some rule of the file
  with a plus covers it and none with a minus does: the order of the rules does not matter,
  a minus always wins, and what no rule covers is not allowed.
\<close>

theorem list_file_decides:
  assumes "\<forall>r \<in> set rs. list_rule_ok env r"
  shows "\<exists>m. loadExclusionList env (Some (list_file rs)) [] = (m, []) \<and>
    (\<forall>ev subject obj. isEventAllowed env m ev subject obj \<longleftrightarrow>
      (\<exists>r \<in> set rs. fst r = [0x2B] \<and> rule_covers env ev subject obj r) \<and>
      (\<forall>r \<in> set rs. fst r = [0x2D] \<longrightarrow> \<not> rule_covers env ev subject obj r))"
proof -
  obtain m where m: "loadExclusionList env (Some (list_file rs)) [] = (m, [])"
    and r: "rules_for b m = map permission_of (filter (\<lambda>r. lower_case env (map widen (fst (snd r))) = b) rs)" for b
    using load_list_file [OF assms] by blast
  have act: "lower_case env (map widen (fst (snd r))) = lower_case env ev" if "rule_covers env ev subject obj r"
    for r ev subject obj using that by (auto simp: rule_covers_def split: prod.splits)
  have sign: "fst r = [0x2B] \<or> fst r = [0x2D]" if "r \<in> set rs" for r
    using bspec [OF assms that] by (cases r) (auto simp: list_rule_ok_def)
  have "isEventAllowed env m ev subject obj \<longleftrightarrow>
      (\<exists>r \<in> set rs. fst r = [0x2B] \<and> rule_covers env ev subject obj r) \<and>
      (\<forall>r \<in> set rs. fst r = [0x2D] \<longrightarrow> \<not> rule_covers env ev subject obj r)" for ev subject obj
  proof -
    have c: "Check env (permission_of r) subject obj =
        (if rule_covers env ev subject obj r then (if fst r = [0x2B] then ALLOWED else DISALLOWED) else NO_MATCH)"
      if "r \<in> set rs" "lower_case env (map widen (fst (snd r))) = lower_case env ev" for r
      by (rule Check_permission_of) (use assms that in auto)
    let ?A = "\<lambda>r. lower_case env (map widen (fst (snd r))) = lower_case env ev"
    have yes: "?A r \<and> Check env (permission_of r) subject obj = ALLOWED \<longleftrightarrow>
        fst r = [0x2B] \<and> rule_covers env ev subject obj r" if "r \<in> set rs" for r
      using c [OF that] act [of ev subject obj r] by (cases "?A r") auto
    have no: "(?A r \<longrightarrow> Check env (permission_of r) subject obj \<noteq> DISALLOWED) \<longleftrightarrow>
        (fst r = [0x2D] \<longrightarrow> \<not> rule_covers env ev subject obj r)" if "r \<in> set rs" for r
      using c [OF that] act [of ev subject obj r] sign [OF that] by (cases "?A r") auto
    have "isEventAllowed env m ev subject obj \<longleftrightarrow>
        (\<exists>r \<in> set rs. ?A r \<and> Check env (permission_of r) subject obj = ALLOWED) \<and>
        (\<forall>r \<in> set rs. ?A r \<longrightarrow> Check env (permission_of r) subject obj \<noteq> DISALLOWED)"
      unfolding isEventAllowed_iff r by (simp add: Bex_def Ball_def image_iff del: split_paired_All split_paired_Ex) blast
    then show ?thesis using yes no by (simp cong: bex_cong ball_cong)
  qed
  with m show ?thesis by blast
qed

definition text_env0 :: text_env where
  "text_env0 = \<lparr>regex_valid = \<lambda>r. True, regex_match = \<lambda>r s. r = s \<or> last r = 0x2A, towlower = \<lambda>c. c,
     allow_garbage = False\<rparr>"

definition rules0 :: "list_rule list" where
  "rules0 = [([0x2B], [0x72], [0x61], [0x2A]), ([0x2D], [0x72], [0x61], [0x62])]"

theorem list_file_decides_witness:
  "\<exists>m. loadExclusionList text_env0 (Some (list_file rules0)) [] = (m, []) \<and>
    (\<forall>ev subject obj. isEventAllowed text_env0 m ev subject obj \<longleftrightarrow>
      (\<exists>r \<in> set rules0. fst r = [0x2B] \<and> rule_covers text_env0 ev subject obj r) \<and>
      (\<forall>r \<in> set rules0. fst r = [0x2D] \<longrightarrow> \<not> rule_covers text_env0 ev subject obj r))"
  by (rule list_file_decides)
     (simp add: rules0_def list_rule_ok_def plain_text_def text_env0_def wide_def)





text \<open>
  Clearing a list. \<open>clearExclusionList\<close> does nothing where every permission is permanent,
  and otherwise goes on with an iterator into freed memory: no list with a permission from a
  file or from the server can be cleared.
\<close>

theorem clear_list_fails:
  assumes "addExclusion env excluded action subject obj False m = Inr m'"
  shows "clearExclusionList m' = Inl DANGLING_ITERATOR \<and>
    (clearExclusionList m = Inr m \<longleftrightarrow> (\<forall>(a, ps) \<in> set m. \<forall>p \<in> set ps. permaneant p))"
proof -
  let ?p = "\<lparr>subjects = [c_str subject], objects = [c_str obj], allow = allow_word env excluded, permaneant = False\<rparr>"
  have "m' = map_add_rule (lower_case env action) ?p m"
    using assms by (simp add: addExclusion_def split: if_split_asm)
  moreover have "\<exists>x \<in> set (map_add_rule a p m). p \<in> set (snd x)" for a and p :: permission
    by (induction m) (simp, force)
  ultimately obtain x where "x \<in> set m'" "?p \<in> set (snd x)" by blast
  then have "\<not> (\<forall>(a, ps) \<in> set m'. \<forall>p \<in> set ps. permaneant p)"
    by (auto simp: split_def intro!: bexI [of _ x] bexI [of _ ?p])
  then show ?thesis unfolding clearExclusionList_iff by simp
qed

theorem clear_list_fails_witness:
  "clearExclusionList [([0x72], [\<lparr>subjects = [[0x61]], objects = [[0x62]], allow = False, permaneant = False\<rparr>])]
      = Inl DANGLING_ITERATOR \<and>
    (clearExclusionList [] = Inr [] \<longleftrightarrow>
      (\<forall>(a, ps) \<in> set ([] :: permission_map). \<forall>p \<in> set ps. permaneant p))"
  by (rule clear_list_fails [of text_env0 "[0x2D]" "[0x72]" "[0x61]" "[0x62]"])
     (simp add: addExclusion_def text_env0_def lower_case_def c_str_def allow_word_def wide_def)

text \<open>
  The client's own directories. With the exclusions the file monitor starts with, whatever
  happens to a file below the log directory or the temporary directory, whose names are quoted
  for the regular expressions, is allowed, unless a list file says no to it.
\<close>

theorem own_directories_excluded:
  assumes "own_exclusions env logs temp executable logFile m = Inr m'"
    and "dir = logs \<or> dir = temp" and "0 \<notin> set dir"
    and "a \<in> {''write'', ''create'', ''delete'', ''open'', ''read''}"
    and "regex_match env (wide ''.*'') (c_str subject)"
    and "regex_match env (concat (map quote_char dir) @ wide [CHR 0x5C, CHR 0x5C, CHR 0x2E, CHR 0x2A]) (c_str path)"
    and "\<forall>p \<in> set (rules_for (lower_case env (wide a)) m'). Check env p subject path \<noteq> DISALLOWED"
  shows "isEventAllowed env m' (wide a) subject path"
  using own_exclusions_cover [OF assms(1-5) _ assms(7)] assms(6)
  by (simp add: quoted_directory_def prepareStringForExclusion_quotes)

definition own0 :: permission_map where
  "own0 = (case own_exclusions text_env0 [0x61] [0x62] [0x63] None [] of Inl e \<Rightarrow> [] | Inr m \<Rightarrow> m)"

theorem own_directories_excluded_witness:
  "isEventAllowed text_env0 own0 (wide ''write'') [0x64] [0x65]"
proof (rule own_directories_excluded [of _ "[0x61]" "[0x62]" "[0x63]" None "[]" _ "[0x61]"])
  show own: "own_exclusions text_env0 [0x61] [0x62] [0x63] None [] = Inr own0"
    unfolding own0_def by code_simp
  have "\<forall>p \<in> set (rules_for (lower_case text_env0 (wide ''write'')) own0). allow p"
    unfolding own0_def by code_simp
  moreover have "Check env p s t \<noteq> DISALLOWED" if "allow p" for env p s t
    using that by (simp add: Check_def check_objects_iff)
  ultimately show "\<forall>p \<in> set (rules_for (lower_case text_env0 (wide ''write'')) own0).
      Check text_env0 p [0x64] [0x65] \<noteq> DISALLOWED" by blast
qed (simp_all add: text_env0_def wide_def)

end
