(* ===== verification/ClientProcessMonitor.thy ===== *)
theory ClientProcessMonitor
  imports ClientMonitor ProcessLink
begin

text \<open>
  The process monitor of the client (\<open>ProcessMonitor.cpp\<close>): handing the map of processes to
  the driver, one event, and one round of its loop against the driver.
\<close>

text \<open>\<open>tempP\<close> is what the loop keeps of the event before: created, parent, process.\<close>

record client_process_monitor =
  pmPermissionMap :: permission_map
  pmProcs :: proc_state
  tempP :: "u8 \<times> u32 \<times> u32"

subsection \<open>Telling the driver\<close>

text \<open>
  Each entry of the map is copied into an array of 1024 characters; the result is what was
  handed to the driver.
\<close>

fun initialiseKernelDriverProcessMap ::
    "(u32 \<times> wstring) list \<Rightarrow> client_error + (u32 \<times> wstring) list" where
  "initialiseKernelDriverProcessMap [] = Inr []"
| "initialiseKernelDriverProcessMap ((pid, path) # ps) =
     (if 1024 < length path then Inl BUFFER_OVERRUN
      else and_then (initialiseKernelDriverProcessMap ps) (\<lambda>ts.
        Inr ((pid, path @ replicate (1024 - length path) 0) # ts)))"

definition IOCTL_CAPTURE_PROC_LIST :: u32 where
  "IOCTL_CAPTURE_PROC_LIST = CTL_CODE 0x22 0x807 3 3"

subsection \<open>One event\<close>

definition process_key :: "process_event \<Rightarrow> u8 \<times> u32 \<times> u32" where
  "process_key e = (bCreated e, hParentProcessId e, hProcessId e)"

text \<open>An event like the one before is only looked up.\<close>

definition handle_process_info ::
    "path_lookup \<Rightarrow> proc_env \<Rightarrow> process_event \<Rightarrow> client_process_monitor \<Rightarrow>
     client_error + client_process_monitor" where
  "handle_process_info gp env e s =
     (if process_key e \<noteq> tempP s
      then and_then (pmon_onProcessEvent gp env (pmPermissionMap s) (bCreated e = 1) (hProcessId e)
                       (hParentProcessId e) (timefieldToString (pe_time e)) (pmProcs s)) (\<lambda>ps.
           Inr (s\<lparr>pmProcs := ps, tempP := process_key e\<rparr>))
      else and_then (gp (hProcessId e) (pmProcs s)) (\<lambda>(_, ps).
           and_then (gp (hParentProcessId e) ps) (\<lambda>(_, ps).
           Inr (s\<lparr>pmProcs := ps\<rparr>))))"

subsection \<open>One round against the driver\<close>

definition process_monitor_round ::
    "path_lookup \<Rightarrow> proc_env \<Rightarrow> pm_state \<Rightarrow> client_process_monitor \<Rightarrow>
     bugcheck + ((client_error + client_process_monitor) \<times> pm_state)" where
  "process_monitor_round gp env d s =
     and_then (poll_process 2080 d) (\<lambda>(out, d').
       Inr (if out \<noteq> [] then handle_process_info gp env (process_info_at out) s else Inr s, d'))"

subsection \<open>Facts\<close>

lemma initialiseKernelDriverProcessMap_iff:
  "initialiseKernelDriverProcessMap ps =
     (if \<exists>(pid, path) \<in> set ps. 1024 < length path then Inl BUFFER_OVERRUN
      else Inr (map (\<lambda>(pid, path). (pid, path @ replicate (1024 - length path) 0)) ps))"
  by (induction ps rule: initialiseKernelDriverProcessMap.induct) auto


text \<open>The driver does not know the code the map is sent with: it learns nothing.\<close>

lemma proc_list_not_handled:
  "pm_KDispatchIoctl \<lparr>io_code = IOCTL_CAPTURE_PROC_LIST, io_null = b, io_length = n, io_probe = pr\<rparr> d =
     Inr (STATUS_UNSUCCESSFUL, [], 0, d)"
proof -
  have "IOCTL_CAPTURE_PROC_LIST \<noteq> IOCTL_CAPTURE_GET_PROCINFO" by code_simp
  then show ?thesis by (simp add: pm_KDispatchIoctl_def)
qed

text \<open>A round takes the first event of the driver, and no other.\<close>

lemma process_monitor_round_takes:
  assumes "pm_inv d (e # es)"
  shows "\<exists>d'. process_monitor_round gp env d s = Inr (handle_process_info gp env e s, d') \<and> pm_inv d' es"
proof -
  have wf: "process_event_wf e" using pm_invD(7) [OF assms] by simp
  then have "process_event_bytes e \<noteq> []" by (auto simp: process_event_wf_def process_event_bytes_def)
  moreover have "process_info_at (process_event_bytes e) = e"
    using process_info_at_bytes [OF wf, of "[]"] by simp
  moreover obtain d' where "poll_process 2080 d = Inr (process_event_bytes e, d')" "pm_inv d' es"
    using pm_KDispatchIoctl_poll [OF assms, of 2080] by (auto simp: poll_process_def)
  ultimately show ?thesis by (auto simp: process_monitor_round_def)
qed

text \<open>The same event again is not reported again.\<close>

lemma handle_process_info_again:
  assumes "process_key e = tempP s"
    and "processMap (pmProcs s) (hProcessId e) = Some p" "hProcessId e \<noteq> 4"
    and "processMap (pmProcs s) (hParentProcessId e) = Some q" "hParentProcessId e \<noteq> 4"
  shows "\<exists>s'. handle_process_info (getProcessPath env m (Suc n)) env e s = Inr s' \<and>
    signalled (pmProcs s') = signalled (pmProcs s) \<and> tempP s' = tempP s"
  using assms by (simp add: handle_process_info_def getProcessPath_hit del: getProcessPath.simps)

end
