(* ===== verification/MonitorClaims.thy ===== *)
theory MonitorClaims
  imports ExclusionClaims ClientRegistryMonitor ClientProcessMonitor
begin

text \<open>
  The properties of the process manager and of what the monitors do with one event: the search
  for the path of a process ends, what is reported for a process, and what one event becomes.
\<close>

subsection \<open>How a search can fail\<close>

lemma convert_error: "convertFileObjectPathToDOSPath env s = Inl e \<Longrightarrow> e = OUT_OF_RANGE"
  by (auto simp: convertFileObjectPathToDOSPath_def wsubstr_def Let_def and_then_Inl_iff
      split: option.splits if_split_asm)

lemma insertProcess_error: "insertProcess env pid path s = Inl e \<Longrightarrow> e = OUT_OF_RANGE"
  using convert_error by (auto simp: insertProcess_def and_then_Inl_iff)

lemma pman_onProcessEvent_error: "pman_onProcessEvent env c pid path s = Inl e \<Longrightarrow> e = OUT_OF_RANGE"
  using convert_error insertProcess_error
  by (auto simp: pman_onProcessEvent_def and_then_Inl_iff split: if_split_asm)

lemma getProcessPath_error:
  "getProcessPath env m n pid s = Inl e \<Longrightarrow> e = OUT_OF_RANGE \<or> e = OUT_OF_FUEL"
proof (induction n arbitrary: pid s e)
  case (Suc n)
  have pmon: "pmon_onProcessEvent (getProcessPath env m n) env m c pid parent time s = Inl e \<Longrightarrow>
      e = OUT_OF_RANGE \<or> e = OUT_OF_FUEL" for c pid parent time s
    using Suc.IH pman_onProcessEvent_error
    by (auto simp: pmon_onProcessEvent_def and_then_Inl_iff split: if_split_asm)
  show ?case
    using Suc.prems pmon insertProcess_error convert_error
    by (auto simp: path_from_system_def Let_def and_then_Inl_iff split: if_split_asm option.splits prod.splits)
qed simp

subsection \<open>The properties\<close>

text \<open>
  C20. The search for the path of a process ends. On a miss it reports the process it found,
  which searches for the parent, and so on; as every step puts a process into the map and
  there are \<open>2 ^ 32\<close> identifiers, the chain ends also where identifiers were used again and
  parents form a cycle. It gives a path, with a map that has only grown, or one exception.
\<close>

theorem path_search_ends:
  "case getProcessPath env m (Suc (2 ^ 32 + k)) pid s of
     Inl e \<Rightarrow> e = OUT_OF_RANGE
   | Inr (p, s') \<Rightarrow> dom (processMap s) \<subseteq> dom (processMap s')"
proof -
  have "unmapped s < Suc (2 ^ 32 + k)" using unmapped_bound [of s] by simp
  then have "getProcessPath env m (Suc (2 ^ 32 + k)) pid s \<noteq> Inl OUT_OF_FUEL" by (rule lookup.lookup_enough)
  then show ?thesis
    using getProcessPath_error [of env m "Suc (2 ^ 32 + k)" pid s]
      lookup.lookup_grows [of env m "Suc (2 ^ 32 + k)" pid s]
    by (auto simp del: getProcessPath.simps simp: grows_def split: sum.split)
qed

text \<open>
  What is reported for a process. One that is new to the client is reported twice, once by
  the search for its path and once for the event; and the path the client found then is the
  path in every later report for the identifier, created or terminated, whichever process has
  it by that time.
\<close>

theorem new_process_reports:
  assumes new: "processMap s pid = None" "arrivals s = []" "pid \<noteq> 4" "monitor_set s"
    and sys: "can_open env pid" "image_file_name env pid = Some path"
      "convertFileObjectPathToDOSPath env path = Inr p" "convertFileObjectPathToDOSPath env p = Inr p"
    and par: "parent = getParentProcessId env pid" "processMap s parent = Some q" "parent \<noteq> 4"
    and no: "\<not> isEventAllowed (text_env.truncate env) m (file_part p) (file_part q) p"
  shows "\<exists>s1 s2. pmon_onProcessEvent (getProcessPath env m (Suc (Suc n))) env m c pid parent time s = Inr s1 \<and>
    map (\<lambda>r. (ps_processId r, ps_processPath r)) (signalled s1) =
      map (\<lambda>r. (ps_processId r, ps_processPath r)) (signalled s) @ [(pid, p), (pid, p)] \<and>
    pmon_onProcessEvent (getProcessPath env m (Suc n)) env m c' pid parent time' s1 = Inr s2 \<and>
    map (\<lambda>r. (ps_processId r, ps_processPath r)) (signalled s2) =
      map (\<lambda>r. (ps_processId r, ps_processPath r)) (signalled s1) @ [(pid, p)]"
proof -
  from pmon_onProcessEvent_fresh [OF new sys par no, of n c time] obtain s1 where
    s1: "pmon_onProcessEvent (getProcessPath env m (Suc (Suc n))) env m c pid parent time s = Inr s1"
      "processMap s1 = (processMap s)(pid \<mapsto> p)"
      "map (\<lambda>r. (ps_processId r, ps_processPath r)) (signalled s1) =
        map (\<lambda>r. (ps_processId r, ps_processPath r)) (signalled s) @ [(pid, p), (pid, p)]"
    by auto
  have "parent \<noteq> pid" using new(1) par(2) by auto
  then have m1: "processMap s1 pid = Some p" "processMap s1 parent = Some q" using s1(2) par(2) by simp_all
  from pmon_onProcessEvent_cached [OF m1(1) new(3) m1(2) par(3) sys(4) no, of n c' time'] obtain s2 where
    "pmon_onProcessEvent (getProcessPath env m (Suc n)) env m c' pid parent time' s1 = Inr s2"
    "map (\<lambda>r. (ps_processId r, ps_processPath r)) (signalled s2) =
      map (\<lambda>r. (ps_processId r, ps_processPath r)) (signalled s1) @ [(pid, p)]"
    by auto
  with s1 show ?thesis by blast
qed

definition proc_env0 :: proc_env where
  "proc_env0 = \<lparr>regex_valid = \<lambda>r. True, regex_match = \<lambda>r s. r = s, towlower = \<lambda>c. c, allow_garbage = False,
     dos_target = \<lambda>d. None, long_path = \<lambda>p. None, can_open = \<lambda>p. True,
     image_file_name = \<lambda>p. Some [0x61], image_buffer = \<lambda>p. [0x61, 0], has_modules = \<lambda>p. True,
     process_list = None, snapshot = Some [(8, 12)], local_time = [0x74]\<rparr>"

definition proc_state0 :: proc_state where
  "proc_state0 = \<lparr>processMap = [12 \<mapsto> [0x71]], cacheHits = 0, cacheMisses = 0, cacheFailures = 0,
     monitor_set = True, arrivals = [], signalled = []\<rparr>"

theorem new_process_reports_witness:
  "\<exists>s1 s2. pmon_onProcessEvent (getProcessPath proc_env0 [] (Suc (Suc 5))) proc_env0 [] True 8 12 [0x30] proc_state0
      = Inr s1 \<and>
    map (\<lambda>r. (ps_processId r, ps_processPath r)) (signalled s1) =
      map (\<lambda>r. (ps_processId r, ps_processPath r)) (signalled proc_state0) @ [(8, [0x61]), (8, [0x61])] \<and>
    pmon_onProcessEvent (getProcessPath proc_env0 [] (Suc 5)) proc_env0 [] False 8 12 [0x31] s1 = Inr s2 \<and>
    map (\<lambda>r. (ps_processId r, ps_processPath r)) (signalled s2) =
      map (\<lambda>r. (ps_processId r, ps_processPath r)) (signalled s1) @ [(8, [0x61])]"
  by (rule new_process_reports [where q = "[0x71]" and path = "[0x61]"])
     (simp_all add: proc_env0_def proc_state0_def getParentProcessId_def isEventAllowed_iff rules_for_def)

end
