(* ===== verification/XmlDocument.thy ===== *)
theory XmlDocument
  imports WideText
begin

text \<open>
  Documents of the protocol: the element tree and how it is written (\<open>Element.h\<close>), the
  escaping of attribute values (\<open>Server::xml_escape\<close>), and the controller that builds a tree
  from the events of the XML parser and hands it to its listeners (\<open>EventController.cpp\<close>).
\<close>

subsection \<open>Elements\<close>

datatype element =
  Element (el_name: wstring) (el_attributes: "(wstring \<times> wstring) list") (el_data: "u8 list")
    (el_children: "element list")

text \<open>The first attribute with the name.\<close>

definition getAttributeValue :: "wstring \<Rightarrow> element \<Rightarrow> wstring" where
  "getAttributeValue n e = (case map_of (el_attributes e) n of None \<Rightarrow> [] | Some v \<Rightarrow> v)"

definition addAttribute :: "wstring \<Rightarrow> wstring \<Rightarrow> element \<Rightarrow> element" where
  "addAttribute n v e = Element (el_name e) (el_attributes e @ [(n, v)]) (el_data e) (el_children e)"

definition addChildElement :: "element \<Rightarrow> element \<Rightarrow> element" where
  "addChildElement c e = Element (el_name e) (el_attributes e) (el_data e) (el_children e @ [c])"

definition setData :: "u8 list \<Rightarrow> element \<Rightarrow> element" where
  "setData d e = Element (el_name e) (el_attributes e) d (el_children e)"

definition write_attribute :: "wstring \<times> wstring \<Rightarrow> wstring" where
  "write_attribute a = 0x20 # fst a @ [0x3D, 0x22] @ snd a @ [0x22]"

text \<open>Data are signed characters, widened, and end at the first zero.\<close>

fun toStringWithoutNewLine :: "element \<Rightarrow> wstring" where
  "toStringWithoutNewLine (Element n as d ch) =
     0x3C # n @ concat (map write_attribute as) @ [0x3E] @
     concat (map toStringWithoutNewLine ch) @ c_str (map scast d) @ [0x3C, 0x2F] @ n @ [0x3E]"

definition toString :: "element \<Rightarrow> wstring" where
  "toString e = toStringWithoutNewLine e @ [0x0D, 0x0A]"

text \<open>Nothing is escaped: a value can end its attribute and start another one.\<close>

lemma toString_ambiguous:
  "toString (Element n [(a, v @ [0x22, 0x20] @ b @ [0x3D, 0x22] @ w)] d ch) =
   toString (Element n [(a, v), (b, w)] d ch)"
  by (simp add: toString_def write_attribute_def)

subsection \<open>Escaping\<close>

definition entity :: "wchar \<Rightarrow> wstring" where
  "entity c =
     (if c = 0x26 then wide ''&amp;'' else if c = 0x3C then wide ''&lt;''
      else if c = 0x3E then wide ''&gt;'' else if c = 0x22 then wide ''&quot;''
      else if c = 0x27 then wide ''&apos;'' else [c])"

definition special :: "wchar \<Rightarrow> bool" where
  "special c \<longleftrightarrow> c \<in> {0x26, 0x3C, 0x3E, 0x22, 0x27}"

text \<open>
  The loop runs over the positions of the original, in a string that grows under it; a
  position outside would throw.
\<close>

definition escape_at :: "client_error + wstring \<Rightarrow> nat \<Rightarrow> client_error + wstring" where
  "escape_at r i = and_then r (\<lambda>s.
     if i < length s then Inr (take i s @ entity (s ! i) @ drop (Suc i) s) else Inl OUT_OF_RANGE)"

definition xml_escape :: "wstring \<Rightarrow> client_error + wstring" where
  "xml_escape xml = foldl escape_at (Inr xml) [0..<length xml]"

text \<open>What was meant: every character escaped.\<close>

definition escape_all :: "wstring \<Rightarrow> wstring" where
  "escape_all s = concat (map entity s)"

text \<open>What happens: the first \<open>n\<close> positions of the result are looked at.\<close>

fun escape_first :: "nat \<Rightarrow> wstring \<Rightarrow> wstring" where
  "escape_first n [] = []"
| "escape_first n (c # s) =
     (if n = 0 then c # s else entity c @ escape_first (n - length (entity c)) s)"

lemma entity_pos: "0 < length (entity c)"
  by (simp add: entity_def wide_def)

lemma entity_plain: "\<not> special c \<Longrightarrow> entity c = [c]"
  by (auto simp: entity_def special_def)

lemma entity_special: "special c \<Longrightarrow> 4 \<le> length (entity c)"
  by (auto simp: entity_def special_def)

lemma entity_tail: "\<forall>x \<in> set (tl (entity c)). \<not> special x"
  by (simp add: entity_def special_def wide_def)

lemma escape_loop:
  assumes "\<forall>x \<in> set t. \<not> special x" and "n \<le> length t + length s"
  shows "foldl escape_at (Inr (d @ t @ s)) [length d..<length d + n] =
    Inr (d @ t @ escape_first (n - length t) s)"
  using assms
proof (induction n arbitrary: d t s)
  case 0
  then show ?case by (cases s) simp_all
next
  case (Suc n)
  have up: "[length d..<length d + Suc n] = length d # [length (d @ [x])..<length (d @ [x]) + n]" for x
    by (simp add: upt_conv_Cons)
  show ?case
  proof (cases t)
    case (Cons x t')
    have "escape_at (Inr (d @ t @ s)) (length d) = Inr ((d @ [x]) @ t' @ s)"
      using Suc.prems(1) by (simp add: escape_at_def Cons entity_plain)
    then show ?thesis using Suc.IH [of t' s "d @ [x]"] Suc.prems
      unfolding up [of x] foldl_Cons by (simp add: Cons del: upt_Suc)
  next
    case Nil
    then obtain c s' where s: "s = c # s'" using Suc.prems(2) by (cases s) auto
    obtain h r where e: "entity c = h # r" using entity_pos [of c] by (cases "entity c") auto
    have r: "\<forall>x \<in> set r. \<not> special x" using entity_tail [of c] e by simp
    have "escape_at (Inr (d @ t @ s)) (length d) = Inr ((d @ [h]) @ r @ s')"
      by (simp add: escape_at_def Nil s e)
    then show ?thesis using Suc.IH [of r s' "d @ [h]"] Suc.prems(2) r
      unfolding up [of h] foldl_Cons by (simp add: Nil s e del: upt_Suc)
  qed
qed

lemma xml_escape_first: "xml_escape s = Inr (escape_first (length s) s)"
  using escape_loop [of "[]" "length s" s "[]"] by (simp add: xml_escape_def)

lemma escape_all_longer: "c \<in> set s \<Longrightarrow> special c \<Longrightarrow> length s < length (escape_all s)"
  and length_escape_all: "length s \<le> length (escape_all s)"
proof -
  have le: "length s \<le> length (escape_all s)" for s
  proof (induction s)
    case (Cons x s)
    then show ?case using entity_pos [of x]
      unfolding escape_all_def list.map concat.simps length_append list.size by linarith
  qed (simp add: escape_all_def)
  then show "length s \<le> length (escape_all s)" .
  show "c \<in> set s \<Longrightarrow> special c \<Longrightarrow> length s < length (escape_all s)"
  proof (induction s)
    case (Cons x s)
    have len: "length (escape_all (x # s)) = length (entity x) + length (escape_all s)"
      by (simp add: escape_all_def)
    show ?case
    proof (cases "c = x")
      case True
      then show ?thesis using entity_special [of x] le [of s] Cons.prems len by simp
    next
      case False
      then have "length s < length (escape_all s)" using Cons by simp
      then show ?thesis using entity_pos [of x] unfolding len list.size by linarith
    qed
  qed simp
qed

lemma escape_all_plain: "\<forall>c \<in> set s. \<not> special c \<Longrightarrow> escape_all s = s"
  by (induction s) (simp_all add: escape_all_def entity_plain)

lemma decompose_Cons:
  "(\<forall>p x q. c # s = p @ x # q \<longrightarrow> R p x) \<longleftrightarrow> R [] c \<and> (\<forall>p x q. s = p @ x # q \<longrightarrow> R (c # p) x)"
  by (auto simp: Cons_eq_append_conv)

text \<open>Everything is escaped just when the loop gets to every special character.\<close>

lemma escape_first_all_iff:
  "escape_first n s = escape_all s \<longleftrightarrow>
     (\<forall>p c q. s = p @ c # q \<longrightarrow> special c \<longrightarrow> length (escape_all p) < n)"
proof (induction s arbitrary: n)
  case Nil
  then show ?case by (simp add: escape_all_def)
next
  case (Cons c s)
  show ?case
  proof (cases n)
    case 0
    have "c # s = escape_all (c # s) \<longleftrightarrow> (\<forall>x \<in> set (c # s). \<not> special x)"
      using escape_all_longer [of _ "c # s"] escape_all_plain [of "c # s"] by fastforce
    also have "\<dots> \<longleftrightarrow> (\<forall>p x q. c # s = p @ x # q \<longrightarrow> \<not> special x)"
      by (metis in_set_conv_decomp)
    finally show ?thesis using 0 by simp
  next
    case (Suc m)
    have "escape_first n (c # s) = escape_all (c # s) \<longleftrightarrow>
        escape_first (n - length (entity c)) s = escape_all s"
      using Suc by (simp add: escape_all_def)
    also have "\<dots> \<longleftrightarrow> (\<forall>p x q. s = p @ x # q \<longrightarrow> special x \<longrightarrow> length (escape_all p) < n - length (entity c))"
      by (rule Cons.IH)
    also have "\<dots> \<longleftrightarrow> (\<forall>p x q. c # s = p @ x # q \<longrightarrow> special x \<longrightarrow> length (escape_all p) < n)"
    proof -
      have "length (escape_all (c # p)) < n \<longleftrightarrow> length (escape_all p) < n - length (entity c)" for p
        by (auto simp: escape_all_def)
      then show ?thesis
        using Suc unfolding decompose_Cons [of c s] by (simp add: escape_all_def [of "[]"])
    qed
    finally show ?thesis .
  qed
qed


text \<open>
  So one special character is enough to keep the last character from being escaped, and the
  text before it is as it would be alone.
\<close>

lemma xml_escape_all_iff:
  "xml_escape s = Inr (escape_all s) \<longleftrightarrow>
     (\<forall>p c q. s = p @ c # q \<longrightarrow> special c \<longrightarrow> length (escape_all p) < length s)"
  by (simp add: xml_escape_first escape_first_all_iff)

lemma escape_first_append:
  "n \<le> length (escape_all p) \<Longrightarrow> escape_first n (p @ q) = escape_first n p @ q"
proof (induction p arbitrary: n)
  case Nil
  then show ?case by (cases q) (simp_all add: escape_all_def)
next
  case (Cons c p)
  have "n - length (entity c) \<le> length (escape_all p)"
    using Cons.prems by (simp add: escape_all_def)
  then show ?case using Cons.IH by simp
qed

lemma xml_escape_misses_last:
  assumes "x \<in> set p" and "special x"
  shows "xml_escape (p @ [c]) = Inr (escape_first (Suc (length p)) p @ [c])"
proof -
  have "Suc (length p) \<le> length (escape_all p)" using escape_all_longer [OF assms] by simp
  from escape_first_append [OF this] show ?thesis by (simp add: xml_escape_first)
qed

subsection \<open>The controller\<close>

text \<open>What the parser calls, with names and values widened.\<close>

datatype sax_event =
    StartElement wstring "(wstring \<times> wstring) list"
  | EndElement wstring
  | CharData "u8 list"

text \<open>
  \<open>open_elements\<close> is \<open>currentElement\<close> and behind it its parents; an element joins the
  children of its parent when it is closed, which nobody can observe before. \<open>delivered\<close> is
  what was handed to which listener.
\<close>

record 'l controller =
  open_elements :: "element list"
  onServerEventMap :: "(wstring \<times> 'l list) list"
  delivered :: "('l \<times> element) list"

fun connect_slot :: "wstring \<Rightarrow> 'l \<Rightarrow> (wstring \<times> 'l list) list \<Rightarrow> (wstring \<times> 'l list) list" where
  "connect_slot ev l [] = [(ev, [l])]"
| "connect_slot ev l ((e, ls) # m) = (if e = ev then (e, ls @ [l]) # m else (e, ls) # connect_slot ev l m)"

definition connect_onServerEvent :: "wstring \<Rightarrow> 'l \<Rightarrow> 'l controller \<Rightarrow> 'l controller" where
  "connect_onServerEvent ev l s = s\<lparr>onServerEventMap := connect_slot ev l (onServerEventMap s)\<rparr>"

definition listeners_of :: "wstring \<Rightarrow> 'l controller \<Rightarrow> 'l list" where
  "listeners_of ev s = (case map_of (onServerEventMap s) ev of None \<Rightarrow> [] | Some ls \<Rightarrow> ls)"

text \<open>An element whose name is empty is neither delivered nor forgotten.\<close>

fun notifyListeners :: "'l controller \<Rightarrow> client_error + 'l controller" where
  "notifyListeners s =
     (case open_elements s of
        [] \<Rightarrow> Inl NULL_POINTER
      | e # es \<Rightarrow>
          if el_name e = [] then Inr s
          else Inr (s\<lparr>open_elements := [],
                 delivered := delivered s @ map (\<lambda>l. (l, e)) (listeners_of (el_name e) s)\<rparr>))"

definition startElement ::
    "wstring \<Rightarrow> (wstring \<times> wstring) list \<Rightarrow> 'l controller \<Rightarrow> 'l controller" where
  "startElement n as s =
     s\<lparr>open_elements :=
       (case open_elements s of
          [] \<Rightarrow> [Element n as [] []]
        | e # es \<Rightarrow>
            if el_name e \<noteq> n then Element n as [] [] # e # es
            else Element n (el_attributes e @ as) (el_data e) (el_children e) # es)\<rparr>"

definition endElement :: "wstring \<Rightarrow> 'l controller \<Rightarrow> client_error + 'l controller" where
  "endElement n s =
     (case open_elements s of
        [] \<Rightarrow> Inl NULL_POINTER
      | [e] \<Rightarrow> notifyListeners s
      | e # p # es \<Rightarrow>
          if el_name e = n then Inr (s\<lparr>open_elements := addChildElement e p # es\<rparr>) else Inr s)"

definition charData :: "u8 list \<Rightarrow> 'l controller \<Rightarrow> client_error + 'l controller" where
  "charData d s =
     (case open_elements s of
        [] \<Rightarrow> Inl NULL_POINTER
      | e # es \<Rightarrow> Inr (s\<lparr>open_elements := setData d e # es\<rparr>))"

fun sax_step :: "sax_event \<Rightarrow> 'l controller \<Rightarrow> client_error + 'l controller" where
  "sax_step (StartElement n as) s = Inr (startElement n as s)"
| "sax_step (EndElement n) s = endElement n s"
| "sax_step (CharData d) s = charData d s"

fun parse_events :: "sax_event list \<Rightarrow> 'l controller \<Rightarrow> client_error + 'l controller" where
  "parse_events [] s = Inr s"
| "parse_events (ev # evs) s = and_then (sax_step ev s) (parse_events evs)"


subsection \<open>What arrives\<close>

text \<open>The events of a document: data before the children.\<close>

fun sax_events :: "element \<Rightarrow> sax_event list" where
  "sax_events (Element n as d ch) =
     StartElement n as # (if d = [] then [] else [CharData d]) @ concat (map sax_events ch) @ [EndElement n]"

text \<open>No element has a child of its own name.\<close>

fun proper :: "element \<Rightarrow> bool" where
  "proper (Element n as d ch) \<longleftrightarrow> (\<forall>c \<in> set ch. el_name c \<noteq> n \<and> proper c)"

lemma parse_events_append:
  "parse_events (xs @ ys) s = and_then (parse_events xs s) (parse_events ys)"
proof (induction xs arbitrary: s)
  case (Cons x xs)
  then show ?case by (cases "sax_step x s") simp_all
qed simp

lemma parse_children:
  fixes s :: "'l controller"
  assumes "\<And>c (s :: 'l controller) f fs. c \<in> set ch \<Longrightarrow> open_elements s = f # fs \<Longrightarrow> el_name f = n \<Longrightarrow>
      parse_events (sax_events c) s = Inr (s\<lparr>open_elements := addChildElement c f # fs\<rparr>)"
  shows "open_elements s = Element n as d xs # fs \<Longrightarrow>
    parse_events (concat (map sax_events ch)) s = Inr (s\<lparr>open_elements := Element n as d (xs @ ch) # fs\<rparr>)"
  using assms
proof (induction ch arbitrary: s xs)
  case (Cons c ch)
  let ?s1 = "s\<lparr>open_elements := Element n as d (xs @ [c]) # fs\<rparr>"
  have "parse_events (sax_events c) s = Inr ?s1"
    using Cons.prems(2) [of c s "Element n as d xs" fs] Cons.prems(1) by (simp add: addChildElement_def)
  moreover have "parse_events (concat (map sax_events ch)) ?s1 =
      Inr (?s1\<lparr>open_elements := Element n as d ((xs @ [c]) @ ch) # fs\<rparr>)"
    by (rule Cons.IH) (use Cons.prems(2) in auto)
  ultimately show ?case by (simp add: parse_events_append)
qed simp

lemma parse_body:
  fixes s :: "'l controller"
  assumes "\<And>c (s :: 'l controller) f fs. c \<in> set ch \<Longrightarrow> open_elements s = f # fs \<Longrightarrow> el_name f = n \<Longrightarrow>
      parse_events (sax_events c) s = Inr (s\<lparr>open_elements := addChildElement c f # fs\<rparr>)"
    and "open_elements s = Element n as [] [] # fs"
  shows "parse_events ((if d = [] then [] else [CharData d]) @ concat (map sax_events ch)) s =
    Inr (s\<lparr>open_elements := Element n as d ch # fs\<rparr>)"
proof -
  let ?s1 = "s\<lparr>open_elements := Element n as d [] # fs\<rparr>"
  have "parse_events (if d = [] then [] else [CharData d]) s = Inr ?s1"
    using assms(2) by (cases s) (simp add: charData_def setData_def)
  moreover have "parse_events (concat (map sax_events ch)) ?s1 =
      Inr (?s1\<lparr>open_elements := Element n as d ([] @ ch) # fs\<rparr>)"
    by (rule parse_children [OF assms(1)]) simp_all
  ultimately show ?thesis by (simp only: parse_events_append and_then.simps) simp
qed

lemma parse_closed:
  assumes "parse_events b (startElement n as s) = Inr s2"
  shows "parse_events (StartElement n as # b @ [EndElement n]) s = endElement n s2"
proof -
  have "parse_events (b @ [EndElement n]) (startElement n as s) = parse_events [EndElement n] s2"
    by (simp only: parse_events_append [of b "[EndElement n]"] assms and_then.simps)
  then show ?thesis by (cases "endElement n s2") simp_all
qed

lemma parse_child:
  "proper t \<Longrightarrow> open_elements s = f # fs \<Longrightarrow> el_name f \<noteq> el_name t \<Longrightarrow>
     parse_events (sax_events t) s = Inr (s\<lparr>open_elements := addChildElement t f # fs\<rparr>)"
proof (induction t arbitrary: s f fs)
  case (Element n as d ch)
  let ?s1 = "s\<lparr>open_elements := Element n as [] [] # f # fs\<rparr>"
  have start: "sax_step (StartElement n as) s = Inr ?s1"
    using Element.prems by (simp add: startElement_def)
  have body: "parse_events ((if d = [] then [] else [CharData d]) @ concat (map sax_events ch)) ?s1 =
      Inr (?s1\<lparr>open_elements := Element n as d ch # f # fs\<rparr>)"
  proof (rule parse_body)
    fix c and s' :: "'a controller" and f' fs'
    assume c: "c \<in> set ch" and o: "open_elements s' = f' # fs'" and n: "el_name f' = n"
    have "proper c" and "el_name f' \<noteq> el_name c" using Element.prems(1) c n by auto
    then show "parse_events (sax_events c) s' = Inr (s'\<lparr>open_elements := addChildElement c f' # fs'\<rparr>)"
      using Element.IH [OF c] o by blast
  qed simp
  let ?b = "(if d = [] then [] else [CharData d]) @ concat (map sax_events ch)"
  have "sax_events (Element n as d ch) = StartElement n as # ?b @ [EndElement n]" by simp
  then have "parse_events (sax_events (Element n as d ch)) s =
      endElement n (?s1\<lparr>open_elements := Element n as d ch # f # fs\<rparr>)"
    using parse_closed [of ?b n as s] start body by (simp only: sax_step.simps sum.inject)
  then show ?case using Element.prems(2) by (simp add: endElement_def)
qed

text \<open>A document arrives as it is, once, at every listener for its name.\<close>

lemma parse_document:
  assumes "proper t" and "el_name t \<noteq> []" and "open_elements s = []"
  shows "parse_events (sax_events t) s =
    Inr (s\<lparr>delivered := delivered s @ map (\<lambda>l. (l, t)) (listeners_of (el_name t) s)\<rparr>)"
proof (cases t)
  case (Element n as d ch)
  let ?s1 = "s\<lparr>open_elements := [Element n as [] []]\<rparr>"
  have start: "sax_step (StartElement n as) s = Inr ?s1"
    using assms(3) by (simp add: startElement_def)
  have body: "parse_events ((if d = [] then [] else [CharData d]) @ concat (map sax_events ch)) ?s1 =
      Inr (?s1\<lparr>open_elements := [Element n as d ch]\<rparr>)"
  proof (rule parse_body)
    fix c and s' :: "'a controller" and f' fs'
    assume c: "c \<in> set ch" and o: "open_elements s' = f' # fs'" and n: "el_name f' = n"
    have "proper c" and "el_name f' \<noteq> el_name c" using assms(1) c n by (auto simp: Element)
    then show "parse_events (sax_events c) s' = Inr (s'\<lparr>open_elements := addChildElement c f' # fs'\<rparr>)"
      using parse_child o by blast
  qed simp
  let ?b = "(if d = [] then [] else [CharData d]) @ concat (map sax_events ch)"
  have "sax_events t = StartElement n as # ?b @ [EndElement n]" by (simp add: Element)
  then have "parse_events (sax_events t) s = endElement n (?s1\<lparr>open_elements := [Element n as d ch]\<rparr>)"
    using parse_closed [of ?b n as s] start body by (simp only: sax_step.simps sum.inject)
  moreover have "s\<lparr>open_elements := []\<rparr> = s" using assms(3) by (cases s) simp
  ultimately show ?thesis using assms(2) by (simp add: Element endElement_def listeners_of_def)
qed

text \<open>An element inside one of its own name is taken for it; closing the outer one then fails.\<close>

lemma parse_nested_same:
  assumes "open_elements s = []" and "n \<noteq> []"
  shows "parse_events (sax_events (Element n as [] [Element n bs [] []])) s = Inl NULL_POINTER"
  using assms by (simp add: startElement_def endElement_def)

end
