(* ===== verification/ServerLink.thy ===== *)
theory ServerLink
  imports XmlDocument ExclusionList
begin

text \<open>
  The connection to the server (\<open>Server.cpp\<close>) and the thread that receives from it
  (\<open>ServerReceive.cpp\<close>): connecting and reconnecting, sending, and cutting what arrives into
  documents.
\<close>

subsection \<open>Connecting\<close>

text \<open>
  The network: whether sockets can be used and the address is known, and the outcome of each
  attempt to connect; \<open>wire\<close> is what was sent, \<open>told\<close> what listeners of the connection heard.
\<close>

record network =
  winsock :: bool
  resolves :: bool
  connects :: "nat \<Rightarrow> bool"

record server =
  connected :: bool
  reconnecting :: bool
  receiver_running :: bool
  wire :: "wstring list"
  told :: "bool list"

definition setConnected :: "bool \<Rightarrow> server \<Rightarrow> server" where
  "setConnected c s = s\<lparr>connected := c, told := told s @ [c]\<rparr>"

text \<open>At most 1000 attempts, a second apart.\<close>

definition connectToServer :: "network \<Rightarrow> bool \<Rightarrow> server \<Rightarrow> bool \<times> server" where
  "connectToServer net start s =
     (if winsock net \<and> resolves net \<and> (\<exists>n \<in> set [0..<1000]. connects net n)
      then (True, (setConnected True s)\<lparr>receiver_running := receiver_running s \<or> start\<rparr>)
      else (False, setConnected False s))"

definition disconnectFromServer :: "server \<Rightarrow> server" where
  "disconnectFromServer s = (if connected s then setConnected False s else s)"

definition reconnect :: "network \<Rightarrow> server \<Rightarrow> bool \<times> server" where
  "reconnect net s =
     (let s1 = disconnectFromServer (s\<lparr>reconnecting := True\<rparr>)
      in (True, (snd (connectToServer net False s1))\<lparr>connected := True\<rparr>))"

subsection \<open>Sending\<close>

text \<open>\<open>ok\<close>: the socket takes the bytes. An empty message is not sent.\<close>

definition sendMessage :: "bool \<Rightarrow> wstring \<Rightarrow> server \<Rightarrow> server" where
  "sendMessage ok message s =
     (if connected s \<and> message \<noteq> []
      then if ok then s\<lparr>wire := wire s @ [message]\<rparr> else setConnected False s
      else s)"

definition sendElement :: "bool \<Rightarrow> element \<Rightarrow> server \<Rightarrow> server" where
  "sendElement ok e s = (if connected s then sendMessage ok (toString e) s else s)"

fun xml_attributes :: "(wstring \<times> wstring) list \<Rightarrow> client_error + wstring" where
  "xml_attributes [] = Inr []"
| "xml_attributes ((n, v) # as) =
     and_then (xml_escape v) (\<lambda>w. and_then (xml_attributes as) (\<lambda>r.
       Inr (write_attribute (n, w) @ r)))"

definition sendXML ::
    "bool \<Rightarrow> wstring \<Rightarrow> (wstring \<times> wstring) list \<Rightarrow> server \<Rightarrow> client_error + server" where
  "sendXML ok n as s =
     (if connected s
      then and_then (xml_attributes as) (\<lambda>attrs.
        Inr (sendMessage ok (0x3C # n @ attrs @ [0x2F, 0x3E, 0x0D, 0x0A]) s))
      else Inr s)"

subsection \<open>Receiving\<close>

text \<open>One call of \<open>recv\<close>: some bytes (none when the server closed the connection) or an error.\<close>

datatype recv_result = Received "u8 list" | RecvFailed

text \<open>The bytes of one call: the document so far and the documents that are complete.\<close>

fun scan_bytes :: "u8 list \<Rightarrow> u8 list \<Rightarrow> u8 list \<times> u8 list list" where
  "scan_bytes doc [] = (doc, [])"
| "scan_bytes doc (b # bs) =
     (if b \<noteq> 0 then scan_bytes (doc @ [b]) bs
      else let (doc', docs) = scan_bytes [] bs in (doc', doc # docs))"

text \<open>
  \<open>ServerReceive::run\<close>: the inner loop ends with fewer than three bytes, and with it the
  document so far; an error reconnects, which leaves the client connected whatever happens.
\<close>

fun receive_run :: "network \<Rightarrow> u8 list \<Rightarrow> recv_result list \<Rightarrow> server \<Rightarrow> u8 list list \<times> server" where
  "receive_run net doc [] s = ([], s)"
| "receive_run net doc (Received bs # rs) s =
     (if 2 < length bs
      then (let (doc', docs) = scan_bytes doc bs; (docs', s') = receive_run net doc' rs s
            in (docs @ docs', s'))
      else if connected s then receive_run net [] rs s else ([], s))"
| "receive_run net doc (RecvFailed # rs) s =
     receive_run net [] rs (snd (reconnect net s))"

subsection \<open>Facts\<close>

lemma reconnect_connected:
  "fst (reconnect net s) \<and> connected (snd (reconnect net s)) \<and> reconnecting (snd (reconnect net s))"
  by (simp add: reconnect_def connectToServer_def disconnectFromServer_def setConnected_def Let_def)

lemma reconnect_told:
  "last (told (snd (reconnect net s))) = fst (connectToServer net False s)"
  by (simp add: reconnect_def connectToServer_def disconnectFromServer_def setConnected_def Let_def)

lemma xml_attributes_escaped:
  "\<forall>(n, v) \<in> set as. \<forall>p c q. v = p @ c # q \<longrightarrow> special c \<longrightarrow> length (escape_all p) < length v \<Longrightarrow>
     xml_attributes as = Inr (concat (map (\<lambda>(n, v). write_attribute (n, escape_all v)) as))"
proof (induction as rule: xml_attributes.induct)
  case (2 n v as)
  then have "xml_escape v = Inr (escape_all v)" by (subst xml_escape_all_iff) auto
  then show ?case using 2 by simp
qed simp

text \<open>The documents are the parts between zeros, the last part is still open.\<close>

lemma scan_bytes_split:
  "scan_bytes doc bs = (d, docs) \<Longrightarrow> 0 \<notin> set doc \<Longrightarrow> docs @ [d] = split_on 0 (doc @ bs) \<and> 0 \<notin> set d"
proof (induction doc bs arbitrary: d docs rule: scan_bytes.induct)
  case (1 doc)
  then show ?case by (simp add: split_on_end)
next
  case (2 doc b bs)
  show ?case
  proof (cases "b = 0")
    case True
    obtain d' docs' where s: "scan_bytes [] bs = (d', docs')" by fastforce
    then have "docs' @ [d'] = split_on 0 ([] @ bs) \<and> 0 \<notin> set d'" using 2(2) [OF _ s] True by simp
    then show ?thesis using 2(3,4) True s by (auto simp: split_on_free)
  next
    case False
    then show ?thesis using 2 by simp
  qed
qed

lemma split_on_append:
  "split_on c (xs @ ys) = butlast (split_on c xs) @ split_on c (last (split_on c xs) @ ys)"
proof (induction xs)
  case (Cons x xs)
  show ?case
  proof (cases "x = c")
    case False
    obtain f fs where f: "split_on c xs = f # fs" using split_on_ne [of c xs] by (cases "split_on c xs") auto
    show ?thesis using Cons False f by (cases "fs = []") auto
  qed (use Cons in simp)
qed simp

text \<open>
  Where every call brings more than two bytes, the documents are those of the stream, however
  it was cut into calls.
\<close>

lemma receive_run_stream:
  "\<forall>bs \<in> set cs. 2 < length bs \<Longrightarrow> 0 \<notin> set doc \<Longrightarrow>
     fst (receive_run net doc (map Received cs) s) = butlast (split_on 0 (doc @ concat cs))"
proof (induction cs arbitrary: doc)
  case Nil
  then show ?case by (simp add: split_on_end)
next
  case (Cons bs cs)
  obtain d docs where s: "scan_bytes doc bs = (d, docs)" by fastforce
  note sp = scan_bytes_split [OF s Cons.prems(2)]
  have "fst (receive_run net d (map Received cs) s) = butlast (split_on 0 (d @ concat cs))"
    by (rule Cons.IH) (use Cons.prems sp in auto)
  moreover have "split_on 0 (doc @ bs @ concat cs) = docs @ split_on 0 (d @ concat cs)"
    using split_on_append [of 0 "doc @ bs" "concat cs"] sp [THEN conjunct1, symmetric] by simp
  ultimately show ?case
    using Cons.prems(1) s by (cases "receive_run net d (map Received cs) s") (simp add: butlast_append)
qed

text \<open>A call that brings one or two bytes loses the document it interrupts.\<close>

lemma receive_run_drops:
  assumes "2 < length a" "0 \<notin> set a" "length b \<in> {1, 2}" "0 \<notin> set b" "2 < length (c @ [0])" "0 \<notin> set c"
    and "connected s"
  shows "fst (receive_run net [] [Received a, Received b, Received (c @ [0])] s) = [c]"
proof -
  have "scan_bytes x y = (x @ y, [])" if "0 \<notin> set y" for x y
    using that by (induction y arbitrary: x) auto
  moreover have "scan_bytes x (y @ [0]) = ([], [x @ y])" if "0 \<notin> set y" for x y
    using that by (induction y arbitrary: x) auto
  ultimately show ?thesis using assms by auto
qed

end
