(* ===== verification/Base64.thy ===== *)
theory Base64
  imports WideText
begin

text \<open>
  The base 64 code of the client (\<open>CaptureGlobal.cpp\<close>). Decoding takes the padding for
  characters of the alphabet: what was encoded comes back, with up to two bytes behind it
  that were never there.
\<close>

subsection \<open>The tables\<close>

definition b64_list :: "u8 list" where
  "b64_list = map of_char
     (''ABCDEFGHIJKLMNOPQRSTUVWXYZabcdefghijklmnopqrstuvwxyz0123456789'' @ ''+/'')"

definition b64_index :: "u8 \<Rightarrow> u32" where
  "b64_index c =
     (if 65 \<le> c \<and> c \<le> 90 then ucast c - 65
      else if 97 \<le> c \<and> c \<le> 122 then ucast c - 71
      else if 48 \<le> c \<and> c \<le> 57 then ucast c + 4
      else if c = 43 then 62 else if c = 47 then 63 else 100)"

subsection \<open>Decoding\<close>

text \<open>
  One byte of the result; characters are signed, and one beyond 127 indexes before the table.
  A rest of fewer than four characters is dropped.
\<close>

fun decode_groups :: "u8 list \<Rightarrow> client_error + u8 list" where
  "decode_groups (a # b # c # d # rest) =
     (if 0x80 \<le> a \<or> 0x80 \<le> b \<or> 0x80 \<le> c \<or> 0x80 \<le> d then Inl BUFFER_OVERRUN
      else and_then (decode_groups rest) (\<lambda>out. Inr
        ([ucast (push_bit 2 (b64_index a) OR drop_bit 4 (b64_index b)),
          ucast (push_bit 4 (b64_index b) OR drop_bit 2 (b64_index c)),
          ucast (push_bit 6 (b64_index c) OR b64_index d)] @ out)))"
| "decode_groups _ = Inr []"

definition b64_decode :: "u8 list \<Rightarrow> client_error + u8 list" where
  "b64_decode s = decode_groups (takeWhile (\<lambda>c. c \<noteq> 0) s)"

subsection \<open>Encoding\<close>

definition b64_block :: "u8 \<Rightarrow> u8 \<Rightarrow> u8 \<Rightarrow> u32" where
  "b64_block a b c = push_bit 16 (ucast a) OR push_bit 8 (ucast b) OR ucast c"

definition sextet :: "nat \<Rightarrow> u32 \<Rightarrow> u8" where
  "sextet k block = b64_list ! unat (drop_bit k block AND 0x3F)"

fun b64_encode :: "u8 list \<Rightarrow> u8 list" where
  "b64_encode [] = []"
| "b64_encode [a] = [sextet 18 (b64_block a 0 0), sextet 12 (b64_block a 0 0), 0x3D, 0x3D]"
| "b64_encode [a, b] =
     [sextet 18 (b64_block a b 0), sextet 12 (b64_block a b 0), sextet 6 (b64_block a b 0), 0x3D]"
| "b64_encode (a # b # c # rest) =
     [sextet 18 (b64_block a b c), sextet 12 (b64_block a b c), sextet 6 (b64_block a b c),
      sextet 0 (b64_block a b c)] @ b64_encode rest"

subsection \<open>The tables fit together\<close>

lemma b64_tables:
  "map b64_index b64_list = map of_nat [0..<64]" 
  by (simp add: b64_list_def b64_index_def upt_conv_Cons)

lemma b64_alphabet: "\<forall>c \<in> set b64_list. c < 0x80 \<and> c \<noteq> 0"
  by (simp add: b64_list_def)

lemma sextet_index:
  shows "b64_index (sextet k block) = drop_bit k block AND 0x3F" and "sextet k block < 0x80" and "sextet k block \<noteq> 0"
proof -
  let ?w = "drop_bit k block AND 0x3F"
  have "?w \<le> 0x3F" by (rule word_and_le1)
  then have lt: "unat ?w < 64" by (simp add: word_le_nat_alt)
  have len: "length b64_list = 64" by (simp add: b64_list_def)
  have "b64_index (b64_list ! unat ?w) = map b64_index b64_list ! unat ?w"
    using lt len by simp
  also have "\<dots> = of_nat (unat ?w)" unfolding b64_tables using lt by simp
  finally show "b64_index (sextet k block) = ?w" by (simp add: sextet_def)
  have "b64_list ! unat ?w \<in> set b64_list" using lt len by simp
  then show "sextet k block < 0x80" and "sextet k block \<noteq> 0"
    using b64_alphabet by (simp_all add: sextet_def)
qed

lemma byte_eqI:
  fixes v w :: u8
  assumes "\<And>n. n \<in> {0, 1, 2, 3, 4, 5, 6, 7} \<Longrightarrow> bit v n = bit w n"
  shows "v = w"
  by (rule bit_word_eqI) (rule assms, auto)

lemma byte_beyond: "8 \<le> n \<Longrightarrow> \<not> bit (w :: u8) n"
  using bit_imp_le_length [of w n] by auto

lemma block_bytes:
  shows "ucast (push_bit 2 (drop_bit 18 (b64_block a b c) AND 0x3F) OR
     drop_bit 4 (drop_bit 12 (b64_block a b c) AND 0x3F)) = a"
    and "ucast (push_bit 4 (drop_bit 12 (b64_block a b c) AND 0x3F) OR
     drop_bit 2 (drop_bit 6 (b64_block a b c) AND 0x3F)) = b"
    and "ucast (push_bit 6 (drop_bit 6 (b64_block a b c) AND 0x3F) OR
     (drop_bit 0 (b64_block a b c) AND 0x3F)) = c"
  by (rule byte_eqI, elim insertE; simp add: b64_block_def bit_simps byte_beyond)+

subsection \<open>Round trip\<close>

text \<open>
  The padding counts as 100 in the table: with one missing byte the last byte is made of two
  bits of nothing and 100, with two missing bytes the last two bytes are made up.
\<close>

definition padding_bytes :: "u8 list \<Rightarrow> u8 list" where
  "padding_bytes xs =
     (case length xs mod 3 of
        0 \<Rightarrow> []
      | Suc 0 \<Rightarrow> [ucast (push_bit 4 (drop_bit 12 (b64_block (last xs) 0 0) AND 0x3F) OR drop_bit 2 (100 :: u32)),
                ucast (push_bit 6 (100 :: u32) OR 100)]
      | _ \<Rightarrow> [ucast (push_bit 6 (drop_bit 6 (b64_block (last (butlast xs)) (last xs) 0) AND 0x3F) OR (100 :: u32))])"

lemma length_b64_encode: "length (b64_encode xs) = 4 * ((length xs + 2) div 3)"
proof (induction xs rule: b64_encode.induct)
  case (4 a b c rest)
  have "(length (a # b # c # rest) + 2) div 3 = (length rest + 2) div 3 + 1" by simp
  with 4 show ?case by simp
qed simp_all

lemma b64_encode_no_zero: "c \<in> set (b64_encode xs) \<Longrightarrow> c \<noteq> 0"
  by (induction xs rule: b64_encode.induct) (auto simp: sextet_index(3))

lemma b64_index_pad: "b64_index 0x3D = 100"
  by (simp add: b64_index_def)

lemma padding_bytes_drop: "padding_bytes (a # b # c # rest) = padding_bytes rest"
proof (cases rest rule: rev_cases)
  case (snoc ys y)
  show ?thesis
  proof (cases ys rule: rev_cases)
    case Nil
    then show ?thesis by (simp add: padding_bytes_def snoc)
  next
    case (snoc zs z)
    then show ?thesis using \<open>rest = ys @ [y]\<close>
      by (simp add: padding_bytes_def butlast_append mod_Suc split: nat.splits)
  qed
qed (simp add: padding_bytes_def)

lemma decode_groups_encode:
  "decode_groups (b64_encode xs) = Inr (xs @ padding_bytes xs)"
proof (induction xs rule: b64_encode.induct)
  case (2 a)
  show ?case
    using block_bytes(1) [of a 0 0] sextet_index(1,2)
    by (simp add: padding_bytes_def not_le [symmetric] b64_index_pad)
next
  case (3 a b)
  show ?case
    using block_bytes(1,2) [of a b 0] sextet_index(1,2)
    by (simp add: padding_bytes_def not_le [symmetric] b64_index_pad)
next
  case (4 a b c rest)
  then show ?case
    using block_bytes [of a b c] sextet_index(1,2)
    by (simp add: padding_bytes_drop not_le [symmetric])
qed (simp add: padding_bytes_def)

lemma length_padding_bytes: "length (padding_bytes xs) = (3 - length xs mod 3) mod 3"
proof -
  have "length xs mod 3 < 3" by simp
  then consider "length xs mod 3 = 0" | "length xs mod 3 = Suc 0" | "length xs mod 3 = Suc (Suc 0)"
    by linarith
  then have "length (case length xs mod 3 of 0 \<Rightarrow> [] | Suc 0 \<Rightarrow> [f, g] | _ \<Rightarrow> [h]) =
      (3 - length xs mod 3) mod 3" for f g h :: u8
    by cases simp_all
  then show ?thesis unfolding padding_bytes_def .
qed

lemma b64_decode_encode: "b64_decode (b64_encode xs @ 0 # rest) = Inr (xs @ padding_bytes xs)"
proof -
  have "takeWhile (\<lambda>c. c \<noteq> 0) (b64_encode xs @ 0 # rest) =
      b64_encode xs @ takeWhile (\<lambda>c. c \<noteq> 0) (0 # rest)"
    by (rule takeWhile_append2) (rule b64_encode_no_zero)
  also have "\<dots> = b64_encode xs" by simp
  finally have "takeWhile (\<lambda>c. c \<noteq> 0) (b64_encode xs @ 0 # rest) = b64_encode xs" .
  then show ?thesis by (simp only: b64_decode_def decode_groups_encode)
qed

end
