(* ===== verification/FileTransfer.thy ===== *)
theory FileTransfer
  imports ServerLink Base64 ClientTime
begin

text \<open>
  Files to and from the server: the uploader, which cuts a file into parts
  (\<open>FileUploader.cpp\<close>), and the receiver of updates (\<open>Updater.cpp\<close>).
\<close>

subsection \<open>Numbers in attributes\<close>

text \<open>\<open>lexical_cast\<close> to a 32-bit \<open>int\<close>: a sign or none, digits, nothing else, in range.\<close>

definition unsigned_text :: "wstring \<Rightarrow> nat option" where
  "unsigned_text s = (if s \<noteq> [] \<and> list_all is_digit s then Some (number_of s 0) else None)"

definition lexical_int :: "wstring \<Rightarrow> client_error + int" where
  "lexical_int s =
     (let v = (case s of
                 [] \<Rightarrow> None
               | c # cs \<Rightarrow> if c = 0x2D then map_option (\<lambda>n. - int n) (unsigned_text cs)
                          else if c = 0x2B then map_option int (unsigned_text cs)
                          else map_option int (unsigned_text s))
      in case v of
           None \<Rightarrow> Inl BAD_CAST
         | Some i \<Rightarrow> if - (2 ^ 31) \<le> i \<and> i < 2 ^ 31 then Inr i else Inl BAD_CAST)"

lemma lexical_int_decimal: "n < 2 ^ 31 \<Longrightarrow> lexical_int (decimal n) = Inr (int n)"
proof -
  assume n: "n < 2 ^ 31"
  have ne: "decimal n \<noteq> []" by (subst decimal.simps) simp
  then obtain c cs where c: "decimal n = c # cs" by (cases "decimal n") auto
  have dig: "list_all is_digit (decimal n)" using decimal_digits by (auto simp: list_all_iff)
  then have "is_digit c" by (simp add: c)
  then have "c \<noteq> 0x2D" "c \<noteq> 0x2B" by (auto simp: is_digit_def)
  moreover have "unsigned_text (decimal n) = Some n"
    using ne dig by (simp add: unsigned_text_def number_of_decimal)
  ultimately show ?thesis using n c by (simp add: lexical_int_def)
qed

text \<open>The last of the attributes with the name, as a number; 0 where there is none.\<close>

fun int_attribute :: "wstring \<Rightarrow> (wstring \<times> wstring) list \<Rightarrow> int \<Rightarrow> client_error + int" where
  "int_attribute n [] v = Inr v"
| "int_attribute n ((a, b) # as) v =
     (if a = n then and_then (lexical_int b) (int_attribute n as) else int_attribute n as v)"

subsection \<open>Parts of a file\<close>

record uploader =
  fileAccepted :: bool
  fileOpened :: bool
  busy :: bool
  fileName :: wstring
  content :: "u8 list"

definition part_element :: "wstring \<Rightarrow> nat \<Rightarrow> u8 list \<Rightarrow> element" where
  "part_element name offset chunk =
     Element (wide ''part'')
       [(wide ''name'', name), (wide ''part-start'', decimal offset), (wide ''encoding'', wide ''base64''),
        (wide ''part-end'', decimal (offset + length chunk))]
       (b64_encode chunk) []"

text \<open>The end of the file is noticed when fewer bytes come than were asked for.\<close>

definition sendFilePart :: "bool \<Rightarrow> nat \<Rightarrow> nat \<Rightarrow> uploader \<Rightarrow> server \<Rightarrow> nat \<times> server" where
  "sendFilePart ok offset amount u s =
     (if fileOpened u
      then (let chunk = take amount (drop offset (content u));
                s' = (if chunk \<noteq> [] then sendElement ok (part_element (fileName u) offset chunk) s else s)
            in (if length chunk < amount then 0 else length chunk, s'))
      else (0, s))"

function send_parts :: "bool \<Rightarrow> nat \<Rightarrow> uploader \<Rightarrow> server \<Rightarrow> server" where
  "send_parts ok offset u s =
     (case sendFilePart ok offset 8192 u s of
        (n, s') \<Rightarrow> if n > 0 then send_parts ok (offset + n) u s' else s')"
  by pat_completeness auto
termination
proof (relation "measure (\<lambda>(ok, offset, u, s). length (content u) - offset)")
  fix ok offset and u :: uploader and s n s'
  assume "(n, s') = sendFilePart ok offset 8192 u s" and "0 < n"
  then have "offset + 8192 \<le> length (content u)" and "n = 8192"
    by (auto simp: sendFilePart_def Let_def split: if_splits)
  then show "((ok, offset + n, u, s'), ok, offset, u, s)
      \<in> measure (\<lambda>(ok, offset, u, s). length (content u) - offset)" by simp
qed simp

declare send_parts.simps [simp del]

subsection \<open>Uploading\<close>

datatype server_answer = NoAnswer | Accepts | Rejects

text \<open>
  \<open>file\<close>: the content, where the size can be read and the file opened; \<open>answer\<close>: what the
  server says within five seconds. The size is printed as a 64-bit number.
\<close>

definition file_attributes :: "wstring \<Rightarrow> u8 list \<Rightarrow> (wstring \<times> wstring) list" where
  "file_attributes name bytes =
     [(wide ''name'', name), (wide ''size'', decimal (length bytes)),
      (wide ''type'', case wfind_last 0x2E name of None \<Rightarrow> name | Some i \<Rightarrow> drop (i + 1) name)]"

definition sendFile ::
    "bool \<Rightarrow> server_answer \<Rightarrow> wstring \<Rightarrow> u8 list option \<Rightarrow> uploader \<Rightarrow> server \<Rightarrow>
     client_error + (bool \<times> uploader \<times> server)" where
  "sendFile ok answer name file u s =
     (if \<not> connected s then Inr (False, u, s)
      else case file of
        None \<Rightarrow> Inr (False, u\<lparr>busy := False, fileName := name\<rparr>, s)
      | Some bytes \<Rightarrow>
          let u = u\<lparr>busy := True, fileName := name, fileOpened := True, content := bytes\<rparr>
          in and_then (sendXML ok (wide ''file'') (file_attributes name bytes) s) (\<lambda>s.
             let u = u\<lparr>fileAccepted := fileAccepted u \<or> answer = Accepts\<rparr>
             in if answer = NoAnswer \<or> \<not> fileAccepted u
                then Inr (False, u\<lparr>busy := False, fileOpened := False\<rparr>, s)
                else and_then (sendXML ok (wide ''file-finished'') (file_attributes name bytes)
                                 (send_parts ok 0 u s)) (\<lambda>s.
                     Inr (True, u\<lparr>busy := False, fileOpened := False\<rparr>, s))))"

text \<open>
  The server asks for a part again: the end is handed on as the size (as an unsigned number).
\<close>

definition onReceiveFileErrorEvent ::
    "bool \<Rightarrow> element \<Rightarrow> uploader \<Rightarrow> server \<Rightarrow> client_error + server" where
  "onReceiveFileErrorEvent ok e u s =
     and_then (int_attribute (wide ''part-start'') (el_attributes e) 0) (\<lambda>start.
     and_then (int_attribute (wide ''part-end'') (el_attributes e) 0) (\<lambda>stop_at.
       Inr (if start \<noteq> 0 \<and> stop_at \<noteq> 0
            then snd (sendFilePart ok (unat (word_of_int start :: u32)) (unat (word_of_int stop_at :: u32)) u s)
            else s)))"

subsection \<open>Updates\<close>

text \<open>\<open>fileBuffer\<close> is the size of the block, where there is one.\<close>

record updater =
  fileAllocated :: bool
  fileBuffer :: "int option"
  up_fileSize :: int
  up_fileName :: wstring

definition rename_element :: "wstring \<Rightarrow> element \<Rightarrow> element" where
  "rename_element n e = Element n (el_attributes e) (el_data e) (el_children e)"

text \<open>
  Each handler answers with a copy of the element that shares its data; both free them.
\<close>

definition copied :: "element \<Rightarrow> 'a \<Rightarrow> client_error + 'a" where
  "copied e x = (if el_data e = [] then Inr x else Inl DOUBLE_FREE)"

definition onReceiveUpdateEvent ::
    "bool \<Rightarrow> element \<Rightarrow> updater \<Rightarrow> server \<Rightarrow> client_error + (updater \<times> server)" where
  "onReceiveUpdateEvent ok e u s =
     (if \<not> fileAllocated u
      then and_then (int_attribute (wide ''file-size'') (el_attributes e) (up_fileSize u)) (\<lambda>n.
           copied e
             (u\<lparr>fileAllocated := True, fileBuffer := Some n, up_fileSize := n,
                up_fileName := foldl (\<lambda>v (a, b). if a = wide ''file-name'' then b else v) (up_fileName u)
                  (el_attributes e)\<rparr>,
              sendElement ok (rename_element (wide ''update-accept'') e) s))
      else copied e (u, sendElement ok (rename_element (wide ''update-reject'') e) s))"

text \<open>
  A part is copied to an address made of the byte at its start in the buffer; only a part of
  no bytes does not write there.
\<close>

definition onReceiveUpdatePartEvent ::
    "bool \<Rightarrow> element \<Rightarrow> updater \<Rightarrow> server \<Rightarrow> client_error + (updater \<times> server)" where
  "onReceiveUpdatePartEvent ok e u s =
     and_then (int_attribute (wide ''file-part-start'') (el_attributes e) 0) (\<lambda>start.
     and_then (int_attribute (wide ''file-part-end'') (el_attributes e) 0) (\<lambda>stop_at.
       if fileAllocated u
       then if el_data e = [] then Inl NULL_POINTER
            else and_then (b64_decode (el_data e)) (\<lambda>d.
                 if stop_at - start \<noteq> 0 then Inl WILD_WRITE else copied e (u, s))
       else copied e (u, sendElement ok (rename_element (wide ''update-error'') e) s)))"

definition onReceiveUpdateFinishedEvent ::
    "bool \<Rightarrow> bool \<Rightarrow> element \<Rightarrow> updater \<Rightarrow> server \<Rightarrow> client_error + (updater \<times> server)" where
  "onReceiveUpdateFinishedEvent ok created e u s =
     (if \<not> created then copied e (u, sendElement ok (rename_element (wide ''update-error'') e) s)
      else if fileBuffer u = None then Inl DOUBLE_FREE
      else copied e (u\<lparr>fileAllocated := False, fileBuffer := None\<rparr>,
                     sendElement ok (rename_element (wide ''update-ok'') e) s))"


subsection \<open>The parts make up the file\<close>

text \<open>The file from an offset on, in pieces of 8192 bytes, each with its offset.\<close>

function parts_from :: "nat \<Rightarrow> u8 list \<Rightarrow> (nat \<times> u8 list) list" where
  "parts_from offset xs =
     (if xs = [] then [] else (offset, take 8192 xs) # parts_from (offset + length (take 8192 xs)) (drop 8192 xs))"
  by pat_completeness auto
termination by (relation "measure (\<lambda>(offset, xs). length xs)") auto

declare parts_from.simps [simp del]

lemma parts_from_Nil [simp]: "parts_from offset [] = []"
  by (simp add: parts_from.simps)

lemma parts_from_content: "concat (map snd (parts_from offset xs)) = xs"
proof (induction offset xs rule: parts_from.induct)
  case (1 offset xs)
  then show ?case by (cases "xs = []") (simp_all add: parts_from.simps [of offset xs])
qed

lemma parts_from_bounds:
  "(i, c) \<in> set (parts_from offset xs) \<Longrightarrow>
     offset \<le> i \<and> 0 < length c \<and> length c \<le> 8192 \<and> take (length c) (drop (i - offset) xs) = c"
proof (induction offset xs rule: parts_from.induct)
  case (1 offset xs)
  show ?case
  proof (cases "xs = [] \<or> (i, c) = (offset, take 8192 xs)")
    case False
    then have "(i, c) \<in> set (parts_from (offset + length (take 8192 xs)) (drop 8192 xs))"
      using 1(2) by (auto simp: parts_from.simps [of offset xs])
    moreover from this have "8192 < length xs"
      by (rule_tac ccontr) (simp add: parts_from.simps)
    ultimately show ?thesis using 1(1) False by (auto simp: add.commute)
  qed (use 1(2) in \<open>auto simp: parts_from.simps [of offset xs] min_def split: if_splits\<close>)
qed

text \<open>An upload that goes through puts the parts on the wire, in order and nothing else.\<close>

lemma sendElement_ok: "connected s \<Longrightarrow> sendElement True e s = s\<lparr>wire := wire s @ [toString e]\<rparr>"
proof -
  have "toString e \<noteq> []" by (simp add: toString_def)
  then show "connected s \<Longrightarrow> sendElement True e s = s\<lparr>wire := wire s @ [toString e]\<rparr>"
    by (simp add: sendElement_def sendMessage_def)
qed

lemma send_parts_wire:
  fixes u :: uploader and s :: server
  assumes "connected s" and "fileOpened u" and "offset \<le> length (content u)"
  shows "send_parts True offset u s =
    s\<lparr>wire := wire s @ map (\<lambda>(at_offset, c). toString (part_element (fileName u) at_offset c))
        (parts_from offset (drop offset (content u)))\<rparr>"
  using assms
proof (induction "length (content u) - offset" arbitrary: offset s rule: less_induct)
  case less
  let ?xs = "drop offset (content u)"
  let ?c = "take 8192 ?xs"
  show ?case
  proof (cases "8192 \<le> length ?xs")
    case True
    then have ne: "?xs \<noteq> []" and c: "length ?c = 8192" by auto
    let ?s1 = "s\<lparr>wire := wire s @ [toString (part_element (fileName u) offset ?c)]\<rparr>"
    have p: "sendFilePart True offset 8192 u s = (8192, ?s1)"
      using less.prems c ne by (auto simp: sendFilePart_def Let_def sendElement_ok)
    have "send_parts True (offset + 8192) u ?s1 = ?s1\<lparr>wire := wire ?s1 @
        map (\<lambda>(at_offset, c). toString (part_element (fileName u) at_offset c))
          (parts_from (offset + 8192) (drop (offset + 8192) (content u)))\<rparr>"
      by (rule less.hyps) (use True less.prems in auto)
    then show ?thesis using c ne
      by (simp add: send_parts.simps [of True offset] p parts_from.simps [of offset ?xs] add.commute)
  next
    case False
    then have c: "?c = ?xs" "length ?xs < 8192" by simp_all
    have "parts_from offset ?xs = (if ?xs = [] then [] else [(offset, ?xs)])"
      using c by (simp add: parts_from.simps)
    then show ?thesis using less.prems c
      by (simp add: send_parts.simps [of True offset] sendFilePart_def Let_def sendElement_ok)
  qed
qed


subsection \<open>A whole upload\<close>

definition xml_document :: "wstring \<Rightarrow> wstring \<Rightarrow> wstring" where
  "xml_document n attrs = 0x3C # n @ attrs @ [0x2F, 0x3E, 0x0D, 0x0A]"

lemma xml_attributes_total: "\<exists>w. xml_attributes as = Inr w"
  by (induction as rule: xml_attributes.induct) (auto simp: xml_escape_first)

lemma sendXML_ok:
  "connected s \<Longrightarrow> xml_attributes as = Inr w \<Longrightarrow>
     sendXML True n as s = Inr (s\<lparr>wire := wire s @ [xml_document n w]\<rparr>)"
  by (simp add: sendXML_def sendMessage_def xml_document_def)

lemma sendFile_accepted:
  assumes s: "connected s" and a: "answer \<noteq> NoAnswer" "fileAccepted u \<or> answer = Accepts"
  shows "\<exists>w u'. xml_attributes (file_attributes name bytes) = Inr w \<and>
    sendFile True answer name (Some bytes) u s = Inr (True, u', s\<lparr>wire := wire s @
      [xml_document (wide ''file'') w] @
      map (\<lambda>(offset, c). toString (part_element name offset c)) (parts_from 0 bytes) @
      [xml_document (wide ''file-finished'') w]\<rparr>) \<and>
    fileAccepted u' \<and> \<not> fileOpened u'"
proof -
  obtain w where w: "xml_attributes (file_attributes name bytes) = Inr w"
    using xml_attributes_total by blast
  let ?u = "u\<lparr>busy := True, fileName := name, fileOpened := True, content := bytes, fileAccepted := True\<rparr>"
  let ?s1 = "s\<lparr>wire := wire s @ [xml_document (wide ''file'') w]\<rparr>"
  have "send_parts True 0 ?u ?s1 = ?s1\<lparr>wire := wire ?s1 @
      map (\<lambda>(offset, c). toString (part_element name offset c)) (parts_from 0 bytes)\<rparr>"
    using send_parts_wire [of ?s1 ?u 0] s by simp
  moreover have "sendXML True (wide ''file'') (file_attributes name bytes) s = Inr ?s1"
    using sendXML_ok [OF s w] .
  moreover have "sendXML True (wide ''file-finished'') (file_attributes name bytes) s' =
      Inr (s'\<lparr>wire := wire s' @ [xml_document (wide ''file-finished'') w]\<rparr>)" if "connected s'" for s'
    using sendXML_ok [OF that w] .
  ultimately show ?thesis using s a w
    by (simp add: sendFile_def Let_def)
qed

text \<open>The acceptance of one file is never forgotten: later refusals are ignored.\<close>

lemma sendFile_stale_accept:
  assumes "fileAccepted u"
  shows "sendFile ok Rejects name file u s = sendFile ok Accepts name file u s"
  using assms by (cases u; cases "file") (simp_all add: sendFile_def Let_def)

text \<open>A part that is asked for again comes with everything that fits the number of its end.\<close>

lemma resend_overlaps:
  assumes "connected s" and "fileOpened u" and "0 < start" "start < stop_at" "stop_at < 2 ^ 31"
    and "start + stop_at \<le> length (content u)"
    and "e = Element n [(wide ''part-start'', decimal start), (wide ''part-end'', decimal stop_at)] d ch"
  shows "onReceiveFileErrorEvent True e u s = Inr (s\<lparr>wire := wire s @
    [toString (part_element (fileName u) start (take stop_at (drop start (content u))))]\<rparr>)"
proof -
  have ne: "wide ''part-start'' \<noteq> wide ''part-end''" by (simp add: wide_def)
  have i: "lexical_int (decimal start) = Inr (int start)" "lexical_int (decimal stop_at) = Inr (int stop_at)"
    using assms(4,5) by (simp_all add: lexical_int_decimal)
  have "unat (word_of_int (int start) :: u32) = start" "unat (word_of_int (int stop_at) :: u32) = stop_at"
    using assms(4,5) by (simp_all add: unat_of_nat_small32)
  then show ?thesis
    using assms(1-4,6) i ne
    by (simp add: onReceiveFileErrorEvent_def assms(7) sendFilePart_def Let_def sendElement_ok)
qed

text \<open>No part of an update can be received.\<close>

lemma update_part_fails:
  assumes "el_data e \<noteq> []"
  shows "\<exists>err. onReceiveUpdatePartEvent ok e u s = Inl err"
proof (cases "onReceiveUpdatePartEvent ok e u s")
  case (Inr r)
  then show ?thesis using assms
    by (auto simp: onReceiveUpdatePartEvent_def and_then_Inr_iff copied_def split: if_split_asm)
qed simp

end
