(* ===== verification/UrlCodec.thy ===== *)
theory UrlCodec
  imports WideText
begin

text \<open>
  The coding of URLs on the wire (\<open>Url::encode\<close> and \<open>Url::decode\<close> in \<open>Url.cpp\<close>): letters,
  digits and a few marks stay, a space becomes a plus, everything else becomes its UTF-8
  bytes in hexadecimal. Decoding undoes all of it except the plus.
\<close>

subsection \<open>Encoding\<close>

definition hex_digit :: "nat \<Rightarrow> wchar" where
  "hex_digit d = of_nat (if d < 10 then 48 + d else 87 + d)"

text \<open>The table of 256 strings.\<close>

definition hexenc :: "wchar \<Rightarrow> wstring" where
  "hexenc b = [0x25, hex_digit (unat b div 16), hex_digit (unat b mod 16)]"

definition unreserved :: "wchar \<Rightarrow> bool" where
  "unreserved c \<longleftrightarrow> 0x41 \<le> c \<and> c \<le> 0x5A \<or> 0x61 \<le> c \<and> c \<le> 0x7A \<or> 0x30 \<le> c \<and> c \<le> 0x39 \<or>
     c \<in> set (wide ''-_.!~*()'') \<or> c = 0x27"

definition encode_char :: "wchar \<Rightarrow> wstring" where
  "encode_char c =
     (if c = 0x20 then [0x2B]
      else if unreserved c then [c]
      else if c \<le> 0x7F then hexenc c
      else if c \<le> 0x7FF then hexenc (0xC0 OR drop_bit 6 c) @ hexenc (0x80 OR (c AND 0x3F))
      else hexenc (0xE0 OR drop_bit 12 c) @ hexenc (0x80 OR (drop_bit 6 c AND 0x3F)) @
           hexenc (0x80 OR (c AND 0x3F)))"

definition url_encode :: "wstring \<Rightarrow> wstring" where
  "url_encode s = concat (map encode_char s)"

subsection \<open>Decoding\<close>

text \<open>\<open>wcstol\<close> of \<open>0x\<close> and two characters stops at the first that is not a digit.\<close>

definition hex_value :: "wchar \<Rightarrow> nat option" where
  "hex_value c =
     (if 0x30 \<le> c \<and> c \<le> 0x39 then Some (unat c - 48)
      else if 0x41 \<le> c \<and> c \<le> 0x46 then Some (unat c - 55)
      else if 0x61 \<le> c \<and> c \<le> 0x66 then Some (unat c - 87) else None)"

definition hex_pair :: "wchar \<Rightarrow> wchar \<Rightarrow> wchar" where
  "hex_pair a b =
     (case hex_value a of
        None \<Rightarrow> 0
      | Some x \<Rightarrow> (case hex_value b of None \<Rightarrow> of_nat x | Some y \<Rightarrow> of_nat (16 * x + y)))"

text \<open>
  \<open>con\<close> is the character that is being put together, \<open>left\<close> how many bytes of it are still
  to come; both live across the loop.
\<close>

fun decode_loop :: "wchar \<Rightarrow> int \<Rightarrow> wstring \<Rightarrow> wstring" where
  "decode_loop con left (c # a # b # rest) =
     (if c \<noteq> 0x25 then c # decode_loop con left (a # b # rest)
      else
        let t = hex_pair a b
        in if t \<le> 0x7F then t # decode_loop con left rest
           else if t \<le> 0xBF then
             (let con' = con OR (if left = 2 then push_bit 6 (t AND 0x3F) else t AND 0x3F)
              in if left - 1 = 0 then con' # decode_loop con' (left - 1) rest
                 else decode_loop con' (left - 1) rest)
           else if t \<le> 0xDF then decode_loop (push_bit 6 (t AND 0x1F)) 1 rest
           else if t \<le> 0xEF then decode_loop (push_bit 12 (t AND 0xF)) 2 rest
           else decode_loop con left rest)"
| "decode_loop con left s = s"

definition url_decode :: "wstring \<Rightarrow> wstring" where
  "url_decode s = decode_loop 0 0 s"

subsection \<open>Hexadecimal digits\<close>

lemma hex_value_digit:
  assumes "d < 16"
  shows "hex_value (hex_digit d) = Some d"
proof -
  have "unat (of_nat (48 + d) :: wchar) = 48 + d" "unat (of_nat (87 + d) :: wchar) = 87 + d"
    using assms by (auto intro!: unat_of_nat_small16 simp del: of_nat_add)
  then show ?thesis using assms
    by (simp add: hex_value_def hex_digit_def word_le_nat_alt del: of_nat_add)
qed

lemma hex_pair_hexenc:
  assumes "b \<le> 0xFF"
  shows "hexenc b = [0x25, hex_digit (unat b div 16), hex_digit (unat b mod 16)]"
    and "hex_pair (hex_digit (unat b div 16)) (hex_digit (unat b mod 16)) = b"
proof -
  have "unat b div 16 < 16" using assms by (simp add: word_le_nat_alt)
  then show "hex_pair (hex_digit (unat b div 16)) (hex_digit (unat b mod 16)) = b"
    by (simp add: hex_pair_def hex_value_digit del: of_nat_add of_nat_mult)
qed (simp add: hexenc_def)

subsection \<open>The bytes of a character\<close>

lemma mask_fields:
  fixes x :: wchar
  shows "x AND 0x3F = take_bit 6 x" and "x AND 0x1F = take_bit 5 x" and "x AND 0xF = take_bit 4 x"
proof -
  have "(0x3F :: wchar) = mask 6" "(0x1F :: wchar) = mask 5" "(0xF :: wchar) = mask 4"
    by (simp_all add: mask_eq_exp_minus_1)
  then show "x AND 0x3F = take_bit 6 x" and "x AND 0x1F = take_bit 5 x" and "x AND 0xF = take_bit 4 x"
    by (simp_all add: take_bit_eq_mask)
qed


lemma below_bits:
  fixes c :: wchar
  assumes "unat c < 2 ^ k"
  shows "take_bit k c = c" and "bit c n \<Longrightarrow> n < k"
proof -
  have "unat (take_bit k c) = unat c"
    using assms by (simp add: unsigned_take_bit_eq take_bit_nat_eq_self)
  then show t: "take_bit k c = c" by (simp add: word_unat_eq_iff)
  show "bit c n \<Longrightarrow> n < k" using t bit_take_bit_iff [of k c n] by simp
qed

text \<open>A byte made of a lead and some bits stays within the range of its lead.\<close>

lemma lead_plus:
  fixes l y :: wchar
  assumes y: "unat y < 2 ^ k" and l: "take_bit k l = 0" "unat l + 2 ^ k \<le> 2 ^ 16"
  shows "unat (l OR y) = unat l + unat y" and "take_bit k (l OR y) = y"
proof -
  have "\<not> bit l n \<or> \<not> bit y n" for n
    using below_bits(2) [OF y, of n] bit_take_bit_iff [of k l n] l(1) by auto
  then have "l + y = l OR y" by (rule disjunctive_add)
  moreover have "unat l + unat y < 2 ^ LENGTH(16)" using y l(2) by simp
  then have "unat (l + y) = unat l + unat y" using unat_add_lem [of l y] by simp
  ultimately show "unat (l OR y) = unat l + unat y" by simp
  show "take_bit k (l OR y) = y" by (simp add: l(1) below_bits(1) [OF y])
qed

lemma unat_take_bit_less: "unat (take_bit k (c :: wchar)) < 2 ^ k"
  by (simp add: unsigned_take_bit_eq)

lemma leads:
  "take_bit 5 (0xC0 :: wchar) = 0" "take_bit 6 (0x80 :: wchar) = 0" "take_bit 4 (0xE0 :: wchar) = 0"
  by simp_all

subsection \<open>Round trip\<close>

lemma decode_loop_hexenc:
  assumes "b \<le> 0xFF"
  shows "decode_loop con left (hexenc b @ rest) =
    (if b \<le> 0x7F then b # decode_loop con left rest
     else if b \<le> 0xBF then
       (let con' = con OR (if left = 2 then push_bit 6 (b AND 0x3F) else b AND 0x3F)
        in if left - 1 = 0 then con' # decode_loop con' (left - 1) rest
           else decode_loop con' (left - 1) rest)
     else if b \<le> 0xDF then decode_loop (push_bit 6 (b AND 0x1F)) 1 rest
     else if b \<le> 0xEF then decode_loop (push_bit 12 (b AND 0xF)) 2 rest
     else decode_loop con left rest)"
  by (simp add: hex_pair_hexenc [OF assms] Let_def)

text \<open>A byte that continues a character.\<close>

lemma decode_loop_continue:
  "decode_loop con left (hexenc (0x80 OR take_bit 6 c) @ rest) =
     (let con' = con OR (if left = 2 then push_bit 6 (take_bit 6 c) else take_bit 6 c)
      in if left - 1 = 0 then con' # decode_loop con' (left - 1) rest
         else decode_loop con' (left - 1) rest)"
proof -
  let ?b = "0x80 OR take_bit 6 c"
  have u: "unat ?b = 0x80 + unat (take_bit 6 c)" and t: "?b AND 0x3F = take_bit 6 c"
    using lead_plus [OF unat_take_bit_less, of 6 "0x80" c] leads by (simp_all only: mask_fields) simp_all
  have "unat (take_bit 6 c) < 64" using unat_take_bit_less [of 6 c] by simp
  with u have "?b \<le> 0xFF" "\<not> ?b \<le> 0x7F" "?b \<le> 0xBF" unfolding word_le_nat_alt by simp_all
  with decode_loop_hexenc [of ?b con left rest] t show ?thesis by simp
qed


lemma put_together:
  fixes c :: wchar
  shows "push_bit 6 (drop_bit 6 c) OR take_bit 6 c = c"
    and "(push_bit 12 (drop_bit 12 c) OR push_bit 6 (take_bit 6 (drop_bit 6 c))) OR take_bit 6 c = c"
proof -
  show "push_bit 6 (drop_bit 6 c) OR take_bit 6 c = c"
    by (rule bit_word_eqI) (auto simp: bit_simps)
  show "(push_bit 12 (drop_bit 12 c) OR push_bit 6 (take_bit 6 (drop_bit 6 c))) OR take_bit 6 c = c"
  proof (rule bit_word_eqI)
    fix n
    show "bit ((push_bit 12 (drop_bit 12 c) OR push_bit 6 (take_bit 6 (drop_bit 6 c))) OR take_bit 6 c) n = bit c n"
      if "n < LENGTH(16)"
      using that by (cases "n < 12") (auto simp: bit_simps)
  qed
qed

lemma decode_loop_literal: "c \<noteq> 0x25 \<Longrightarrow> decode_loop con left (c # s) = c # decode_loop con left s"
  by (cases s rule: remdups_adj.cases) simp_all

lemma decode_loop_char:
  "\<exists>con' left'. \<forall>rest. decode_loop con left (encode_char c @ rest) =
     (if c = 0x20 then 0x2B else c) # decode_loop con' left' rest"
proof -
  consider "c = 0x20 \<or> unreserved c" | "c \<noteq> 0x20" "\<not> unreserved c" "c \<le> 0x7F"
    | "\<not> c \<le> 0x7F" "c \<le> 0x7FF" | "\<not> c \<le> 0x7FF" by blast
  then show ?thesis
  proof cases
    case 1
    have "c \<noteq> 0x25" using 1 by (auto simp: unreserved_def wide_def)
    with 1 decode_loop_literal show ?thesis
      by (intro exI [of _ con] exI [of _ left]) (auto simp: encode_char_def)
  next
    case 2
    then have "encode_char c = hexenc c" "c \<le> 0xFF" by (auto simp: encode_char_def word_le_nat_alt)
    with 2 show ?thesis
      by (intro exI [of _ con] exI [of _ left]) (simp add: decode_loop_hexenc)
  next
    case 3
    have nu: "c \<noteq> 0x20" "\<not> unreserved c" using 3(1) by (auto simp: unreserved_def wide_def word_le_nat_alt)
    have c: "unat c < 2048" using 3(2) by (simp add: word_le_nat_alt)
    have "unat c div 2 ^ 6 < 2 ^ 5" by (rule less_mult_imp_div_less) (use c in simp)
    then have y: "unat (drop_bit 6 c) < 2 ^ 5" by (simp only: unat_drop_bit_eq [of 6 c] drop_bit_eq_div [of 6 "unat c"])
    let ?b = "0xC0 OR drop_bit 6 c"
    have u: "unat ?b = 0xC0 + unat (drop_bit 6 c)" and t: "?b AND 0x1F = drop_bit 6 c"
      using lead_plus [OF y, of "0xC0"] leads by (simp_all only: mask_fields) simp_all
    have b: "?b \<le> 0xFF" "\<not> ?b \<le> 0x7F" "\<not> ?b \<le> 0xBF" "?b \<le> 0xDF"
      using y unfolding word_le_nat_alt u by simp_all
    have e: "encode_char c = hexenc ?b @ hexenc (0x80 OR take_bit 6 c)"
      using 3 nu by (simp add: encode_char_def mask_fields)
    show ?thesis
      unfolding e append_assoc decode_loop_hexenc [OF b(1)] using b(2-4) nu(1) t
      by (simp add: decode_loop_continue Let_def put_together) blast
  next
    case 4
    have nu: "c \<noteq> 0x20" "\<not> unreserved c" "\<not> c \<le> 0x7F"
      using 4 by (auto simp: unreserved_def wide_def word_le_nat_alt)
    have c: "unat c < 65536" by simp
    have "unat c div 2 ^ 12 < 2 ^ 4" by (rule less_mult_imp_div_less) (use c in simp)
    then have y: "unat (drop_bit 12 c) < 2 ^ 4" by (simp only: unat_drop_bit_eq [of 12 c] drop_bit_eq_div [of 12 "unat c"])
    let ?b = "0xE0 OR drop_bit 12 c"
    have u: "unat ?b = 0xE0 + unat (drop_bit 12 c)" and t: "?b AND 0xF = drop_bit 12 c"
      using lead_plus [OF y, of "0xE0"] leads by (simp_all only: mask_fields) simp_all
    have b: "?b \<le> 0xFF" "\<not> ?b \<le> 0x7F" "\<not> ?b \<le> 0xBF" "\<not> ?b \<le> 0xDF" "?b \<le> 0xEF"
      using y unfolding word_le_nat_alt u by simp_all
    have e: "encode_char c = hexenc ?b @ hexenc (0x80 OR take_bit 6 (drop_bit 6 c)) @
        hexenc (0x80 OR take_bit 6 c)"
      using 4 nu by (simp add: encode_char_def mask_fields)
    show ?thesis
      unfolding e append_assoc decode_loop_hexenc [OF b(1)] using b(2-5) nu(1) t
      by (simp add: decode_loop_continue Let_def put_together) blast
  qed
qed

lemma url_decode_encode:
  "url_decode (url_encode s) = map (\<lambda>c. if c = 0x20 then 0x2B else c) s"
proof -
  have "decode_loop con left (url_encode s) = map (\<lambda>c. if c = 0x20 then 0x2B else c) s" for con left
  proof (induction s arbitrary: con left)
    case (Cons c s)
    obtain con' left' where "decode_loop con left (encode_char c @ url_encode s) =
        (if c = 0x20 then 0x2B else c) # decode_loop con' left' (url_encode s)"
      using decode_loop_char by blast
    then show ?case using Cons by (simp add: url_encode_def)
  qed (simp add: url_encode_def)
  then show ?thesis by (simp add: url_decode_def)
qed

end
