(* ===== verification/Visiting.thy ===== *)
theory Visiting
  imports FileTransfer UrlCodec
begin

text \<open>
  Visits: the URLs and events the server asks for (\<open>Url.cpp\<close>, \<open>VisitEvent.h\<close>), the plug-ins
  that open them, and the visitor with its queue and its thread (\<open>Visitor.cpp\<close>).
\<close>

subsection \<open>Codes\<close>

abbreviation "CAPTURE_VISITATION_OK \<equiv> 0 :: u32"
abbreviation "CAPTURE_VISITATION_PRESTART \<equiv> 0x10000101 :: u32"
abbreviation "CAPTURE_VISITATION_START \<equiv> 0x10000102 :: u32"
abbreviation "CAPTURE_VISITATION_FINISH \<equiv> 0x10000103 :: u32"
abbreviation "CAPTURE_VISITATION_POSTFINISH \<equiv> 0x10000104 :: u32"
abbreviation "CAPTURE_VISITATION_MULTIPLE_ERRORS \<equiv> 0x10000113 :: u32"
abbreviation "CAPTURE_VISITATION_EXCEPTION \<equiv> 0x10000200 :: u32"

subsection \<open>URLs and visit events\<close>

record url =
  url_text :: wstring
  url_program :: wstring
  visitTime :: int
  url_processId :: u32
  visited :: bool
  majorErrorCode :: u32
  minorErrorCode :: u32

definition new_url :: "wstring \<Rightarrow> wstring \<Rightarrow> int \<Rightarrow> url" where
  "new_url u app vTime =
     \<lparr>url_text = u, url_program = app, visitTime = vTime, url_processId = 0, visited = False,
      majorErrorCode = 0, minorErrorCode = 0\<rparr>"

definition url_toElement :: "wstring \<Rightarrow> url \<Rightarrow> element" where
  "url_toElement now u =
     Element (wide ''item'')
       [(wide ''url'', url_encode (url_text u)), (wide ''processId'', decimal (unat (url_processId u))),
        (wide ''program'', url_program u), (wide ''major-error-code'', decimal (unat (majorErrorCode u))),
        (wide ''minor-error-code'', decimal (unat (minorErrorCode u))), (wide ''time'', now),
        (wide ''visited'', if visited u then wide ''1'' else wide ''0'')] [] []"

record visit_event =
  ve_urls :: "url list"
  ve_identifier :: wstring
  ve_program :: wstring
  ve_algorithm :: wstring
  urlGroup :: bool
  ve_errorCode :: u32

definition new_visit_event :: visit_event where
  "new_visit_event =
     \<lparr>ve_urls = [], ve_identifier = [], ve_program = [], ve_algorithm = wide ''seq'', urlGroup = False,
      ve_errorCode = CAPTURE_VISITATION_OK\<rparr>"

definition addUrl :: "url \<Rightarrow> visit_event \<Rightarrow> visit_event" where
  "addUrl u v = v\<lparr>ve_urls := ve_urls v @ [u], urlGroup := urlGroup v \<or> 1 < length (ve_urls v @ [u])\<rparr>"

definition setErrorCode :: "u32 \<Rightarrow> visit_event \<Rightarrow> visit_event" where
  "setErrorCode err v =
     v\<lparr>ve_errorCode := (if ve_errorCode v \<noteq> CAPTURE_VISITATION_OK then CAPTURE_VISITATION_MULTIPLE_ERRORS else err)\<rparr>"

definition isError :: "visit_event \<Rightarrow> bool" where
  "isError v \<longleftrightarrow> ve_errorCode v \<noteq> CAPTURE_VISITATION_OK"

definition visit_toElement :: "wstring \<Rightarrow> visit_event \<Rightarrow> element" where
  "visit_toElement now v =
     Element (wide ''visit-event'')
       [(wide ''identifier'', ve_identifier v), (wide ''program'', ve_program v), (wide ''time'', now),
        (wide ''algorithm'', ve_algorithm v)] [] (map (url_toElement now) (ve_urls v))"

subsection \<open>Plug-ins\<close>

text \<open>
  A plug-in, as the visitor sees it: it is loaded from a library, and visiting a group of
  URLs changes the event and may throw.
\<close>

record plugin =
  pl_name :: string
  getPriority :: u32
  getAlgorithm :: wstring
  supportedApplications :: "wstring list"
  visitGroup :: "visit_event \<Rightarrow> visit_event \<times> bool"

type_synonym application_map = "wstring \<rightharpoonup> plugin"

definition add_application :: "plugin \<Rightarrow> wstring \<Rightarrow> application_map \<Rightarrow> application_map" where
  "add_application p app m =
     (case m app of
        None \<Rightarrow> m(app \<mapsto> p)
      | Some q \<Rightarrow> if getPriority p > getPriority q then m(app \<mapsto> p) else m)"

definition loadClientPlugins :: "plugin list \<Rightarrow> application_map" where
  "loadClientPlugins ps =
     foldl (\<lambda>m p. foldl (\<lambda>m app. add_application p app m) m (supportedApplications p)) Map.empty ps"

subsection \<open>The visitor\<close>

text \<open>
  \<open>queue_set\<close> is the event object \<open>hQueueNotEmpty\<close>; a wait resets it. \<open>notified\<close> is what the
  observers were told.
\<close>

record visitor =
  applicationMap :: application_map
  toVisit :: "visit_event list"
  queue_set :: bool
  notified :: "(u32 \<times> visit_event) list"

definition createUrl :: "(wstring \<times> wstring) list \<Rightarrow> client_error + url" where
  "createUrl as =
     and_then (int_attribute (wide ''time'') as 0) (\<lambda>time.
       Inr (new_url
         (url_decode (foldl (\<lambda>v (a, b). if a = wide ''url'' then b else v) [] as))
         (foldl (\<lambda>v (a, b). if a = wide ''program'' then b else v) [] as) time))"

fun add_items :: "wstring \<Rightarrow> int \<Rightarrow> element list \<Rightarrow> visit_event \<Rightarrow> client_error + visit_event" where
  "add_items program time [] v = Inr v"
| "add_items program time (e # es) v =
     (if el_name e = wide ''item''
      then and_then (createUrl (el_attributes e)) (\<lambda>u.
           add_items program time es (addUrl (u\<lparr>visitTime := time, url_program := program\<rparr>) v))
      else add_items program time es v)"

definition onServerEvent :: "element \<Rightarrow> visitor \<Rightarrow> client_error + visitor" where
  "onServerEvent e s =
     and_then
       (if el_name e = wide ''visit-event''
        then and_then (lexical_int (getAttributeValue (wide ''time'') e)) (\<lambda>time.
             add_items (getAttributeValue (wide ''program'') e) time (el_children e)
               (new_visit_event\<lparr>ve_identifier := getAttributeValue (wide ''identifier'') e,
                  ve_program := getAttributeValue (wide ''program'') e\<rparr>))
        else Inr new_visit_event) (\<lambda>v.
     Inr (if ve_urls v \<noteq> [] then s\<lparr>toVisit := toVisit s @ [v], queue_set := True\<rparr> else s))"

text \<open>One visit: what the observers are told.\<close>

definition visit_notifications :: "plugin \<Rightarrow> visit_event \<Rightarrow> (u32 \<times> visit_event) list" where
  "visit_notifications p v =
     (let v1 = v\<lparr>ve_algorithm := getAlgorithm p\<rparr>;
          (v2, threw) = visitGroup p v1
      in [(CAPTURE_VISITATION_PRESTART, v1), (CAPTURE_VISITATION_START, v1)] @
         (if threw then [(CAPTURE_VISITATION_EXCEPTION, v2)] else []) @
         [(if isError v2 then ve_errorCode v2 else CAPTURE_VISITATION_FINISH, v2),
          (CAPTURE_VISITATION_POSTFINISH, v2)])"

text \<open>
  One turn of the thread: \<open>None\<close> while it waits. Taking the front of an empty queue is not
  defined.
\<close>

definition visitor_turn :: "visitor \<Rightarrow> (client_error + visitor) option" where
  "visitor_turn s =
     (if \<not> queue_set s then None
      else case toVisit s of
        [] \<Rightarrow> Some (Inl NULL_POINTER)
      | v # vs \<Rightarrow>
          Some (Inr (s\<lparr>queue_set := False, toVisit := vs,
            notified := notified s @
              (case applicationMap s (ve_program v) of
                 None \<Rightarrow> [] | Some p \<Rightarrow> visit_notifications p v)\<rparr>)))"

inductive visitor_step :: "visitor \<Rightarrow> visitor \<Rightarrow> bool" where
  server_event: "onServerEvent e s = Inr s' \<Longrightarrow> visitor_step s s'"
| thread_turn: "visitor_turn s = Some (Inr s') \<Longrightarrow> visitor_step s s'"

inductive visitor_run :: "visitor \<Rightarrow> visitor \<Rightarrow> bool" where
  visitor_refl: "visitor_run s s"
| visitor_next: "visitor_run s s' \<Longrightarrow> visitor_step s' s'' \<Longrightarrow> visitor_run s s''"


subsection \<open>The best plug-in wins\<close>

text \<open>\<open>p\<close> is a plug-in for the application with the highest priority in the list.\<close>

definition best_plugin :: "wstring \<Rightarrow> plugin list \<Rightarrow> plugin option \<Rightarrow> bool" where
  "best_plugin app ps r =
     (case r of
        None \<Rightarrow> \<forall>p \<in> set ps. app \<notin> set (supportedApplications p)
      | Some p \<Rightarrow> p \<in> set ps \<and> app \<in> set (supportedApplications p) \<and>
          (\<forall>q \<in> set ps. app \<in> set (supportedApplications q) \<longrightarrow> getPriority q \<le> getPriority p))"

lemma add_applications:
  "foldl (\<lambda>m app. add_application p app m) m apps app =
     (if app \<in> set apps
      then (case m app of
              None \<Rightarrow> Some p
            | Some q \<Rightarrow> if getPriority p > getPriority q then Some p else Some q)
      else m app)"
proof (induction apps arbitrary: m)
  case (Cons a apps)
  show ?case unfolding foldl_Cons Cons.IH
    by (auto simp: add_application_def split: option.splits)
qed simp

lemma loadClientPlugins_best: "best_plugin app ps (loadClientPlugins ps app)"
proof (induction ps rule: rev_induct)
  case Nil
  then show ?case by (simp add: best_plugin_def loadClientPlugins_def)
next
  case (snoc p ps)
  have l: "loadClientPlugins (ps @ [p]) app =
      (if app \<in> set (supportedApplications p)
       then (case loadClientPlugins ps app of
               None \<Rightarrow> Some p
             | Some q \<Rightarrow> if getPriority p > getPriority q then Some p else Some q)
       else loadClientPlugins ps app)"
    by (simp add: loadClientPlugins_def add_applications)
  show ?case
    using snoc unfolding l best_plugin_def
    by (auto split: option.splits if_splits)
qed

subsection \<open>The queue\<close>

definition visitor_inv :: "visitor \<Rightarrow> bool" where
  "visitor_inv s \<longleftrightarrow> (queue_set s \<longrightarrow> toVisit s \<noteq> [])"

text \<open>The visits nobody will start before another one arrives.\<close>

definition left_behind :: "visitor \<Rightarrow> nat" where
  "left_behind s = length (toVisit s) - (if queue_set s then 1 else 0)"

lemma visitor_turn_safe:
  "visitor_inv s \<Longrightarrow> visitor_turn s = Some r \<Longrightarrow> \<exists>s'. r = Inr s'"
  by (auto simp: visitor_turn_def visitor_inv_def split: list.splits if_split_asm)

lemma visitor_step_inv:
  assumes "visitor_inv s" and "visitor_step s s'"
  shows "visitor_inv s' \<and> left_behind s \<le> left_behind s'"
  using assms(2)
proof cases
  case (server_event e)
  then obtain v where "s' = (if ve_urls v \<noteq> [] then s\<lparr>toVisit := toVisit s @ [v], queue_set := True\<rparr> else s)"
    by (auto simp: onServerEvent_def and_then_Inr_iff)
  then show ?thesis using assms(1) by (auto simp: visitor_inv_def left_behind_def)
next
  case thread_turn
  then obtain v vs where "toVisit s = v # vs" "queue_set s" "toVisit s' = vs" "\<not> queue_set s'"
    by (auto simp: visitor_turn_def split: if_split_asm list.splits)
  then show ?thesis by (simp add: visitor_inv_def left_behind_def)
qed

lemma visitor_run_inv:
  "visitor_run s s' \<Longrightarrow> visitor_inv s \<Longrightarrow> visitor_inv s' \<and> left_behind s \<le> left_behind s'"
proof (induction rule: visitor_run.induct)
  case (visitor_next s s' s'')
  then show ?case using visitor_step_inv [of s' s''] by fastforce
qed simp

text \<open>Two requests before the thread wakes up leave one visit behind.\<close>

lemma two_requests:
  assumes "toVisit s = []" and "onServerEvent e s = Inr s1" "toVisit s1 \<noteq> []"
    and "onServerEvent e' s1 = Inr s2" "length (toVisit s2) = 2"
  shows "left_behind s2 = 1"
proof -
  obtain v where "s2 = (if ve_urls v \<noteq> [] then s1\<lparr>toVisit := toVisit s1 @ [v], queue_set := True\<rparr> else s1)"
    using assms(4) by (auto simp: onServerEvent_def and_then_Inr_iff)
  moreover obtain w where "s1 = (if ve_urls w \<noteq> [] then s\<lparr>toVisit := toVisit s @ [w], queue_set := True\<rparr> else s)"
    using assms(2) by (auto simp: onServerEvent_def and_then_Inr_iff)
  ultimately show ?thesis using assms(1,3,5) by (auto simp: left_behind_def split: if_split_asm)
qed

subsection \<open>What a request becomes\<close>

text \<open>An item as the server writes it.\<close>

definition item :: "wstring \<Rightarrow> element" where
  "item u = Element (wide ''item'') [(wide ''url'', url_encode u)] [] []"

lemma add_items_urls:
  "add_items program time (map item us) v =
     Inr (v\<lparr>ve_urls := ve_urls v @ map (\<lambda>u. new_url (map (\<lambda>c. if c = 0x20 then 0x2B else c) u) program time) us,
            urlGroup := urlGroup v \<or> us \<noteq> [] \<and> 1 < length (ve_urls v) + length us\<rparr>)"
proof (induction us arbitrary: v)
  case (Cons u us)
  have ne: "wide ''url'' \<noteq> wide ''time''" "wide ''url'' \<noteq> wide ''program''" by (simp_all add: wide_def)
  have c: "createUrl [(wide ''url'', url_encode u)] =
      Inr (new_url (map (\<lambda>c. if c = 0x20 then 0x2B else c) u) [] 0)"
    using ne by (simp add: createUrl_def url_decode_encode)
  have p: "(new_url t [] 0)\<lparr>visitTime := time, url_program := program\<rparr> = new_url t program time" for t
    by (simp add: new_url_def)
  show ?case
    using Cons by (cases us) (simp_all add: c p addUrl_def item_def [of u] del: createUrl_def)
qed simp

lemma onServerEvent_visit:
  assumes "e = Element (wide ''visit-event'')
      [(wide ''identifier'', ident), (wide ''program'', program), (wide ''time'', decimal t)] [] (map item us)"
    and "t < 2 ^ 31" and "us \<noteq> []"
  shows "\<exists>v. onServerEvent e s = Inr (s\<lparr>toVisit := toVisit s @ [v], queue_set := True\<rparr>) \<and>
    ve_program v = program \<and> ve_identifier v = ident \<and> urlGroup v = (1 < length us) \<and>
    ve_urls v = map (\<lambda>u. new_url (map (\<lambda>c. if c = 0x20 then 0x2B else c) u) program (int t)) us"
proof -
  have ne: "wide ''identifier'' \<noteq> wide ''program''" "wide ''identifier'' \<noteq> wide ''time''"
    "wide ''program'' \<noteq> wide ''time''" by (simp_all add: wide_def)
  have g: "getAttributeValue (wide ''time'') e = decimal t" "getAttributeValue (wide ''program'') e = program"
    "getAttributeValue (wide ''identifier'') e = ident"
    using ne ne [symmetric] by (simp_all add: getAttributeValue_def assms(1))
  have e: "el_name e = wide ''visit-event''" "el_children e = map item us" by (simp_all add: assms(1))
  show ?thesis
    using assms(3)
    by (cases us) (auto simp: onServerEvent_def e g lexical_int_decimal [OF assms(2)] add_items_urls
        new_visit_event_def simp del: list.map)
qed

end
