(* ===== verification/Analysis.thy ===== *)
theory Analysis
  imports Visiting ClientFileMonitor
begin

text \<open>
  The options (\<open>OptionsManager.cpp\<close>), the log (\<open>Logger.cpp\<close>), and the analyzer
  (\<open>Analyzer.cpp\<close>), which turns what the monitors signal and the visitor announces into
  messages to the server and collects what a visit left behind.
\<close>

subsection \<open>Options\<close>

type_synonym options = "(wstring \<times> wstring) list"

definition getOption :: "options \<Rightarrow> wstring \<Rightarrow> wstring" where
  "getOption os n = (case map_of os n of None \<Rightarrow> [] | Some v \<Rightarrow> v)"

fun addOption :: "wstring \<Rightarrow> wstring \<Rightarrow> options \<Rightarrow> options" where
  "addOption n v [] = [(n, v)]"
| "addOption n v ((m, w) # os) = (if m = n then (m, v) # os else (m, w) # addOption n v os)"

text \<open>The option an element of the server sets, if it sets one.\<close>

definition option_of_element :: "element \<Rightarrow> (wstring \<times> wstring) option" where
  "option_of_element e =
     (let n = attribute_of (wide ''name'') (el_attributes e); v = attribute_of (wide ''value'') (el_attributes e)
      in if el_name e = wide ''option'' \<and> n \<noteq> [] \<and> v \<noteq> [] then Some (n, v) else None)"

subsection \<open>The log\<close>

definition log_line :: "wstring list \<Rightarrow> wstring" where
  "log_line cols =
     concat (map (\<lambda>(sep, f). sep @ f) (zip ([0x22] # replicate 6 [0x22, 0x2C, 0x22]) cols)) @ [0x22, 0x0D, 0x0A]"

text \<open>
  \<open>openLogFile\<close> frees the pointer to the file name, which points into the block it frees
  next; without a name it makes a string of a null pointer.
\<close>

definition openLogFile :: "bool \<Rightarrow> bool \<Rightarrow> client_error + bool" where
  "openLogFile open_already has_name =
     (if open_already then Inr True else if has_name then Inl BAD_FREE else Inl NULL_POINTER)"

subsection \<open>The analyzer\<close>

datatype action =
    StartDumper | StopDumper | DeleteCaptures
  | SetupFileMonitor bool
  | CopyFiles "(wstring \<times> wstring) list"
  | RemoveDirectory string
  | Compressed

text \<open>
  What the analyzer finds outside: where the modified files are copied, whether the archiver
  can be started and what it makes, what the server answers to an upload, whether the socket
  takes what is sent, the time.
\<close>

record analyzer_env =
  modified_dir :: wstring
  archiver :: bool
  archive :: "wstring \<times> u8 list option"
  upload_answer :: server_answer
  socket_ok :: bool
  time_now :: wstring

text \<open>
  \<open>dumper\<close> says whether there is a network dumper; \<open>Some False\<close> is one that was deleted
  while the pointer stayed.
\<close>

record analyzer =
  opts :: options
  processRules :: permission_map
  registryRules :: permission_map
  fileMonitor :: client_file_monitor
  captureNetworkPackets :: bool
  dumper :: "bool option"
  collectModifiedFiles :: bool
  malicious :: bool
  listening :: bool
  an_server :: server
  logFileOpen :: bool
  logged :: "wstring list"
  actions :: "action list"

definition use_dumper :: "action \<Rightarrow> analyzer \<Rightarrow> client_error + analyzer" where
  "use_dumper act s =
     (case dumper s of
        None \<Rightarrow> Inl NULL_POINTER
      | Some alive \<Rightarrow> if alive then Inr (s\<lparr>actions := actions s @ [act]\<rparr>) else Inl DANGLING_POINTER)"

definition network_option :: "wstring \<Rightarrow> bool" where
  "network_option n \<longleftrightarrow>
     n \<in> {wide ''capture-network-packets-malicious'', wide ''capture-network-packets-benign'',
          wide ''capture-network-packets''}"

definition set_file_monitor :: "bool \<Rightarrow> analyzer \<Rightarrow> analyzer" where
  "set_file_monitor b s =
     s\<lparr>fileMonitor := (fileMonitor s)\<lparr>monitorModifiedFiles := b\<rparr>,
       actions := actions s @ [SetupFileMonitor b]\<rparr>"

definition on_network_option :: "wstring \<Rightarrow> analyzer \<Rightarrow> client_error + analyzer" where
  "on_network_option v s =
     (if v = wide ''true''
      then Inr (s\<lparr>dumper := (if dumper s = None then Some True else dumper s), captureNetworkPackets := True\<rparr>)
      else if \<not> captureNetworkPackets s \<and>
              getOption (opts s) (wide ''capture-network-packets-malicious'') \<noteq> wide ''true'' \<and>
              getOption (opts s) (wide ''capture-network-packets-benign'') \<noteq> wide ''true''
      then (case dumper s of
              None \<Rightarrow> Inr s
            | Some alive \<Rightarrow> if alive then Inr (s\<lparr>dumper := Some False\<rparr>) else Inl DOUBLE_FREE)
      else Inr s)"

definition clear_lists :: "analyzer \<Rightarrow> client_error + analyzer" where
  "clear_lists s =
     and_then (clearExclusionList (processRules s)) (\<lambda>p.
     and_then (clearExclusionList (registryRules s)) (\<lambda>r.
     and_then (clearExclusionList (permissionMap (fileMonitor s))) (\<lambda>f.
       Inr (s\<lparr>processRules := p, registryRules := r,
              fileMonitor := (fileMonitor s)\<lparr>permissionMap := f\<rparr>\<rparr>))))"

definition onOptionChanged :: "wstring \<Rightarrow> analyzer \<Rightarrow> client_error + analyzer" where
  "onOptionChanged n s =
     (let v = getOption (opts s) n
      in if network_option n then on_network_option v s
         else if n = wide ''collect-modified-files''
         then Inr (set_file_monitor (v = wide ''true'') (s\<lparr>collectModifiedFiles := (v = wide ''true'')\<rparr>))
         else if n = wide ''send-exclusion-lists''
         then if v = wide ''true'' then clear_lists s else Inr s
         else Inr s)"

definition change_option :: "wstring \<Rightarrow> wstring \<Rightarrow> analyzer \<Rightarrow> client_error + analyzer" where
  "change_option n v s = onOptionChanged n (s\<lparr>opts := addOption n v (opts s)\<rparr>)"

text \<open>\<open>OptionsManager::onOptionEvent\<close>, with the analyzer as the only listener.\<close>

definition onOptionEvent :: "element \<Rightarrow> analyzer \<Rightarrow> client_error + analyzer" where
  "onOptionEvent e s =
     (case option_of_element e of None \<Rightarrow> Inr s | Some (n, v) \<Rightarrow> change_option n v s)"

text \<open>Connecting to the options announces every option there is, in some order.\<close>

fun announce_options :: "wstring list \<Rightarrow> analyzer \<Rightarrow> client_error + analyzer" where
  "announce_options [] s = Inr s"
| "announce_options (n # ns) s = and_then (onOptionChanged n s) (announce_options ns)"

definition new_analyzer :: "wstring list \<Rightarrow> analyzer \<Rightarrow> client_error + analyzer" where
  "new_analyzer order s =
     announce_options order
       (s\<lparr>collectModifiedFiles := False, dumper := None, listening := False,
          captureNetworkPackets := (getOption (opts s) (wide ''capture-network-packets'') = wide ''true'')\<rparr>)"

definition an_start :: "analyzer \<Rightarrow> client_error + analyzer" where
  "an_start s =
     (let s = s\<lparr>malicious := False\<rparr>
      in and_then (if captureNetworkPackets s then use_dumper StartDumper s else Inr s) (\<lambda>s.
         let s = s\<lparr>listening := True\<rparr>
         in Inr (if collectModifiedFiles s then set_file_monitor True s else s)))"

subsection \<open>Collecting\<close>

definition record_actions :: "action list \<Rightarrow> analyzer \<Rightarrow> analyzer" where
  "record_actions as s = s\<lparr>actions := actions s @ as\<rparr>"

definition delete_captures :: "analyzer \<Rightarrow> client_error + analyzer" where
  "delete_captures s = (if dumper s = None then Inr s else use_dumper DeleteCaptures s)"

definition copy_modified :: "wstring \<Rightarrow> analyzer \<Rightarrow> analyzer" where
  "copy_modified dir s =
     (case copyCreatedFiles dir (fileMonitor s) of
        (copies, fm) \<Rightarrow> record_actions [CopyFiles copies] (s\<lparr>fileMonitor := fm\<rparr>))"

definition capture_option :: "string \<Rightarrow> analyzer \<Rightarrow> wstring" where
  "capture_option n s = getOption (opts s) (wide n)"

definition archive_wanted :: "analyzer \<Rightarrow> bool" where
  "archive_wanted s \<longleftrightarrow>
     malicious s \<and> collectModifiedFiles s \<or>
     \<not> malicious s \<and> capture_option ''capture-network-packets-benign'' s = wide ''true'' \<or>
     malicious s \<and> capture_option ''capture-network-packets-malicious'' s = wide ''true''"

definition new_uploader :: uploader where
  "new_uploader = \<lparr>fileAccepted = False, fileOpened = False, busy = False, fileName = [], content = []\<rparr>"

text \<open>Without the archiver the program ends.\<close>

definition compressLogDirectory :: "analyzer_env \<Rightarrow> analyzer \<Rightarrow> client_error + analyzer" where
  "compressLogDirectory env s =
     (if archiver env then Inr (record_actions [Compressed] s) else Inl PROGRAM_EXIT)"

definition send_archive :: "analyzer_env \<Rightarrow> analyzer \<Rightarrow> client_error + analyzer" where
  "send_archive env s =
     (if archive_wanted s
      then and_then (compressLogDirectory env s) (\<lambda>s.
           if connected (an_server s)
           then and_then (sendFile (socket_ok env) (upload_answer env) (fst (archive env)) (snd (archive env))
                            new_uploader (an_server s)) (\<lambda>(_, _, srv). Inr (s\<lparr>an_server := srv\<rparr>))
           else Inr s)
      else Inr s)"

definition collect_results :: "analyzer_env \<Rightarrow> analyzer \<Rightarrow> client_error + analyzer" where
  "collect_results env s =
     and_then
       (if malicious s \<and> capture_option ''capture-network-packets-malicious'' s = wide ''false''
        then delete_captures s else Inr s) (\<lambda>s.
     and_then
       (if \<not> malicious s \<and> capture_option ''capture-network-packets-benign'' s = wide ''false''
        then delete_captures s else Inr s) (\<lambda>s.
     send_archive env
       (if \<not> malicious s
        then record_actions [RemoveDirectory ''logs/deleted_files'', RemoveDirectory ''logs/modified_files''] s
        else s)))"

definition an_stop :: "analyzer_env \<Rightarrow> analyzer \<Rightarrow> client_error + analyzer" where
  "an_stop env s =
     (let s = s\<lparr>listening := False\<rparr>
      in and_then (if captureNetworkPackets s then use_dumper StopDumper s else Inr s) (\<lambda>s.
         let s = (if collectModifiedFiles s then copy_modified (modified_dir env) (set_file_monitor False s) else s)
         in if capture_option ''server'' s = [] then Inr s
            else and_then
                   (if collectModifiedFiles s \<or> captureNetworkPackets s then collect_results env s else Inr s)
                   (\<lambda>s. Inr (record_actions [RemoveDirectory ''logs''] s))))"

subsection \<open>Messages\<close>

definition signed_decimal :: "u32 \<Rightarrow> wstring" where
  "signed_decimal w = (if sint w < 0 then 0x2D # decimal (nat (- sint w)) else decimal (nat (sint w)))"

definition bool_text :: "bool \<Rightarrow> wstring" where
  "bool_text b = (if b then wide ''1'' else wide ''0'')"

definition send_visit :: "analyzer_env \<Rightarrow> wstring \<Rightarrow> element \<Rightarrow> analyzer \<Rightarrow> analyzer" where
  "send_visit env type e s =
     s\<lparr>an_server := sendElement (socket_ok env)
         (addAttribute (wide ''malicious'') (bool_text (malicious s)) (addAttribute (wide ''type'') type e))
         (an_server s)\<rparr>"

text \<open>Whatever is not one of the four phases of a visit is the code of an error.\<close>

definition an_update :: "analyzer_env \<Rightarrow> u32 \<Rightarrow> visit_event \<Rightarrow> analyzer \<Rightarrow> client_error + analyzer" where
  "an_update env eventType v s =
     (let e = visit_toElement (time_now env) v
      in if eventType = CAPTURE_VISITATION_PRESTART then an_start s
         else if eventType = CAPTURE_VISITATION_START then Inr (send_visit env (wide ''start'') e s)
         else if eventType = CAPTURE_VISITATION_FINISH
         then and_then (an_stop env s) (\<lambda>s. Inr (send_visit env (wide ''finish'') e s))
         else if eventType = CAPTURE_VISITATION_POSTFINISH then Inr s
         else and_then (an_stop env s) (\<lambda>s. Inr (send_visit env (wide ''error'')
                (addAttribute (wide ''error-code'') (signed_decimal eventType) e) s)))"

definition writeSystemEventToLog :: "wstring list \<Rightarrow> analyzer \<Rightarrow> analyzer" where
  "writeSystemEventToLog cols s = (if logFileOpen s then s\<lparr>logged := logged s @ [log_line cols]\<rparr> else s)"

definition sendSystemEvent ::
    "analyzer_env \<Rightarrow> wstring \<Rightarrow> wstring \<Rightarrow> u32 \<Rightarrow> wstring \<Rightarrow> wstring \<Rightarrow> wstring \<Rightarrow> wstring \<Rightarrow> analyzer \<Rightarrow>
     client_error + analyzer" where
  "sendSystemEvent env type time pid process action object1 object2 s =
     (let spid = decimal (unat pid);
          s = (if getOption (opts s) (wide ''log-system-events-file'') = [] then s
               else writeSystemEventToLog [type, time, spid, process, action, object1, object2] s)
      in and_then (sendXML (socket_ok env) (wide ''system-event'')
           [(wide ''time'', time), (wide ''type'', type), (wide ''processId'', spid), (wide ''process'', process),
            (wide ''action'', action), (wide ''object1'', object1), (wide ''object2'', object2)] (an_server s))
           (\<lambda>srv. Inr (s\<lparr>an_server := srv\<rparr>)))"

definition an_onProcessEvent ::
    "analyzer_env \<Rightarrow> process_signal \<Rightarrow> analyzer \<Rightarrow> client_error + analyzer" where
  "an_onProcessEvent env p s =
     sendSystemEvent env (wide ''process'') (ps_time p) (ps_parentId p) (ps_parentPath p)
       (if ps_created p then wide ''created'' else wide ''terminated'') (decimal (unat (ps_processId p)))
       (ps_processPath p) (s\<lparr>malicious := True\<rparr>)"

text \<open>What the file and the registry monitor signal differs in the type only.\<close>

definition on_monitor_event ::
    "string \<Rightarrow> analyzer_env \<Rightarrow> monitor_signal \<Rightarrow> analyzer \<Rightarrow> client_error + analyzer" where
  "on_monitor_event type env m s =
     sendSystemEvent env (wide type) (ms_time m) (ms_processId m) (ms_processPath m) (ms_event m) (ms_path m)
       (wide ''-1'') (s\<lparr>malicious := True\<rparr>)"

definition an_onRegistryEvent ::
    "analyzer_env \<Rightarrow> monitor_signal \<Rightarrow> analyzer \<Rightarrow> client_error + analyzer" where
  "an_onRegistryEvent env m s = on_monitor_event ''registry'' env m s"

definition an_onFileEvent ::
    "analyzer_env \<Rightarrow> monitor_signal \<Rightarrow> analyzer \<Rightarrow> client_error + analyzer" where
  "an_onFileEvent env m s = on_monitor_event ''file'' env m s"

subsection \<open>Everything that happens to the analyzer\<close>

text \<open>A monitor's signal reaches the analyzer only between a start and a stop.\<close>

datatype analyzer_step =
    ServerSays element
  | VisitPhase u32 visit_event
  | ProcessSignal process_signal
  | RegistrySignal monitor_signal
  | FileSignal monitor_signal

fun analyzer_does :: "analyzer_env \<Rightarrow> analyzer_step \<Rightarrow> analyzer \<Rightarrow> client_error + analyzer" where
  "analyzer_does env (ServerSays e) s = onOptionEvent e s"
| "analyzer_does env (VisitPhase t v) s = an_update env t v s"
| "analyzer_does env (ProcessSignal p) s = (if listening s then an_onProcessEvent env p s else Inr s)"
| "analyzer_does env (RegistrySignal m) s = (if listening s then an_onRegistryEvent env m s else Inr s)"
| "analyzer_does env (FileSignal m) s = (if listening s then an_onFileEvent env m s else Inr s)"

fun analyzer_run :: "analyzer_env \<Rightarrow> analyzer_step list \<Rightarrow> analyzer \<Rightarrow> client_error + analyzer" where
  "analyzer_run env [] s = Inr s"
| "analyzer_run env (x # xs) s = and_then (analyzer_does env x s) (analyzer_run env xs)"

subsection \<open>The network dumper\<close>

text \<open>There is a dumper just when packets are captured, and it is never a deleted one.\<close>

definition analyzer_ok :: "analyzer \<Rightarrow> bool" where
  "analyzer_ok s \<longleftrightarrow> dumper s = (if captureNetworkPackets s then Some True else None)"

definition starting_ok :: "analyzer \<Rightarrow> bool" where
  "starting_ok s \<longleftrightarrow> dumper s = None \<or> dumper s = Some True \<and> captureNetworkPackets s"

text \<open>
  Two results may end the program otherwise: clearing the exclusion lists, and an archiver
  that is not there.
\<close>

definition keeps :: "analyzer \<Rightarrow> client_error + analyzer \<Rightarrow> bool" where
  "keeps s r \<longleftrightarrow>
     (case r of
        Inl e \<Rightarrow> e = DANGLING_ITERATOR \<or> e = PROGRAM_EXIT
      | Inr s' \<Rightarrow> analyzer_ok s' \<and> (captureNetworkPackets s \<longrightarrow> captureNetworkPackets s'))"

lemma keeps_Inr [simp]:
  "keeps s (Inr s') \<longleftrightarrow> analyzer_ok s' \<and> (captureNetworkPackets s \<longrightarrow> captureNetworkPackets s')"
  by (simp add: keeps_def)

lemma keeps_then:
  assumes "keeps s r" and "\<And>s'. r = Inr s' \<Longrightarrow> analyzer_ok s' \<Longrightarrow> keeps s' (g s')"
  shows "keeps s (and_then r g)"
  using assms by (cases r) (auto simp: keeps_def split: sum.splits)

lemma clear_error: "clearExclusionList m = Inl e \<Longrightarrow> e = DANGLING_ITERATOR"
proof (induction m arbitrary: e rule: clearExclusionList.induct)
  case (2 n ps m)
  have "clear_rules ps = Inl e' \<Longrightarrow> e' = DANGLING_ITERATOR" for e'
    by (induction ps arbitrary: e' rule: clear_rules.induct)
      (auto split: if_split_asm sum.splits simp: and_then_Inl_iff)
  then show ?case using 2 by (auto simp: and_then_Inl_iff split: sum.splits)
qed simp

lemma clear_lists_result:
  "case clear_lists s of
     Inl e \<Rightarrow> e = DANGLING_ITERATOR
   | Inr s' \<Rightarrow> captureNetworkPackets s' = captureNetworkPackets s \<and> dumper s' = dumper s \<and> opts s' = opts s"
  by (auto simp: clear_lists_def and_then_Inl_iff and_then_Inr_iff dest: clear_error split: sum.splits)

definition option_effect :: "wstring \<Rightarrow> analyzer \<Rightarrow> analyzer \<Rightarrow> bool" where
  "option_effect n s s' \<longleftrightarrow>
     starting_ok s' \<and> opts s' = opts s \<and> (captureNetworkPackets s \<longrightarrow> captureNetworkPackets s') \<and>
     (dumper s \<noteq> None \<or> n = wide ''capture-network-packets'' \<and> getOption (opts s) n = wide ''true''
      \<longrightarrow> dumper s' \<noteq> None) \<and>
     (captureNetworkPackets s' \<longrightarrow> captureNetworkPackets s \<or> dumper s' \<noteq> None)"

lemma onOptionChanged_starting:
  assumes "starting_ok s"
  shows "case onOptionChanged n s of Inl e \<Rightarrow> e = DANGLING_ITERATOR | Inr s' \<Rightarrow> option_effect n s s'"
proof (cases "network_option n")
  case True
  then show ?thesis using assms
    by (auto simp: onOptionChanged_def on_network_option_def starting_ok_def option_effect_def Let_def)
next
  case False
  then have ne: "n \<noteq> wide ''capture-network-packets''" by (simp add: network_option_def)
  have c: "case clear_lists s of Inl e \<Rightarrow> e = DANGLING_ITERATOR | Inr s' \<Rightarrow> option_effect n s s'"
    using clear_lists_result [of s] assms ne
    by (auto simp: option_effect_def starting_ok_def split: sum.splits)
  have "option_effect n s s" "option_effect n s (set_file_monitor b (s\<lparr>collectModifiedFiles := b\<rparr>))" for b
    using assms ne by (auto simp: option_effect_def starting_ok_def set_file_monitor_def)
  moreover have "wide ''send-exclusion-lists'' \<noteq> wide ''collect-modified-files''" by (simp add: wide_def)
  ultimately show ?thesis using c False
    by (cases "n = wide ''collect-modified-files''"; cases "n = wide ''send-exclusion-lists''")
      (simp_all add: onOptionChanged_def Let_def)
qed

lemma announce_options_starting:
  assumes "starting_ok s"
  shows "case announce_options ns s of
      Inl e \<Rightarrow> e = DANGLING_ITERATOR
    | Inr s' \<Rightarrow> starting_ok s' \<and> opts s' = opts s \<and>
        (captureNetworkPackets s \<longrightarrow> captureNetworkPackets s') \<and>
        (dumper s \<noteq> None \<or> wide ''capture-network-packets'' \<in> set ns \<and>
           getOption (opts s) (wide ''capture-network-packets'') = wide ''true'' \<longrightarrow> dumper s' \<noteq> None) \<and>
        (captureNetworkPackets s' \<longrightarrow> captureNetworkPackets s \<or> dumper s' \<noteq> None)"
  using assms
proof (induction ns arbitrary: s)
  case (Cons n ns)
  note one = onOptionChanged_starting [OF Cons.prems, of n]
  show ?case
  proof (cases "onOptionChanged n s")
    case (Inr s1)
    with one have "starting_ok s1" by (simp add: option_effect_def)
    from Cons.IH [OF this] one Inr show ?thesis by (auto simp: option_effect_def split: sum.splits)
  qed (use one in simp)
qed simp

lemma new_analyzer_keeps:
  assumes "getOption (opts s) (wide ''capture-network-packets'') = wide ''true'' \<Longrightarrow>
    wide ''capture-network-packets'' \<in> set order"
  shows "case new_analyzer order s of
      Inl e \<Rightarrow> e = DANGLING_ITERATOR
    | Inr s' \<Rightarrow> analyzer_ok s' \<and> opts s' = opts s \<and>
        (getOption (opts s) (wide ''capture-network-packets'') = wide ''true'' \<longrightarrow> captureNetworkPackets s')"
proof -
  let ?s = "s\<lparr>collectModifiedFiles := False, dumper := None, listening := False,
    captureNetworkPackets := (getOption (opts s) (wide ''capture-network-packets'') = wide ''true'')\<rparr>"
  have "starting_ok ?s" by (simp add: starting_ok_def)
  from announce_options_starting [OF this, of order] assms show ?thesis
    by (auto simp: new_analyzer_def starting_ok_def analyzer_ok_def split: sum.splits)
qed

lemma onOptionChanged_keeps: "analyzer_ok s \<Longrightarrow> keeps s (onOptionChanged n s)"
  using onOptionChanged_starting [of s n]
  by (auto simp: keeps_def analyzer_ok_def starting_ok_def option_effect_def split: sum.splits if_splits)

lemma change_option_keeps: "analyzer_ok s \<Longrightarrow> keeps s (change_option n v s)"
  using onOptionChanged_keeps [of "s\<lparr>opts := addOption n v (opts s)\<rparr>" n]
  by (auto simp: change_option_def keeps_def analyzer_ok_def split: sum.splits)

lemma use_dumper_keeps: "analyzer_ok s \<Longrightarrow> captureNetworkPackets s \<Longrightarrow> keeps s (use_dumper a s)"
  by (simp add: use_dumper_def analyzer_ok_def)

lemma analyzer_ok_record [simp]:
  "analyzer_ok (record_actions as s) = analyzer_ok s" "analyzer_ok (set_file_monitor b s) = analyzer_ok s"
  "analyzer_ok (copy_modified dir s) = analyzer_ok s" "analyzer_ok (send_visit env t e s) = analyzer_ok s"
  "captureNetworkPackets (record_actions as s) = captureNetworkPackets s"
  "captureNetworkPackets (set_file_monitor b s) = captureNetworkPackets s"
  "captureNetworkPackets (copy_modified dir s) = captureNetworkPackets s"
  "captureNetworkPackets (send_visit env t e s) = captureNetworkPackets s"
  by (simp_all add: analyzer_ok_def record_actions_def set_file_monitor_def copy_modified_def
      copyCreatedFiles_def send_visit_def)

lemma sendXML_total: "\<exists>s'. sendXML ok n as s = Inr s'"
  using xml_attributes_total [of as] by (auto simp: sendXML_def)

lemma and_then_total: "\<exists>x. r = Inr x \<Longrightarrow> (\<And>x. \<exists>y. f x = Inr y) \<Longrightarrow> \<exists>y. and_then r f = Inr y"
  by (auto simp: and_then_Inr_iff)

lemma sendFile_total: "\<exists>r. sendFile ok answer name d u s = Inr r"
proof (cases "connected s \<and> d \<noteq> None")
  case True
  then obtain bytes where d: "d = Some bytes" by auto
  have f: "\<exists>s1. sendXML ok (wide n) (file_attributes name bytes) s' = Inr s1" for n s'
    by (rule sendXML_total)
  show ?thesis
    by (cases "answer = NoAnswer \<or> \<not> (fileAccepted u \<or> answer = Accepts)")
      (use True in \<open>simp_all add: sendFile_def Let_def d del: split_paired_Ex\<close>,
       auto intro!: and_then_total f simp del: split_paired_Ex)
next
  case False
  then show ?thesis by (cases "connected s") (auto simp: sendFile_def)
qed

lemma an_start_keeps: "analyzer_ok s \<Longrightarrow> keeps s (an_start s)"
  by (auto simp: an_start_def Let_def use_dumper_def analyzer_ok_def set_file_monitor_def)

lemma delete_captures_keeps: "analyzer_ok s \<Longrightarrow> keeps s (delete_captures s)"
  by (auto simp: delete_captures_def use_dumper_def analyzer_ok_def)

lemma send_archive_keeps: "analyzer_ok s \<Longrightarrow> keeps s (send_archive env s)"
proof -
  assume ok: "analyzer_ok s"
  obtain a b srv where f: "sendFile (socket_ok env) (upload_answer env) (fst (archive env)) (snd (archive env))
      new_uploader (an_server s) = Inr (a, b, srv)"
    using sendFile_total [of "socket_ok env" "upload_answer env" "fst (archive env)" "snd (archive env)"
        new_uploader "an_server s"] by auto
  have a: "an_server (record_actions as s) = an_server s" for as by (simp add: record_actions_def)
  show ?thesis using ok
    by (auto simp: send_archive_def compressLogDirectory_def f a keeps_def analyzer_ok_def record_actions_def)
qed

lemma keeps_weaken: "keeps s r \<Longrightarrow> captureNetworkPackets s = captureNetworkPackets s' \<Longrightarrow> keeps s' r"
  by (simp add: keeps_def split: sum.splits)

lemma keeps_if: "keeps s a \<Longrightarrow> keeps s b \<Longrightarrow> keeps s (if c then a else b)"
  by simp

lemma collect_results_keeps: "analyzer_ok s \<Longrightarrow> keeps s (collect_results env s)"
  unfolding collect_results_def
proof (intro keeps_then keeps_if delete_captures_keeps)
  fix s' :: analyzer
  assume "analyzer_ok s'"
  let ?m = "if \<not> malicious s' then record_actions [RemoveDirectory ''logs/deleted_files'',
    RemoveDirectory ''logs/modified_files''] s' else s'"
  show "keeps s' (send_archive env ?m)"
    by (rule keeps_weaken [of ?m]) (use \<open>analyzer_ok s'\<close> in \<open>simp_all add: send_archive_keeps\<close>)
qed simp_all

lemma an_stop_keeps:
  assumes "analyzer_ok s"
  shows "keeps s (an_stop env s)"
proof -
  let ?s = "s\<lparr>listening := False\<rparr>"
  have ok: "analyzer_ok ?s" using assms by (simp add: analyzer_ok_def)
  have collect: "keeps s' (and_then
      (if collectModifiedFiles s' \<or> captureNetworkPackets s' then collect_results env s' else Inr s')
      (\<lambda>s. Inr (record_actions as s)))" if "analyzer_ok s'" for s' as
    by (rule keeps_then) (use that in \<open>auto intro: collect_results_keeps\<close>)
  have "keeps ?s (an_stop env s)"
    unfolding an_stop_def Let_def
  proof (rule keeps_then)
    show "keeps ?s (if captureNetworkPackets ?s then use_dumper StopDumper ?s else Inr ?s)"
      using ok by (simp add: use_dumper_keeps)
    fix s' :: analyzer
    assume "analyzer_ok s'"
    let ?m = "if collectModifiedFiles s' then copy_modified (modified_dir env) (set_file_monitor False s') else s'"
    have "keeps ?m (if capture_option ''server'' ?m = [] then Inr ?m
       else and_then (if collectModifiedFiles ?m \<or> captureNetworkPackets ?m then collect_results env ?m else Inr ?m)
         (\<lambda>s. Inr (record_actions [RemoveDirectory ''logs''] s)))"
      using \<open>analyzer_ok s'\<close> collect [of ?m] by simp
    then show "keeps s' (if capture_option ''server'' ?m = [] then Inr ?m
       else and_then (if collectModifiedFiles ?m \<or> captureNetworkPackets ?m then collect_results env ?m else Inr ?m)
         (\<lambda>s. Inr (record_actions [RemoveDirectory ''logs''] s)))"
      by (rule keeps_weaken) simp
  qed
  then show ?thesis by (rule keeps_weaken) simp
qed

lemma an_update_keeps: "analyzer_ok s \<Longrightarrow> keeps s (an_update env t v s)"
  by (auto simp: an_update_def Let_def intro!: keeps_then an_stop_keeps an_start_keeps)

lemma writeSystemEventToLog_fields [simp]:
  "malicious (writeSystemEventToLog cs s) = malicious s" "listening (writeSystemEventToLog cs s) = listening s"
  "an_server (writeSystemEventToLog cs s) = an_server s" "dumper (writeSystemEventToLog cs s) = dumper s"
  "captureNetworkPackets (writeSystemEventToLog cs s) = captureNetworkPackets s"
  by (simp_all add: writeSystemEventToLog_def)

lemma sendSystemEvent_keeps:
  assumes "analyzer_ok s"
  shows "keeps s (sendSystemEvent env t time pid p a o1 o2 s)"
proof -
  obtain srv where "sendXML (socket_ok env) (wide ''system-event'')
      [(wide ''time'', time), (wide ''type'', t), (wide ''processId'', decimal (unat pid)), (wide ''process'', p),
       (wide ''action'', a), (wide ''object1'', o1), (wide ''object2'', o2)] (an_server s) = Inr srv"
    using sendXML_total by blast
  then show ?thesis using assms by (simp add: sendSystemEvent_def Let_def analyzer_ok_def)
qed

lemma signal_keeps:
  assumes "analyzer_ok s"
  shows "keeps s (an_onProcessEvent env p s)" "keeps s (an_onRegistryEvent env m s)"
    "keeps s (an_onFileEvent env m s)"
proof -
  have k: "keeps s (sendSystemEvent env t time pid q a o1 o2 (s\<lparr>malicious := True\<rparr>))" for t time pid q a o1 o2
    by (rule keeps_weaken [of "s\<lparr>malicious := True\<rparr>"])
      (use assms in \<open>simp_all add: sendSystemEvent_keeps analyzer_ok_def\<close>)
  show "keeps s (an_onProcessEvent env p s)" "keeps s (an_onRegistryEvent env m s)"
    "keeps s (an_onFileEvent env m s)"
    by (simp_all add: an_onProcessEvent_def an_onRegistryEvent_def an_onFileEvent_def on_monitor_event_def k)
qed

lemma analyzer_does_keeps: "analyzer_ok s \<Longrightarrow> keeps s (analyzer_does env x s)"
  by (cases x) (auto simp: onOptionEvent_def intro: change_option_keeps an_update_keeps signal_keeps split: option.split)

lemma analyzer_run_keeps: "analyzer_ok s \<Longrightarrow> keeps s (analyzer_run env xs s)"
proof (induction xs arbitrary: s)
  case (Cons x xs)
  show ?case by (auto intro!: keeps_then analyzer_does_keeps Cons)
qed simp

subsection \<open>The verdict\<close>

text \<open>What neither loses the verdict nor the connection.\<close>

definition passes :: "analyzer \<Rightarrow> client_error + analyzer \<Rightarrow> bool" where
  "passes s r \<longleftrightarrow>
     (case r of
        Inl e \<Rightarrow> True
      | Inr s' \<Rightarrow> malicious s' = malicious s \<and> connected (an_server s') = connected (an_server s))"

lemma passes_Inr [simp]:
  "passes s (Inr s') \<longleftrightarrow> malicious s' = malicious s \<and> connected (an_server s') = connected (an_server s)"
  by (simp add: passes_def)

lemma passes_Inl [simp]: "passes s (Inl e)"
  by (simp add: passes_def)

lemma passes_weaken:
  "passes s r \<Longrightarrow> malicious s = malicious s' \<Longrightarrow>
     connected (an_server s) = connected (an_server s') \<Longrightarrow> passes s' r"
  by (simp add: passes_def split: sum.splits)

lemma passes_then:
  assumes "passes s r" and "\<And>s'. passes s' (g s')"
  shows "passes s (and_then r g)"
proof (cases r)
  case (Inr s')
  then show ?thesis using assms(1) passes_weaken [OF assms(2) [of s'], of s] by simp
qed (simp add: passes_def)

lemma passes_if: "passes s a \<Longrightarrow> passes s b \<Longrightarrow> passes s (if c then a else b)"
  by simp

lemma passes_record [simp]:
  "malicious (record_actions as s) = malicious s" "malicious (set_file_monitor b s) = malicious s"
  "malicious (copy_modified dir s) = malicious s"
  "an_server (record_actions as s) = an_server s" "an_server (set_file_monitor b s) = an_server s"
  "an_server (copy_modified dir s) = an_server s"
  by (simp_all add: record_actions_def set_file_monitor_def copy_modified_def copyCreatedFiles_def)

lemma use_dumper_passes: "passes s (use_dumper a s)"
  by (auto simp: use_dumper_def split: option.split)

lemma sendXML_connected: "sendXML True n as s = Inr s' \<Longrightarrow> connected s' = connected s"
  by (auto simp: sendXML_def sendMessage_def and_then_Inr_iff split: if_split_asm)

lemma sendFile_connected:
  assumes "sendFile True answer name d u s = Inr (b, u', s')"
  shows "connected s' = connected s"
proof (cases "connected s \<and> d \<noteq> None")
  case True
  then obtain bytes where d: "d = Some bytes" by auto
  have parts: "connected (send_parts True 0 w t)" if "connected t" "fileOpened w" for w :: uploader and t
    using send_parts_wire [OF that, of 0] that by simp
  show ?thesis using assms True
    by (auto simp: sendFile_def Let_def d and_then_Inr_iff split: if_split_asm
        dest!: sendXML_connected intro: parts)
next
  case False
  then show ?thesis using assms by (cases "connected s") (auto simp: sendFile_def)
qed

lemma an_stop_passes:
  assumes "socket_ok env"
  shows "passes s (an_stop env s)"
proof -
  have arch: "passes s (send_archive env s)" for s
    using assms
    by (auto simp: send_archive_def compressLogDirectory_def passes_def and_then_Inr_iff
        dest!: sendFile_connected split: sum.splits if_split_asm)
  have coll: "passes s (collect_results env s)" for s
    unfolding collect_results_def delete_captures_def
  proof (intro passes_then passes_if use_dumper_passes)
    fix s' :: analyzer
    let ?m = "if \<not> malicious s' then record_actions [RemoveDirectory ''logs/deleted_files'',
      RemoveDirectory ''logs/modified_files''] s' else s'"
    show "passes s' (send_archive env ?m)"
      by (rule passes_weaken [OF arch [of ?m]]) simp_all
  qed simp_all
  have fin: "passes s (and_then (if c then collect_results env s else Inr s)
      (\<lambda>s. Inr (record_actions as s)))" for s c as
    by (intro passes_then) (simp_all add: coll)
  have "passes (s\<lparr>listening := False\<rparr>) (an_stop env s)"
    unfolding an_stop_def Let_def
  proof (rule passes_then)
    fix s' :: analyzer
    let ?m = "if collectModifiedFiles s' then copy_modified (modified_dir env) (set_file_monitor False s') else s'"
    have "passes ?m (if capture_option ''server'' ?m = [] then Inr ?m
       else and_then (if collectModifiedFiles ?m \<or> captureNetworkPackets ?m then collect_results env ?m else Inr ?m)
         (\<lambda>s. Inr (record_actions [RemoveDirectory ''logs''] s)))"
      by (intro passes_if fin) simp
    then show "passes s' (if capture_option ''server'' ?m = [] then Inr ?m
       else and_then (if collectModifiedFiles ?m \<or> captureNetworkPackets ?m then collect_results env ?m else Inr ?m)
         (\<lambda>s. Inr (record_actions [RemoveDirectory ''logs''] s)))"
      by (rule passes_weaken) simp_all
  qed (simp add: use_dumper_passes)
  then show ?thesis by (rule passes_weaken) simp_all
qed

fun is_signal :: "analyzer_step \<Rightarrow> bool" where
  "is_signal (ProcessSignal p) = True"
| "is_signal (RegistrySignal m) = True"
| "is_signal (FileSignal m) = True"
| "is_signal x = False"

lemma sendSystemEvent_sets:
  assumes "sendSystemEvent env t time pid p a o1 o2 s = Inr s'" and "socket_ok env"
  shows "malicious s' = malicious s \<and> listening s' = listening s \<and>
    connected (an_server s') = connected (an_server s)"
  using assms
  by (auto simp: sendSystemEvent_def Let_def and_then_Inr_iff dest!: sendXML_connected split: if_split_asm)

lemma signal_sets:
  assumes "is_signal x" and "listening s" and "socket_ok env" and "analyzer_does env x s = Inr s'"
  shows "malicious s' \<and> listening s' \<and> connected (an_server s') = connected (an_server s)"
  using assms
  by (cases x) (auto simp: an_onProcessEvent_def an_onRegistryEvent_def an_onFileEvent_def
      on_monitor_event_def dest!: sendSystemEvent_sets)

lemma signals_set:
  "list_all is_signal xs \<Longrightarrow> listening s \<Longrightarrow> socket_ok env \<Longrightarrow> analyzer_run env xs s = Inr s' \<Longrightarrow>
     malicious s' = (malicious s \<or> xs \<noteq> []) \<and> connected (an_server s') = connected (an_server s)"
proof (induction xs arbitrary: s)
  case (Cons x xs)
  from Cons.prems obtain s1 where s1: "analyzer_does env x s = Inr s1" and r: "analyzer_run env xs s1 = Inr s'"
    by (auto simp: and_then_Inr_iff)
  from signal_sets [OF _ _ _ s1] Cons.prems have "malicious s1" "listening s1"
    "connected (an_server s1) = connected (an_server s)" by auto
  with Cons.IH [OF _ _ _ r] Cons.prems show ?case by auto
qed simp

lemma analyzer_run_append:
  "analyzer_run env (xs @ ys) s = and_then (analyzer_run env xs s) (analyzer_run env ys)"
proof (induction xs arbitrary: s)
  case (Cons x xs)
  then show ?case by (cases "analyzer_does env x s") simp_all
qed simp

text \<open>
  The message that ends a visit says malicious just when a monitor has signalled something
  since the visit was announced.
\<close>

lemma visit_verdict:
  assumes "analyzer_run env (VisitPhase CAPTURE_VISITATION_PRESTART v # xs @
      [VisitPhase CAPTURE_VISITATION_FINISH v']) s = Inr s'"
    and "list_all is_signal xs" and "socket_ok env" and "connected (an_server s)"
  shows "last (wire (an_server s')) = toString
    (addAttribute (wide ''malicious'') (bool_text (xs \<noteq> []))
      (addAttribute (wide ''type'') (wide ''finish'') (visit_toElement (time_now env) v')))"
proof -
  from assms(1) obtain s1 s2 s3 where s1: "an_start s = Inr s1" and s2: "analyzer_run env xs s1 = Inr s2"
    and s3: "an_stop env s2 = Inr s3"
    and s': "s' = send_visit env (wide ''finish'') (visit_toElement (time_now env) v') s3"
    by (auto simp: analyzer_run_append and_then_Inr_iff an_update_def)
  have "\<not> malicious s1" "listening s1" "connected (an_server s1)"
    using s1 assms(4)
    by (auto simp: an_start_def Let_def and_then_Inr_iff use_dumper_def set_file_monitor_def
        split: if_split_asm option.splits)
  with signals_set [OF assms(2) _ assms(3) s2] have "malicious s2 = (xs \<noteq> [])" "connected (an_server s2)"
    by auto
  with an_stop_passes [OF assms(3), of s2] have "malicious s3 = (xs \<noteq> [])" "connected (an_server s3)"
    by (simp_all add: s3)
  then show ?thesis using assms(3) by (simp add: s' send_visit_def sendElement_ok)
qed

end
