(* ===== verification/ClientMain.thy ===== *)
theory ClientMain
  imports Analysis
begin

text \<open>
  The client's entry point (\<open>CaptureClient.cpp\<close>): the command line, the options it sets, the
  analyzer made with them, and the answers to the server's own requests.
\<close>

subsection \<open>The command line\<close>

record settings =
  serverIp :: wstring
  serverPort :: wstring
  vmServerId :: wstring
  vmId :: wstring
  logSystemEventsFile :: wstring
  set_collect :: bool
  set_capture :: bool

definition default_settings :: settings where
  "default_settings =
     \<lparr>serverIp = [], serverPort = wide ''7070'', vmServerId = [], vmId = [], logSystemEventsFile = [],
      set_collect = False, set_capture = False\<rparr>"

text \<open>The options that take a value, and what they set.\<close>

definition value_option :: "wstring \<Rightarrow> (wstring \<Rightarrow> settings \<Rightarrow> settings) option" where
  "value_option a =
     (if a = wide ''-s'' then Some (\<lambda>v s. s\<lparr>serverIp := v\<rparr>)
      else if a = wide ''-p'' then Some (\<lambda>v s. s\<lparr>serverPort := v\<rparr>)
      else if a = wide ''-a'' then Some (\<lambda>v s. s\<lparr>vmServerId := v\<rparr>)
      else if a = wide ''-b'' then Some (\<lambda>v s. s\<lparr>vmId := v\<rparr>)
      else if a = wide ''-l'' then Some (\<lambda>v s. s\<lparr>logSystemEventsFile := v\<rparr>)
      else None)"

definition dashed :: "wstring \<Rightarrow> bool" where
  "dashed a \<longleftrightarrow> a \<noteq> [] \<and> hd a = 0x2D"

text \<open>The letters after a dash; \<open>winpcap\<close>: the library for capturing is there.\<close>

fun apply_flags :: "bool \<Rightarrow> wstring \<Rightarrow> settings \<Rightarrow> client_error + settings" where
  "apply_flags winpcap [] s = Inr s"
| "apply_flags winpcap (c # cs) s =
     (if c = 0x63 then apply_flags winpcap cs (s\<lparr>set_collect := True\<rparr>)
      else if c = 0x6E then if winpcap then apply_flags winpcap cs (s\<lparr>set_capture := True\<rparr>) else Inl PROGRAM_EXIT
      else apply_flags winpcap cs s)"

fun parse_args :: "bool \<Rightarrow> wstring list \<Rightarrow> settings \<Rightarrow> client_error + settings" where
  "parse_args winpcap [] s = Inr s"
| "parse_args winpcap (a # as) s =
     (if a = wide ''--help'' \<or> a = wide ''-h'' then Inl PROGRAM_EXIT
      else case value_option a of
        Some set_value \<Rightarrow>
          (case as of
             [] \<Rightarrow> Inr s
           | v # vs \<Rightarrow> if dashed v then parse_args winpcap as s else parse_args winpcap vs (set_value v s))
      | None \<Rightarrow>
          and_then (if dashed a then apply_flags winpcap (tl a) s else Inr s) (parse_args winpcap as))"

subsection \<open>Starting\<close>

definition flag_text :: "bool \<Rightarrow> wstring" where
  "flag_text b = (if b then wide ''true'' else wide ''false'')"

definition start_options :: "settings \<Rightarrow> options" where
  "start_options t =
     foldl (\<lambda>os (n, v). addOption (wide n) v os) []
       [(''server'', serverIp t), (''port'', serverPort t), (''vm-server-id'', vmServerId t), (''vm-id'', vmId t),
        (''log-system-events-file'', logSystemEventsFile t), (''collect-modified-files'', flag_text (set_collect t)),
        (''capture-network-packets'', flag_text (set_capture t)),
        (''capture-network-packets-malicious'', wide ''false''),
        (''capture-network-packets-benign'', wide ''false'')]"

text \<open>
  What the program finds when it starts: the library for capturing, the archiver, the
  privileges it asks for, and whether the path of the log ends in a file name.
\<close>

record start_env =
  winpcap_found :: bool
  archiver_found :: bool
  privileged :: bool
  log_named :: bool

text \<open>
  From the command line to the analyzer: \<open>order\<close> is the order in which the options are
  announced to it. The port has to be a number; collecting for a server needs the archiver.
\<close>

definition new_client :: "start_env \<Rightarrow> wstring list \<Rightarrow> analyzer \<Rightarrow> client_error + analyzer" where
  "new_client env order s =
     (if \<not> privileged env then Inl PROGRAM_EXIT
      else and_then (if getOption (opts s) (wide ''log-system-events-file'') = [] then Inr False
                     else openLogFile (logFileOpen s) (log_named env)) (\<lambda>open_now.
           and_then (lexical_int (getOption (opts s) (wide ''port''))) (\<lambda>port.
             new_analyzer order (s\<lparr>logFileOpen := open_now\<rparr>))))"

definition client_main ::
    "start_env \<Rightarrow> wstring list \<Rightarrow> wstring list \<Rightarrow> analyzer \<Rightarrow> client_error + analyzer" where
  "client_main env args order s =
     and_then (parse_args (winpcap_found env) args default_settings) (\<lambda>t.
       if set_collect t \<and> serverIp t \<noteq> [] \<and> \<not> archiver_found env then Inl PROGRAM_EXIT
       else new_client env order (s\<lparr>opts := start_options t, logFileOpen := False\<rparr>))"

subsection \<open>Requests of the server\<close>

definition onServerConnectEvent :: "bool \<Rightarrow> options \<Rightarrow> element \<Rightarrow> server \<Rightarrow> client_error + server" where
  "onServerConnectEvent ok os e s =
     (if el_name e = wide ''connect''
      then sendXML ok (if reconnecting s then wide ''reconnect'' else wide ''connect'')
             [(wide ''vm-server-id'', getOption os (wide ''vm-server-id'')),
              (wide ''vm-id'', getOption os (wide ''vm-id''))] s
      else Inr s)"

definition onServerPingEvent :: "bool \<Rightarrow> element \<Rightarrow> server \<Rightarrow> client_error + server" where
  "onServerPingEvent ok e s =
     (if el_name e = wide ''ping'' then sendXML ok (wide ''pong'') [] s else Inr s)"

text \<open>
  The thread of the client: without a server the analyzer runs until a key is pressed, with
  one it is the visitor that starts and stops it.
\<close>

definition client_run ::
    "analyzer_env \<Rightarrow> network \<Rightarrow> analyzer_step list \<Rightarrow> analyzer \<Rightarrow> client_error + analyzer" where
  "client_run env net xs s =
     (if getOption (opts s) (wide ''server'') = []
      then and_then (an_start s) (\<lambda>s. and_then (analyzer_run env xs s) (an_stop env))
      else case connectToServer net True (an_server s) of
        (ok, srv) \<Rightarrow> if ok then analyzer_run env xs (s\<lparr>an_server := srv\<rparr>) else Inr (s\<lparr>an_server := srv\<rparr>))"

subsection \<open>The options at the start\<close>

lemma getOption_addOption: "getOption (addOption n v os) m = (if m = n then v else getOption os m)"
  by (induction n v os rule: addOption.induct) (auto simp: getOption_def)

lemma start_option:
  "getOption (start_options t) (wide ''server'') = serverIp t"
  "getOption (start_options t) (wide ''port'') = serverPort t"
  "getOption (start_options t) (wide ''vm-server-id'') = vmServerId t"
  "getOption (start_options t) (wide ''vm-id'') = vmId t"
  "getOption (start_options t) (wide ''log-system-events-file'') = logSystemEventsFile t"
  "getOption (start_options t) (wide ''collect-modified-files'') = flag_text (set_collect t)"
  "getOption (start_options t) (wide ''capture-network-packets'') = flag_text (set_capture t)"
  by (simp_all add: start_options_def getOption_addOption, simp_all add: wide_def getOption_def)

lemma client_main_settings:
  assumes "client_main env args order s = Inr s'"
  obtains t where "parse_args (winpcap_found env) args default_settings = Inr t"
    "logSystemEventsFile t = []" "new_analyzer order (s\<lparr>opts := start_options t, logFileOpen := False\<rparr>) = Inr s'"
    "privileged env" "\<exists>i. lexical_int (serverPort t) = Inr i"
  using assms
  by (auto simp: client_main_def new_client_def and_then_Inr_iff start_option openLogFile_def
      split: if_split_asm)

text \<open>A client that has started keeps its dumper, and captures for good if it was asked to.\<close>

lemma started_client_keeps:
  assumes "client_main env args order s = Inr s1"
    and "parse_args (winpcap_found env) args default_settings = Inr t"
    and "wide ''capture-network-packets'' \<in> set order"
  shows "analyzer_ok s1" and "set_capture t \<Longrightarrow> captureNetworkPackets s1"
proof -
  let ?s = "s\<lparr>opts := start_options t, logFileOpen := False\<rparr>"
  have n: "new_analyzer order ?s = Inr s1"
    using assms(2) by (rule_tac client_main_settings [OF assms(1)]) simp
  show "analyzer_ok s1" and "set_capture t \<Longrightarrow> captureNetworkPackets s1"
    using new_analyzer_keeps [of ?s order] assms(3) n by (auto simp: start_option flag_text_def)
qed

end
