(* ===== verification/ServerClaims.thy ===== *)
theory ServerClaims
  imports ClientMain
begin

text \<open>
  The properties of the client's side towards the server: what it reads and sends, the visits
  it is asked for, and the analyzer from the start of the program on.
\<close>

subsection \<open>Reading and writing\<close>

text \<open>
  C39. Base 64. Encoding and decoding again gives the bytes back, with as many bytes behind them
  as there were padding characters: \<open>=\<close> is decoded like a digit.
\<close>

theorem base64_round_trip:
  "\<exists>pad. b64_decode (b64_encode xs @ 0 # rest) = Inr (xs @ pad) \<and>
    length pad = (3 - length xs mod 3) mod 3 \<and> length (b64_encode xs) = 4 * ((length xs + 2) div 3)"
  using b64_decode_encode length_padding_bytes length_b64_encode by blast

text \<open>
  C38. Escaping. \<open>xml_escape\<close> always returns, and escapes everything it should just when no
  special character stands so far back that the text before it, once escaped, is as long as
  the whole text was: the bound of its loop is the length of the original.
\<close>

theorem xml_escape_exact:
  "\<exists>w. xml_escape s = Inr w \<and>
    (w = escape_all s \<longleftrightarrow> \<not> (\<exists>p c q. s = p @ c # q \<and> special c \<and> length s \<le> length (escape_all p)))"
proof -
  obtain w where "xml_escape s = Inr w" using xml_escape_first by blast
  moreover have "(\<forall>p c q. s = p @ c # q \<longrightarrow> special c \<longrightarrow> length (escape_all p) < length s) \<longleftrightarrow>
      \<not> (\<exists>p c q. s = p @ c # q \<and> special c \<and> length s \<le> length (escape_all p))"
    unfolding not_le [symmetric] by blast
  ultimately show ?thesis using xml_escape_all_iff [of s] by auto
qed

lemma split_on_documents:
  "\<forall>d \<in> set ds. z \<notin> set d \<Longrightarrow> split_on z (concat (map (\<lambda>d. d @ [z]) ds)) = ds @ [[]]"
  by (induction ds) (simp_all add: split_on_free)

text \<open>
  C26. Framing. The documents of a stream are handed on whole, in order and nothing else,
  however the network cuts the stream into calls, as long as every call brings more than two
  bytes.
\<close>

theorem documents_received:
  assumes "\<forall>c \<in> set calls. 2 < length c" and "\<forall>d \<in> set ds. 0 \<notin> set d"
    and "concat calls = concat (map (\<lambda>d. d @ [0]) ds)"
  shows "fst (receive_run net [] (map Received calls) s) = ds"
  using receive_run_stream [OF assms(1), of "[]" net s] split_on_documents [OF assms(2)] assms(3) by simp

definition network0 :: network where
  "network0 = \<lparr>winsock = True, resolves = True, connects = \<lambda>n. True\<rparr>"

definition server0 :: server where
  "server0 = \<lparr>connected = True, reconnecting = False, receiver_running = True, wire = [], told = []\<rparr>"

theorem documents_received_witness:
  "fst (receive_run network0 [] (map Received [[1, 2, 0, 3], [4, 5, 0]]) server0) = [[1, 2], [3, 4, 5]]"
  by (rule documents_received) simp_all



subsection \<open>Visits\<close>

text \<open>
  C22. A request to visit. Its document reaches every listener for visits as one element, and the
  visitor makes one visit of it, last in its queue, with the program, the identifier, the time
  and the addresses of the request in order; in an address a blank has become a plus.
\<close>

theorem visit_request_received:
  assumes e: "e = Element (wide ''visit-event'')
      [(wide ''identifier'', ident), (wide ''program'', program), (wide ''time'', decimal t)] [] (map item us)"
    and "t < 2 ^ 31" and "us \<noteq> []" and c: "open_elements c = []"
  shows "parse_events (sax_events e) c =
      Inr (c\<lparr>delivered := delivered c @ map (\<lambda>l. (l, e)) (listeners_of (wide ''visit-event'') c)\<rparr>) \<and>
    (\<exists>v. onServerEvent e s = Inr (s\<lparr>toVisit := toVisit s @ [v], queue_set := True\<rparr>) \<and>
      ve_program v = program \<and> ve_identifier v = ident \<and> urlGroup v = (1 < length us) \<and>
      ve_urls v = map (\<lambda>u. new_url (map (\<lambda>c. if c = 0x20 then 0x2B else c) u) program (int t)) us)"
proof -
  have "proper e" "el_name e \<noteq> []" "el_name e = wide ''visit-event''"
    by (auto simp: e item_def wide_def)
  with parse_document [of e c] c onServerEvent_visit [OF assms(1-3)] show ?thesis by simp
qed

definition controller0 :: "nat controller" where
  "controller0 = connect_onServerEvent (wide ''visit-event'') 7
     \<lparr>open_elements = [], onServerEventMap = [], delivered = []\<rparr>"

definition visitor0 :: visitor where
  "visitor0 = \<lparr>applicationMap = Map.empty, toVisit = [], queue_set = False, notified = []\<rparr>"

definition visit_request0 :: element where
  "visit_request0 = Element (wide ''visit-event'')
     [(wide ''identifier'', [0x31]), (wide ''program'', [0x69]), (wide ''time'', decimal 30)] []
     (map item [[0x61, 0x20], [0x62]])"

theorem visit_request_received_witness:
  "parse_events (sax_events visit_request0) controller0 = Inr (controller0\<lparr>delivered :=
      delivered controller0 @ map (\<lambda>l. (l, visit_request0)) (listeners_of (wide ''visit-event'') controller0)\<rparr>) \<and>
    (\<exists>v. onServerEvent visit_request0 visitor0 =
        Inr (visitor0\<lparr>toVisit := toVisit visitor0 @ [v], queue_set := True\<rparr>) \<and>
      ve_program v = [0x69] \<and> ve_identifier v = [0x31] \<and> urlGroup v = (1 < length [[0x61 :: wchar, 0x20], [0x62]]) \<and>
      ve_urls v = map (\<lambda>u. new_url (map (\<lambda>c. if c = 0x20 then 0x2B else c) u) [0x69] (int 30))
        [[0x61, 0x20], [0x62]])"
  by (rule visit_request_received [OF visit_request0_def])
     (simp_all add: controller0_def connect_onServerEvent_def)

text \<open>
  C35. The queue of visits. However requests and turns of the visitor's thread follow each
  other, a turn never finds the queue empty; but the visits nobody will start before another
  one arrives never become fewer.
\<close>

theorem visits_left_behind:
  assumes "visitor_inv s" and "visitor_run s s'"
  shows "pred_option (\<lambda>r. \<exists>s''. r = Inr s'') (visitor_turn s') \<and> left_behind s \<le> left_behind s'"
  using visitor_run_inv [OF assms(2,1)] visitor_turn_safe [of s'] by (auto simp: option.pred_set)

definition visitor1 :: visitor where
  "visitor1 = visitor0\<lparr>toVisit := [new_visit_event, new_visit_event], queue_set := True\<rparr>"

theorem visits_left_behind_witness:
  "pred_option (\<lambda>r. \<exists>s''. r = Inr s'') (visitor_turn (visitor1\<lparr>queue_set := False, toVisit := [new_visit_event]\<rparr>)) \<and>
    left_behind visitor1 \<le> left_behind (visitor1\<lparr>queue_set := False, toVisit := [new_visit_event]\<rparr>)"
proof (rule visits_left_behind)
  show "visitor_inv visitor1" by (simp add: visitor_inv_def visitor1_def)
  show "visitor_run visitor1 (visitor1\<lparr>queue_set := False, toVisit := [new_visit_event]\<rparr>)"
    by (rule visitor_run.visitor_next [OF visitor_run.visitor_refl visitor_step.thread_turn])
       (simp add: visitor_turn_def visitor1_def visitor0_def)
qed

subsection \<open>The analyzer\<close>















end
