(* ===== verification/BrowserPool.thy ===== *)
theory BrowserPool
  imports Visiting "HOL-Library.Multiset"
begin

text \<open>
  The pool of threads that opens the addresses of a group: \<open>visitGroup\<close> and
  \<open>InternetExplorerWorker\<close> of \<open>Application_InternetExplorerBulk.cpp\<close>
  (\<open>Application_InternetExplorer.cpp\<close> has the same two). The caller of \<open>visitGroup\<close> and the
  workers are interleaved; a step is an access to what they share. One turn of the caller's
  scan is one step: of what it writes, the thread it is meant for looks at nothing before the
  event that comes last.
\<close>

subsection \<open>State\<close>

definition MAX_WORKER_THREADS :: nat where
  "MAX_WORKER_THREADS = 60"

abbreviation "WAIT_TIMEOUT \<equiv> 258 :: u32"

text \<open>Where a worker and where the caller is.\<close>

datatype worker_place = WaitsForData | Opening nat | Visited | Signals

datatype caller_place = Testing | Scanning nat | Awaiting | Counting u32 | Done

text \<open>
  The arrays of the file. A pointer to \<open>visit_information[k]\<close> is \<open>k\<close>; the instance and the
  address there are the \<open>k\<close>-th. The events reset themselves when a wait is satisfied.
  \<open>opened\<close> is a history of the visits that ended.
\<close>

record pool =
  worker_thread_busy :: "nat \<Rightarrow> bool"
  worker_thread_data :: "nat \<Rightarrow> nat option"
  worker_has_data :: "nat \<Rightarrow> bool"
  worker_finished :: "nat \<Rightarrow> bool"
  worker_at :: "nat \<Rightarrow> worker_place"
  caller_at :: caller_place
  group_urls :: "url list"
  n_visited_urls :: nat
  to_visit :: nat
  n_visiting :: nat
  opened :: "nat list"

text \<open>The plug-in is made, and a group is handed to it.\<close>

definition new_pool :: pool where
  "new_pool =
     \<lparr>worker_thread_busy = (\<lambda>_. False), worker_thread_data = (\<lambda>_. None), worker_has_data = (\<lambda>_. False),
      worker_finished = (\<lambda>_. False), worker_at = (\<lambda>_. WaitsForData), caller_at = Done, group_urls = [],
      n_visited_urls = 0, to_visit = 0, n_visiting = 0, opened = []\<rparr>"

definition start_group :: "url list \<Rightarrow> pool \<Rightarrow> pool" where
  "start_group us s =
     s\<lparr>caller_at := Testing, group_urls := us, n_visited_urls := 0, to_visit := 0, n_visiting := 0, opened := []\<rparr>"

subsection \<open>The caller\<close>

text \<open>\<open>at(to_visit)\<close> throws beyond the end.\<close>

definition give_work :: "nat \<Rightarrow> pool \<Rightarrow> client_error + pool" where
  "give_work i s =
     (if \<not> worker_thread_busy s i \<and> n_visiting s < length (group_urls s)
      then if to_visit s < length (group_urls s)
        then Inr (s\<lparr>worker_thread_data := (worker_thread_data s)(i := Some (to_visit s)),
               to_visit := Suc (to_visit s),
               worker_thread_busy := (worker_thread_busy s)(i := True),
               n_visiting := Suc (n_visiting s),
               worker_has_data := (worker_has_data s)(i := True)\<rparr>)
        else Inl OUT_OF_RANGE
      else Inr s)"

text \<open>The index is a signed number, and only its upper bound is tested.\<close>

definition counts_visit :: "u32 \<Rightarrow> pool \<Rightarrow> client_error + bool" where
  "counts_visit dwWait s =
     (if sint dwWait < int MAX_WORKER_THREADS
      then if 0 \<le> sint dwWait then Inr (\<not> worker_thread_busy s (nat (sint dwWait))) else Inl BUFFER_OVERRUN
      else Inr False)"

text \<open>
  The wait ends with the first event that is set, or, since it lasts a minute at most, without
  one. It does not fail: there are at most 64 handles.
\<close>

definition caller_turn :: "pool \<Rightarrow> client_error + pool" where
  "caller_turn s =
     (case caller_at s of
        Testing \<Rightarrow> Inr (s\<lparr>caller_at := (if n_visited_urls s < length (group_urls s) then Scanning 0 else Done)\<rparr>)
      | Scanning i \<Rightarrow>
          if i < MAX_WORKER_THREADS
          then and_then (give_work i s) (\<lambda>s'. Inr (s'\<lparr>caller_at := Scanning (Suc i)\<rparr>))
          else Inr (s\<lparr>caller_at := Awaiting\<rparr>)
      | Awaiting \<Rightarrow>
          (case find (worker_finished s) [0..<MAX_WORKER_THREADS] of
             Some i \<Rightarrow> Inr (s\<lparr>worker_finished := (worker_finished s)(i := False), caller_at := Counting (of_nat i)\<rparr>)
           | None \<Rightarrow> Inr (s\<lparr>caller_at := Counting WAIT_TIMEOUT\<rparr>))
      | Counting w \<Rightarrow>
          and_then (counts_visit w s) (\<lambda>b.
          Inr (s\<lparr>n_visited_urls := n_visited_urls s + (if b then 1 else 0), caller_at := Testing\<rparr>))
      | Done \<Rightarrow> Inr s)"

subsection \<open>A worker\<close>

text \<open>\<open>visit k\<close> is what \<open>visitUrl\<close> of the \<open>k\<close>-th instance does to its address.\<close>

definition worker_turn :: "(nat \<Rightarrow> url \<Rightarrow> url) \<Rightarrow> nat \<Rightarrow> pool \<Rightarrow> pool option" where
  "worker_turn visit i s =
     (case worker_at s i of
        WaitsForData \<Rightarrow>
          if worker_has_data s i
          then Some (s\<lparr>worker_has_data := (worker_has_data s)(i := False),
                 worker_at := (worker_at s)
                   (i := case worker_thread_data s i of Some k \<Rightarrow> Opening k | None \<Rightarrow> WaitsForData)\<rparr>)
          else None
      | Opening k \<Rightarrow>
          Some (s\<lparr>group_urls := (group_urls s)[k := visit k (group_urls s ! k)], opened := opened s @ [k],
            worker_at := (worker_at s)(i := Visited)\<rparr>)
      | Visited \<Rightarrow>
          Some (s\<lparr>worker_thread_busy := (worker_thread_busy s)(i := False),
            worker_at := (worker_at s)(i := Signals)\<rparr>)
      | Signals \<Rightarrow>
          Some (s\<lparr>worker_finished := (worker_finished s)(i := True),
            worker_at := (worker_at s)(i := WaitsForData)\<rparr>))"

inductive pool_step :: "(nat \<Rightarrow> url \<Rightarrow> url) \<Rightarrow> pool \<Rightarrow> pool \<Rightarrow> bool" for visit where
  caller: "caller_turn s = Inr s' \<Longrightarrow> pool_step visit s s'"
| worker: "i < MAX_WORKER_THREADS \<Longrightarrow> worker_turn visit i s = Some s' \<Longrightarrow> pool_step visit s s'"

inductive pool_run :: "(nat \<Rightarrow> url \<Rightarrow> url) \<Rightarrow> pool \<Rightarrow> pool \<Rightarrow> bool" for visit where
  pool_refl: "pool_run visit s s"
| pool_next: "pool_run visit s s' \<Longrightarrow> pool_step visit s' s'' \<Longrightarrow> pool_run visit s s''"

lemma pool_run_trans: "pool_run visit s' s'' \<Longrightarrow> pool_run visit s s' \<Longrightarrow> pool_run visit s s''"
  by (induction rule: pool_run.induct) (auto intro: pool_run.intros)

subsection \<open>What a worker holds and owes\<close>

text \<open>The visits it was given and has not ended, and the ends it has not been counted for.\<close>

definition held :: "pool \<Rightarrow> nat \<Rightarrow> nat multiset" where
  "held s i =
     (if worker_has_data s i then {#the (worker_thread_data s i)#} else {#}) +
     (case worker_at s i of Opening k \<Rightarrow> {#k#} | _ \<Rightarrow> {#})"

definition owed :: "pool \<Rightarrow> nat \<Rightarrow> nat" where
  "owed s i =
     (if worker_finished s i then 1 else 0) +
     (case worker_at s i of Visited \<Rightarrow> 1 | Signals \<Rightarrow> 1 | _ \<Rightarrow> 0)"

definition woken :: "pool \<Rightarrow> nat" where
  "woken s = (case caller_at s of Counting w \<Rightarrow> if w = WAIT_TIMEOUT then 0 else 1 | _ \<Rightarrow> 0)"

definition worker_ok :: "pool \<Rightarrow> nat \<Rightarrow> bool" where
  "worker_ok s i \<longleftrightarrow>
     (worker_thread_busy s i \<longleftrightarrow>
        worker_has_data s i \<or> (case worker_at s i of Opening k \<Rightarrow> True | Visited \<Rightarrow> True | _ \<Rightarrow> False)) \<and>
     (worker_has_data s i \<longrightarrow> worker_at s i \<in> {WaitsForData, Signals} \<and> worker_thread_data s i \<noteq> None)"

definition caller_ok :: "pool \<Rightarrow> bool" where
  "caller_ok s \<longleftrightarrow>
     (case caller_at s of
        Testing \<Rightarrow> True
      | Scanning i \<Rightarrow> i \<le> MAX_WORKER_THREADS \<and> n_visited_urls s < length (group_urls s)
      | Awaiting \<Rightarrow> n_visited_urls s < length (group_urls s)
      | Counting w \<Rightarrow> (w = WAIT_TIMEOUT \<or> (\<exists>i < MAX_WORKER_THREADS. w = of_nat i)) \<and>
          n_visited_urls s < length (group_urls s)
      | Done \<Rightarrow> length (group_urls s) \<le> n_visited_urls s)"

definition pool_inv :: "(nat \<Rightarrow> url \<Rightarrow> url) \<Rightarrow> url list \<Rightarrow> pool \<Rightarrow> bool" where
  "pool_inv visit us s \<longleftrightarrow>
     length (group_urls s) = length us \<and> n_visiting s = to_visit s \<and> to_visit s \<le> length us \<and> caller_ok s \<and>
     (\<forall>i < MAX_WORKER_THREADS. worker_ok s i) \<and>
     mset (opened s) + (\<Sum>i < MAX_WORKER_THREADS. held s i) = mset_set {..<to_visit s} \<and>
     n_visited_urls s + woken s + (\<Sum>i < MAX_WORKER_THREADS. owed s i) \<le> length (opened s) \<and>
     (\<forall>k < length us. group_urls s ! k = (if k \<in> set (opened s) then visit k (us ! k) else us ! k))"

text \<open>No worker has anything to do, and no event is set.\<close>

definition pool_idle :: "pool \<Rightarrow> bool" where
  "pool_idle s \<longleftrightarrow>
     (\<forall>i < MAX_WORKER_THREADS. \<not> worker_thread_busy s i \<and> \<not> worker_has_data s i \<and>
        \<not> worker_finished s i \<and> worker_at s i = WaitsForData)"

lemma new_pool_idle: "pool_idle new_pool"
  by (simp add: pool_idle_def new_pool_def)

lemma start_group_inv: "pool_idle s \<Longrightarrow> pool_inv visit us (start_group us s)"
  by (simp add: pool_inv_def start_group_def pool_idle_def caller_ok_def worker_ok_def held_def owed_def woken_def)

text \<open>A sum over the workers in which one of them changed.\<close>

lemma sum_change:
  fixes f g :: "nat \<Rightarrow> 'a :: comm_monoid_add"
  assumes "i < n" and "\<And>j. j \<noteq> i \<Longrightarrow> g j = f j"
  obtains r where "(\<Sum>j < n. f j) = f i + r" and "(\<Sum>j < n. g j) = g i + r"
proof -
  have "(\<Sum>j < n. f j) = f i + (\<Sum>j \<in> {..<n} - {i}. f j)" "(\<Sum>j < n. g j) = g i + (\<Sum>j \<in> {..<n} - {i}. g j)"
    using assms(1) by (simp_all add: sum.remove)
  moreover have "(\<Sum>j \<in> {..<n} - {i}. g j) = (\<Sum>j \<in> {..<n} - {i}. f j)"
    by (rule sum.cong) (use assms(2) in auto)
  ultimately show ?thesis using that by simp
qed

subsection \<open>The invariant is kept\<close>

lemma held_below:
  assumes "pool_inv visit us s" and "i < MAX_WORKER_THREADS" and "k \<in># held s i"
  shows "k < to_visit s \<and> k \<notin> set (opened s)"
proof -
  obtain r where r: "(\<Sum>j < MAX_WORKER_THREADS. held s j) = held s i + r"
    using sum_change [of i MAX_WORKER_THREADS "held s" "held s"] assms(2) by metis
  obtain h where h: "held s i = add_mset k h"
    using assms(3) by (metis mset_add)
  have m: "mset_set {..<to_visit s} = add_mset k (mset (opened s) + h + r)"
    using assms(1) r h by (simp add: pool_inv_def ac_simps)
  have "k \<in># mset_set {..<to_visit s}" by (simp only: m) simp
  moreover have "count (mset_set {..<to_visit s}) k \<le> 1"
    by (simp add: count_mset_set')
  then have "count (mset (opened s)) k = 0" unfolding m by simp
  then have "k \<notin> set (opened s)" by (simp flip: count_mset_0_iff)
  ultimately show ?thesis by simp
qed

lemma worker_turn_inv:
  assumes inv: "pool_inv visit us s" and i: "i < MAX_WORKER_THREADS" and t: "worker_turn visit i s = Some s'"
  shows "pool_inv visit us s'"
proof -
  have ok: "worker_ok s i" using inv i by (simp add: pool_inv_def)
  have "worker_has_data s' j = worker_has_data s j" "worker_thread_data s' j = worker_thread_data s j"
    "worker_at s' j = worker_at s j" "worker_finished s' j = worker_finished s j"
    "worker_thread_busy s' j = worker_thread_busy s j" if "j \<noteq> i" for j
    using t that by (auto simp: worker_turn_def split: worker_place.splits if_split_asm)
  then have h: "held s' j = held s j" "owed s' j = owed s j" "worker_ok s' j = worker_ok s j" if "j \<noteq> i" for j
    using that by (simp_all add: held_def owed_def worker_ok_def)
  obtain rh where rh: "(\<Sum>j < MAX_WORKER_THREADS. held s j) = held s i + rh"
    "(\<Sum>j < MAX_WORKER_THREADS. held s' j) = held s' i + rh"
    using sum_change [OF i, of "held s'" "held s"] h(1) by metis
  obtain ro where ro: "(\<Sum>j < MAX_WORKER_THREADS. owed s j) = owed s i + ro"
    "(\<Sum>j < MAX_WORKER_THREADS. owed s' j) = owed s' i + ro"
    using sum_change [OF i, of "owed s'" "owed s"] h(2) by metis
  have ok': "worker_ok s' i"
    using t ok by (auto simp: worker_turn_def worker_ok_def split: worker_place.splits if_split_asm option.splits)
  then have oks: "\<forall>j < MAX_WORKER_THREADS. worker_ok s' j"
    using h(3) inv unfolding pool_inv_def by metis
  have same: "caller_at s' = caller_at s" "n_visited_urls s' = n_visited_urls s" "to_visit s' = to_visit s"
    "n_visiting s' = n_visiting s" "length (group_urls s') = length (group_urls s)"
    using t by (auto simp: worker_turn_def split: worker_place.splits if_split_asm)
  have ms: "mset (opened s') + held s' i = mset (opened s) + held s i"
    using t ok by (auto simp: worker_turn_def held_def worker_ok_def split: worker_place.splits if_split_asm option.splits)
  have ow: "owed s' i + length (opened s) \<le> owed s i + length (opened s')"
    using t by (auto simp: worker_turn_def owed_def split: worker_place.splits if_split_asm option.splits)
  have vs: "\<forall>k < length us. group_urls s' ! k = (if k \<in> set (opened s') then visit k (us ! k) else us ! k)"
  proof (cases "\<exists>k. worker_at s i = Opening k")
    case True
    then obtain k where k: "worker_at s i = Opening k" by blast
    have "k < to_visit s \<and> k \<notin> set (opened s)"
      by (rule held_below [OF inv i]) (simp add: held_def k)
    then show ?thesis
      using t k inv by (auto simp: worker_turn_def pool_inv_def nth_list_update)
  next
    case False
    then have "group_urls s' = group_urls s" "opened s' = opened s"
      using t by (auto simp: worker_turn_def split: worker_place.splits if_split_asm)
    then show ?thesis using inv by (simp add: pool_inv_def)
  qed
  have "mset (opened s') + (\<Sum>j < MAX_WORKER_THREADS. held s' j) = mset_set {..<to_visit s'}"
    using inv ms by (simp add: pool_inv_def rh same add.assoc [symmetric])
  moreover have "n_visited_urls s' + woken s' + (\<Sum>j < MAX_WORKER_THREADS. owed s' j) \<le> length (opened s')"
    using inv ow by (simp add: pool_inv_def ro same woken_def)
  moreover have "caller_ok s'"
    using inv unfolding pool_inv_def caller_ok_def same by simp
  ultimately show ?thesis
    using inv oks vs by (simp add: pool_inv_def same)
qed

text \<open>A turn of the scan gives the worker the next address or changes nothing.\<close>

lemma give_work_cases:
  assumes "pool_inv visit us s"
  obtains (given) "\<not> worker_thread_busy s i" "to_visit s < length us"
      "give_work i s = Inr (s\<lparr>worker_thread_data := (worker_thread_data s)(i := Some (to_visit s)),
               to_visit := Suc (to_visit s), worker_thread_busy := (worker_thread_busy s)(i := True),
               n_visiting := Suc (to_visit s), worker_has_data := (worker_has_data s)(i := True)\<rparr>)"
    | (kept) "worker_thread_busy s i \<or> to_visit s = length us" "give_work i s = Inr s"
proof -
  have "length (group_urls s) = length us" "n_visiting s = to_visit s" "to_visit s \<le> length us"
    using assms by (simp_all add: pool_inv_def)
  then show ?thesis
    using given kept by (cases "\<not> worker_thread_busy s i \<and> to_visit s < length us") (auto simp: give_work_def)
qed

lemma give_work_inv:
  assumes inv: "pool_inv visit us s" and i: "i < MAX_WORKER_THREADS" and at: "caller_at s = Scanning i"
  shows "\<exists>s'. give_work i s = Inr s' \<and> pool_inv visit us (s'\<lparr>caller_at := Scanning (Suc i)\<rparr>)"
  using inv
proof (cases rule: give_work_cases [where i = i])
  case given
  define s' where "s' = s\<lparr>worker_thread_data := (worker_thread_data s)(i := Some (to_visit s)),
               to_visit := Suc (to_visit s), worker_thread_busy := (worker_thread_busy s)(i := True),
               n_visiting := Suc (to_visit s), worker_has_data := (worker_has_data s)(i := True),
               caller_at := Scanning (Suc i)\<rparr>"
  have ok: "worker_ok s i" using inv i by (simp add: pool_inv_def)
  have h: "held s' j = held s j" "worker_ok s' j = worker_ok s j" if "j \<noteq> i" for j
    using that by (simp_all add: s'_def held_def worker_ok_def)
  obtain rh where rh: "(\<Sum>j < MAX_WORKER_THREADS. held s j) = held s i + rh"
    "(\<Sum>j < MAX_WORKER_THREADS. held s' j) = held s' i + rh"
    using sum_change [OF i, of "held s'" "held s"] h(1) by metis
  have "worker_ok s' i" "held s i = {#}" "held s' i = {#to_visit s#}"
    using ok given(1) by (auto simp: s'_def worker_ok_def held_def split: worker_place.splits)
  moreover have "owed s' j = owed s j" for j by (simp add: s'_def owed_def)
  moreover have "woken s' = woken s" "caller_ok s'"
    using inv i at by (simp_all add: s'_def woken_def caller_ok_def pool_inv_def)
  moreover have "\<forall>j < MAX_WORKER_THREADS. worker_ok s' j"
    using inv h(2) \<open>worker_ok s' i\<close> unfolding pool_inv_def by metis
  ultimately have "pool_inv visit us s'"
    using inv given(2) rh unfolding pool_inv_def
    by (auto simp: s'_def lessThan_Suc)
  then show ?thesis using given(3) by (simp add: s'_def)
next
  case kept
  have eq: "held (s\<lparr>caller_at := Scanning (Suc i)\<rparr>) j = held s j"
    "owed (s\<lparr>caller_at := Scanning (Suc i)\<rparr>) j = owed s j"
    "worker_ok (s\<lparr>caller_at := Scanning (Suc i)\<rparr>) j = worker_ok s j" for j
    by (simp_all add: held_def owed_def worker_ok_def)
  show ?thesis
    using inv i at kept(2) by (simp add: pool_inv_def caller_ok_def woken_def eq)
qed

lemma wait_index:
  assumes "i < MAX_WORKER_THREADS"
  shows "sint (of_nat i :: u32) = int i" and "(of_nat i :: u32) \<noteq> WAIT_TIMEOUT"
proof -
  have "i < 60" using assms by (simp add: MAX_WORKER_THREADS_def)
  then show "sint (of_nat i :: u32) = int i"
    by (simp add: signed_of_nat signed_take_bit_int_eq_self)
  have "unat (of_nat i :: u32) = i" using \<open>i < 60\<close> by (simp add: unsigned_of_nat take_bit_nat_eq_self)
  then show "(of_nat i :: u32) \<noteq> WAIT_TIMEOUT" using \<open>i < 60\<close> by auto
qed

text \<open>What a wait of this pool returns is never below the array.\<close>

lemma counts_visit_wait:
  "counts_visit WAIT_TIMEOUT s = Inr False"
  "i < MAX_WORKER_THREADS \<Longrightarrow> counts_visit (of_nat i) s = Inr (\<not> worker_thread_busy s i)"
  by (simp_all add: counts_visit_def wait_index) (simp add: MAX_WORKER_THREADS_def)

lemma find_worker:
  assumes "find P [0..<n] = Some i"
  shows "i < n \<and> P i"
  using assms by (auto simp: find_Some_iff)

lemma caller_turn_inv:
  assumes inv: "pool_inv visit us s"
  shows "\<exists>s'. caller_turn s = Inr s' \<and> pool_inv visit us s'"
proof (cases "caller_at s")
  case Testing
  have "held (s\<lparr>caller_at := p\<rparr>) = held s" "owed (s\<lparr>caller_at := p\<rparr>) = owed s"
    "worker_ok (s\<lparr>caller_at := p\<rparr>) = worker_ok s" for p
    by (simp_all add: fun_eq_iff held_def owed_def worker_ok_def)
  then show ?thesis
    using inv Testing by (simp add: caller_turn_def pool_inv_def caller_ok_def woken_def)
next
  case (Scanning i)
  have "held (s\<lparr>caller_at := p\<rparr>) = held s" "owed (s\<lparr>caller_at := p\<rparr>) = owed s"
    "worker_ok (s\<lparr>caller_at := p\<rparr>) = worker_ok s" for p
    by (simp_all add: fun_eq_iff held_def owed_def worker_ok_def)
  then have "pool_inv visit us (s\<lparr>caller_at := Awaiting\<rparr>)"
    using inv Scanning by (simp add: pool_inv_def caller_ok_def woken_def)
  then show ?thesis
    using give_work_inv [OF inv _ Scanning] by (auto simp: caller_turn_def Scanning)
next
  case Awaiting
  show ?thesis
  proof (cases "find (worker_finished s) [0..<MAX_WORKER_THREADS]")
    case None
    have "held (s\<lparr>caller_at := p\<rparr>) = held s" "owed (s\<lparr>caller_at := p\<rparr>) = owed s"
      "worker_ok (s\<lparr>caller_at := p\<rparr>) = worker_ok s" for p
      by (simp_all add: fun_eq_iff held_def owed_def worker_ok_def)
    then show ?thesis
      using inv Awaiting None by (simp add: caller_turn_def pool_inv_def caller_ok_def woken_def)
  next
    case (Some i)
    let ?t = "s\<lparr>worker_finished := (worker_finished s)(i := False), caller_at := Counting (of_nat i)\<rparr>"
    have i: "i < MAX_WORKER_THREADS" "worker_finished s i" using find_worker [OF Some] by auto
    have "owed ?t j = owed s j" if "j \<noteq> i" for j using that by (simp add: owed_def)
    then obtain r where r: "(\<Sum>j < MAX_WORKER_THREADS. owed s j) = owed s i + r"
      "(\<Sum>j < MAX_WORKER_THREADS. owed ?t j) = owed ?t i + r"
      using sum_change [OF i(1), of "owed ?t" "owed s"] by metis
    have "owed s i = Suc (owed ?t i)" using i(2) by (simp add: owed_def)
    moreover have "held ?t = held s" "worker_ok ?t = worker_ok s"
      by (simp_all add: fun_eq_iff held_def worker_ok_def)
    moreover have "caller_ok ?t" using inv i(1) Awaiting by (auto simp: pool_inv_def caller_ok_def)
    moreover have "woken ?t = 1" "woken s = 0" using wait_index(2) [OF i(1)] Awaiting by (simp_all add: woken_def)
    ultimately have "pool_inv visit us ?t" using inv r by (simp add: pool_inv_def)
    then show ?thesis by (simp add: caller_turn_def Awaiting Some)
  qed
next
  case (Counting w)
  have eq: "held (s\<lparr>n_visited_urls := m, caller_at := p\<rparr>) = held s"
    "owed (s\<lparr>n_visited_urls := m, caller_at := p\<rparr>) = owed s"
    "worker_ok (s\<lparr>n_visited_urls := m, caller_at := p\<rparr>) = worker_ok s" for m p
    by (simp_all add: fun_eq_iff held_def owed_def worker_ok_def)
  have "w = WAIT_TIMEOUT \<or> (\<exists>i < MAX_WORKER_THREADS. w = of_nat i)"
    using inv Counting by (simp add: pool_inv_def caller_ok_def)
  then have "\<exists>b. counts_visit w s = Inr b \<and> (b \<longrightarrow> w \<noteq> WAIT_TIMEOUT)"
  proof (elim disjE exE conjE)
    assume "w = WAIT_TIMEOUT"
    then show ?thesis using counts_visit_wait(1) [of s] by (intro exI [of _ False]) simp
  next
    fix i assume "i < MAX_WORKER_THREADS" "w = of_nat i"
    then show ?thesis using counts_visit_wait(2) [of i s] wait_index(2) [of i] by simp
  qed
  then obtain b where b: "counts_visit w s = Inr b" "b \<longrightarrow> w \<noteq> WAIT_TIMEOUT" by blast
  have "woken s = (if w = WAIT_TIMEOUT then 0 else 1)" using Counting by (simp add: woken_def)
  then have w: "(if b then 1 else 0) \<le> woken s" using b(2) by simp
  have "pool_inv visit us (s\<lparr>n_visited_urls := n_visited_urls s + (if b then 1 else 0), caller_at := Testing\<rparr>)"
    (is "pool_inv _ _ ?t")
  proof -
    have "woken ?t = 0" "caller_ok ?t" by (simp_all add: woken_def caller_ok_def)
    then have "n_visited_urls ?t + woken ?t + m \<le> n_visited_urls s + woken s + m" for m
      using w by simp
    then show ?thesis
      using inv \<open>caller_ok ?t\<close> unfolding pool_inv_def eq by (auto intro: le_trans)
  qed
  then show ?thesis using b(1) by (simp add: caller_turn_def Counting)
next
  case Done
  then show ?thesis using inv by (simp add: caller_turn_def)
qed

lemma pool_run_inv: "pool_run visit s s' \<Longrightarrow> pool_inv visit us s \<Longrightarrow> pool_inv visit us s'"
proof (induction rule: pool_run.induct)
  case (pool_next s s' s'')
  from pool_next.hyps(2) show ?case
    by cases (use pool_next caller_turn_inv [of visit us s'] worker_turn_inv [of visit us s'] in auto)
qed simp

subsection \<open>When the caller is done\<close>

text \<open>Every address was opened once, and the workers are as they were before the group.\<close>

lemma size_held: "(\<Sum>i < n. size (held s i)) = size (\<Sum>i < n. held s i)"
  by (induction n) simp_all

lemma all_opened:
  assumes inv: "pool_inv visit us s" and "length us \<le> n_visited_urls s"
  shows "pool_idle s \<and> group_urls s = map (\<lambda>k. visit k (us ! k)) [0..<length us]"
proof -
  have "mset (opened s) + (\<Sum>i < MAX_WORKER_THREADS. held s i) = mset_set {..<to_visit s}"
    using inv by (simp add: pool_inv_def)
  then have "size (mset (opened s)) + size (\<Sum>i < MAX_WORKER_THREADS. held s i) = to_visit s"
    by (metis card_lessThan size_mset_set size_union)
  then have sz: "length (opened s) + (\<Sum>i < MAX_WORKER_THREADS. size (held s i)) = to_visit s"
    unfolding size_held by simp
  have "n_visited_urls s + woken s + (\<Sum>i < MAX_WORKER_THREADS. owed s i) \<le> length (opened s)"
    "to_visit s \<le> length us"
    using inv by (simp_all add: pool_inv_def)
  then have z: "(\<Sum>i < MAX_WORKER_THREADS. owed s i) = 0" "(\<Sum>i < MAX_WORKER_THREADS. size (held s i)) = 0"
    and tv: "to_visit s = length us"
    using assms(2) sz by linarith+
  have idle: "pool_idle s"
    unfolding pool_idle_def
  proof (intro allI impI)
    fix i assume i: "i < MAX_WORKER_THREADS"
    have "owed s i = 0" "held s i = {#}" using z i by simp_all
    moreover have "worker_ok s i" using inv i by (simp add: pool_inv_def)
    ultimately show "\<not> worker_thread_busy s i \<and> \<not> worker_has_data s i \<and> \<not> worker_finished s i \<and> worker_at s i = WaitsForData"
      by (cases "worker_at s i") (auto simp: owed_def held_def worker_ok_def split: if_split_asm)
  qed
  have "mset (opened s) + (\<Sum>i < MAX_WORKER_THREADS. held s i) = mset_set {..<length us}"
    using inv tv by (simp add: pool_inv_def)
  moreover have "(\<Sum>i < MAX_WORKER_THREADS. held s i) = {#}" using z(2) by simp
  ultimately have "mset (opened s) = mset_set {..<length us}" by (metis add.right_neutral)
  then have "set (opened s) = {..<length us}" by (metis finite_lessThan finite_set_mset_mset_set set_mset_mset)
  then have "\<forall>k < length us. group_urls s ! k = visit k (us ! k)" using inv by (simp add: pool_inv_def)
  moreover have "length (group_urls s) = length us" using inv by (simp add: pool_inv_def)
  ultimately have "group_urls s = map (\<lambda>k. visit k (us ! k)) [0..<length us]"
    by (intro nth_equalityI) (simp_all del: upt_Suc)
  with idle show ?thesis by (rule conjI)
qed

subsection \<open>One group after another\<close>

text \<open>
  The groups a plug-in has visited since it was made: their addresses, what visiting did to
  them, and the addresses afterwards.
\<close>

type_synonym group_record = "url list \<times> (nat \<Rightarrow> url \<Rightarrow> url) \<times> url list"

inductive pool_groups :: "group_record list \<Rightarrow> pool \<Rightarrow> bool" where
  no_group: "pool_groups [] new_pool"
| next_group: "pool_groups gs p \<Longrightarrow> pool_run visit (start_group us p) s \<Longrightarrow> caller_at s = Done \<Longrightarrow>
     pool_groups (gs @ [(us, visit, group_urls s)]) s"

definition visited_each :: "group_record \<Rightarrow> bool" where
  "visited_each = (\<lambda>(us, visit, rs). rs = map (\<lambda>k. visit k (us ! k)) [0..<length us])"

lemma pool_groups_idle: "pool_groups gs p \<Longrightarrow> pool_idle p \<and> list_all visited_each gs"
proof (induction rule: pool_groups.induct)
  case no_group
  then show ?case by (simp add: new_pool_idle)
next
  case (next_group gs p visit us s)
  have inv: "pool_inv visit us s" using pool_run_inv [OF next_group.hyps(2) start_group_inv] next_group.IH by blast
  then have "length us \<le> n_visited_urls s" using next_group.hyps(3) by (simp add: pool_inv_def caller_ok_def)
  then show ?case using all_opened [OF inv] next_group.IH by (simp add: visited_each_def)
qed

end
