(* ===== verification/BrowserPoolRuns.thy ===== *)
theory BrowserPoolRuns
  imports BrowserPool
begin

text \<open>
  How a group of addresses ends: a group of more than sixty can lose the end of a visit, and then
  \<open>visitGroup\<close> never returns; a group of at most sixty can always be brought to its end.
\<close>

subsection \<open>Visits that are never counted\<close>

text \<open>The visits that can still be counted, with those that were. No step makes it more.\<close>

definition countable_visits :: "pool \<Rightarrow> nat" where
  "countable_visits s =
     n_visited_urls s + woken s + (\<Sum>i < MAX_WORKER_THREADS. owed s i) +
     (\<Sum>i < MAX_WORKER_THREADS. size (held s i)) + (length (group_urls s) - to_visit s)"

lemma countable_visits_all: "pool_inv visit us s \<Longrightarrow> countable_visits s \<le> length us"
proof -
  assume inv: "pool_inv visit us s"
  then have "mset (opened s) + (\<Sum>i < MAX_WORKER_THREADS. held s i) = mset_set {..<to_visit s}"
    by (simp add: pool_inv_def)
  then have "size (mset (opened s)) + size (\<Sum>i < MAX_WORKER_THREADS. held s i) = to_visit s"
    by (metis card_lessThan size_mset_set size_union)
  then have "length (opened s) + (\<Sum>i < MAX_WORKER_THREADS. size (held s i)) = to_visit s"
    unfolding size_held by simp
  moreover have "n_visited_urls s + woken s + (\<Sum>i < MAX_WORKER_THREADS. owed s i) \<le> length (opened s)"
    "to_visit s \<le> length us" "length (group_urls s) = length us"
    using inv by (simp_all add: pool_inv_def)
  ultimately show ?thesis unfolding countable_visits_def by linarith
qed

lemma worker_turn_countable:
  assumes i: "i < MAX_WORKER_THREADS" and t: "worker_turn visit i s = Some s'" and ok: "worker_ok s i"
  shows "countable_visits s' \<le> countable_visits s"
proof -
  have "worker_has_data s' j = worker_has_data s j" "worker_thread_data s' j = worker_thread_data s j"
    "worker_at s' j = worker_at s j" "worker_finished s' j = worker_finished s j" if "j \<noteq> i" for j
    using t that by (auto simp: worker_turn_def split: worker_place.splits if_split_asm)
  then have h: "size (held s' j) + owed s' j = size (held s j) + owed s j" if "j \<noteq> i" for j
    using that by (simp add: held_def owed_def)
  obtain r where r: "(\<Sum>j < MAX_WORKER_THREADS. size (held s j) + owed s j) = size (held s i) + owed s i + r"
    "(\<Sum>j < MAX_WORKER_THREADS. size (held s' j) + owed s' j) = size (held s' i) + owed s' i + r"
    by (rule sum_change [OF i, of "\<lambda>j. size (held s' j) + owed s' j" "\<lambda>j. size (held s j) + owed s j", OF h])
  have "caller_at s' = caller_at s" "n_visited_urls s' = n_visited_urls s" "to_visit s' = to_visit s"
    "length (group_urls s') = length (group_urls s)"
    using t by (auto simp: worker_turn_def split: worker_place.splits if_split_asm)
  moreover have "size (held s' i) + owed s' i \<le> size (held s i) + owed s i"
    using t ok
    by (auto simp: worker_turn_def held_def owed_def worker_ok_def split: worker_place.splits if_split_asm option.splits)
  ultimately show ?thesis
    using r by (simp add: countable_visits_def woken_def sum.distrib)
qed

lemma countable_visits_same:
  assumes "worker_has_data t = worker_has_data s" "worker_thread_data t = worker_thread_data s"
    "worker_at t = worker_at s" "worker_finished t = worker_finished s" "to_visit t = to_visit s"
    "group_urls t = group_urls s" "n_visited_urls t + woken t \<le> n_visited_urls s + woken s"
  shows "countable_visits t \<le> countable_visits s"
proof -
  have "held t = held s" "owed t = owed s" by (simp_all add: fun_eq_iff held_def owed_def assms(1-4))
  then show ?thesis using assms by (simp add: countable_visits_def)
qed

lemma give_work_countable:
  assumes inv: "pool_inv visit us s" and i: "i < MAX_WORKER_THREADS" and g: "give_work i s = Inr s'"
  shows "countable_visits (s'\<lparr>caller_at := Scanning (Suc i)\<rparr>) \<le> n_visited_urls s +
    (\<Sum>i < MAX_WORKER_THREADS. owed s i) + (\<Sum>i < MAX_WORKER_THREADS. size (held s i)) + (length (group_urls s) - to_visit s)"
  using inv
proof (cases rule: give_work_cases [where i = i])
  case given
  let ?t = "s'\<lparr>caller_at := Scanning (Suc i)\<rparr>"
  have s': "s' = s\<lparr>worker_thread_data := (worker_thread_data s)(i := Some (to_visit s)),
               to_visit := Suc (to_visit s), worker_thread_busy := (worker_thread_busy s)(i := True),
               n_visiting := Suc (to_visit s), worker_has_data := (worker_has_data s)(i := True)\<rparr>"
    using g given(3) by simp
  have "held ?t j = held s j" if "j \<noteq> i" for j using that by (simp add: s' held_def)
  then obtain r where r: "(\<Sum>j < MAX_WORKER_THREADS. size (held s j)) = size (held s i) + r"
    "(\<Sum>j < MAX_WORKER_THREADS. size (held ?t j)) = size (held ?t i) + r"
    using sum_change [OF i, of "\<lambda>j. size (held ?t j)" "\<lambda>j. size (held s j)"] by metis
  have "worker_ok s i" "length (group_urls s) = length us" using inv i by (simp_all add: pool_inv_def)
  then have "held s i = {#}" "held ?t i = {#to_visit s#}"
    using given(1) by (auto simp: s' held_def worker_ok_def split: worker_place.splits)
  moreover have "owed ?t = owed s" by (simp add: s' fun_eq_iff owed_def)
  moreover have "n_visited_urls ?t = n_visited_urls s" "woken ?t = 0" "to_visit ?t = Suc (to_visit s)"
    "group_urls ?t = group_urls s" by (simp_all add: s' woken_def)
  ultimately show ?thesis
    using r given(2) \<open>length (group_urls s) = length us\<close> unfolding countable_visits_def by simp
next
  case kept
  have "held (s\<lparr>caller_at := p\<rparr>) = held s" "owed (s\<lparr>caller_at := p\<rparr>) = owed s" for p
    by (simp_all add: fun_eq_iff held_def owed_def)
  then show ?thesis using g kept(2) by (simp add: countable_visits_def woken_def)
qed

lemma caller_turn_countable:
  assumes inv: "pool_inv visit us s" and t: "caller_turn s = Inr s'"
  shows "countable_visits s' \<le> countable_visits s"
proof (cases "caller_at s")
  case Testing
  then show ?thesis
    using t by (intro countable_visits_same) (auto simp: caller_turn_def woken_def)
next
  case (Scanning i)
  show ?thesis
  proof (cases "i < MAX_WORKER_THREADS")
    case True
    then obtain s1 where s1: "give_work i s = Inr s1" "s' = s1\<lparr>caller_at := Scanning (Suc i)\<rparr>"
      using t Scanning by (auto simp: caller_turn_def and_then_Inr_iff)
    have "woken s = 0" using Scanning by (simp add: woken_def)
    then show ?thesis
      using give_work_countable [OF inv True s1(1)] unfolding s1(2) countable_visits_def [of s] by simp
  next
    case False
    then show ?thesis
      using t Scanning by (intro countable_visits_same) (auto simp: caller_turn_def woken_def)
  qed
next
  case Awaiting
  show ?thesis
  proof (cases "find (worker_finished s) [0..<MAX_WORKER_THREADS]")
    case None
    then show ?thesis
      using t Awaiting by (intro countable_visits_same) (auto simp: caller_turn_def woken_def)
  next
    case (Some i)
    have i: "i < MAX_WORKER_THREADS" "worker_finished s i" using find_worker [OF Some] by auto
    have s': "s' = s\<lparr>worker_finished := (worker_finished s)(i := False), caller_at := Counting (of_nat i)\<rparr>"
      using t by (simp add: caller_turn_def Awaiting Some)
    have h: "owed s' j = owed s j" if "j \<noteq> i" for j using that by (simp add: s' owed_def)
    obtain r where r: "(\<Sum>j < MAX_WORKER_THREADS. owed s j) = owed s i + r"
      "(\<Sum>j < MAX_WORKER_THREADS. owed s' j) = owed s' i + r"
      by (rule sum_change [OF i(1), of "owed s'" "owed s", OF h])
    have "owed s i = Suc (owed s' i)" using i(2) by (simp add: s' owed_def)
    moreover have "held s' = held s" by (simp add: s' fun_eq_iff held_def)
    moreover have "woken s' \<le> 1" "woken s = 0" using Awaiting by (simp_all add: s' woken_def)
    ultimately show ?thesis using r by (simp add: countable_visits_def s')
  qed
next
  case (Counting w)
  then obtain b where b: "counts_visit w s = Inr b"
    "s' = s\<lparr>n_visited_urls := n_visited_urls s + (if b then 1 else 0), caller_at := Testing\<rparr>"
    using t by (auto simp: caller_turn_def and_then_Inr_iff)
  have "b \<Longrightarrow> woken s = 1"
    using b(1) counts_visit_wait(1) [of s] Counting by (auto simp: woken_def)
  then show ?thesis
    by (intro countable_visits_same) (simp_all add: b(2) woken_def)
next
  case Done
  then show ?thesis using t by (simp add: caller_turn_def)
qed

lemma pool_run_countable:
  assumes "pool_run visit s s'" and "pool_inv visit us s"
  shows "countable_visits s' \<le> countable_visits s"
  using assms
proof (induction rule: pool_run.induct)
  case (pool_next s s' s'')
  have inv: "pool_inv visit us s'" using pool_run_inv pool_next by blast
  from pool_next.hyps(2) have "countable_visits s'' \<le> countable_visits s'"
  proof cases
    case caller
    then show ?thesis using caller_turn_countable [OF inv] by blast
  next
    case (worker i)
    then show ?thesis using worker_turn_countable [of i visit s' s''] inv by (simp add: pool_inv_def)
  qed
  then show ?case using pool_next by simp
qed simp

text \<open>Once a visit was missed the caller never gets to the end.\<close>

lemma missed_never_done:
  assumes "pool_inv visit us s" and "countable_visits s < length us" and "pool_run visit s s'"
  shows "caller_at s' \<noteq> Done"
proof
  assume d: "caller_at s' = Done"
  have "pool_inv visit us s'" using assms pool_run_inv by blast
  then have "length us \<le> n_visited_urls s'" using d by (simp add: pool_inv_def caller_ok_def)
  moreover have "n_visited_urls s' \<le> countable_visits s'" by (simp add: countable_visits_def)
  ultimately show False using assms pool_run_countable by fastforce
qed

text \<open>An event of a worker that has been given another address in the meantime is not counted.\<close>

lemma busy_worker_missed:
  assumes inv: "pool_inv visit us s" and "caller_at s = Counting (of_nat i)" "i < MAX_WORKER_THREADS"
    "worker_thread_busy s i"
  shows "\<exists>s'. caller_turn s = Inr s' \<and> countable_visits s' < length us"
proof -
  let ?t = "s\<lparr>caller_at := Testing\<rparr>"
  have "caller_turn s = Inr ?t"
    using assms by (simp add: caller_turn_def counts_visit_wait)
  moreover have "woken s = 1" "woken ?t = 0"
    using assms(2) wait_index(2) [OF assms(3)] by (simp_all add: woken_def)
  moreover have "held ?t = held s" "owed ?t = owed s" by (simp_all add: fun_eq_iff held_def owed_def)
  ultimately have "caller_turn s = Inr ?t \<and> Suc (countable_visits ?t) = countable_visits s"
    by (simp add: countable_visits_def)
  then show ?thesis using countable_visits_all [OF inv] by fastforce
qed

subsection \<open>A run that misses one\<close>

text \<open>What a scan leaves alone.\<close>

definition scanned :: "pool \<Rightarrow> pool \<Rightarrow> nat \<Rightarrow> bool" where
  "scanned s t m \<longleftrightarrow>
     worker_at t = worker_at s \<and> worker_finished t = worker_finished s \<and> n_visited_urls t = n_visited_urls s \<and>
     to_visit t \<le> to_visit s + m \<and>
     (\<forall>j. (worker_thread_busy s j \<longrightarrow> worker_thread_busy t j) \<and> (worker_has_data s j \<longrightarrow> worker_has_data t j))"

lemma scanned_trans: "scanned s t m \<Longrightarrow> scanned t u n \<Longrightarrow> scanned s u (m + n)"
  by (auto simp: scanned_def)

lemma caller_step: "caller_turn s = Inr s' \<Longrightarrow> pool_run visit s s'"
  by (rule pool_next [OF pool_refl caller])

lemma worker_step: "i < MAX_WORKER_THREADS \<Longrightarrow> worker_turn visit i s = Some s' \<Longrightarrow> pool_run visit s s'"
  by (rule pool_next [OF pool_refl worker])

lemma scan_to_wait:
  assumes "pool_inv visit us s" and "caller_at s = Scanning i" and "i \<le> MAX_WORKER_THREADS"
  shows "\<exists>t. pool_run visit s t \<and> caller_at t = Awaiting \<and> scanned s t (MAX_WORKER_THREADS - i)"
  using assms
proof (induction "MAX_WORKER_THREADS - i" arbitrary: s i)
  case 0
  then have "caller_turn s = Inr (s\<lparr>caller_at := Awaiting\<rparr>)" by (simp add: caller_turn_def)
  then show ?case by (intro exI [of _ "s\<lparr>caller_at := Awaiting\<rparr>"]) (simp add: caller_step scanned_def)
next
  case (Suc m)
  then have i: "i < MAX_WORKER_THREADS" by simp
  obtain s1 where s1: "give_work i s = Inr s1" "pool_inv visit us (s1\<lparr>caller_at := Scanning (Suc i)\<rparr>)"
    using give_work_inv [OF Suc.prems(1) i Suc.prems(2)] by blast
  let ?s1 = "s1\<lparr>caller_at := Scanning (Suc i)\<rparr>"
  have "caller_turn s = Inr ?s1" using i s1(1) by (simp add: caller_turn_def Suc.prems(2))
  then have r: "pool_run visit s ?s1" by (rule caller_step)
  have sc: "scanned s ?s1 1"
    using s1(1) by (auto simp: give_work_def scanned_def split: if_split_asm)
  have "m = MAX_WORKER_THREADS - Suc i" using Suc.hyps(2) by simp
  then obtain t where t: "pool_run visit ?s1 t" "caller_at t = Awaiting" "scanned ?s1 t (MAX_WORKER_THREADS - Suc i)"
    using Suc.hyps(1) [of "Suc i" ?s1] s1(2) i by auto
  have "1 + (MAX_WORKER_THREADS - Suc i) = MAX_WORKER_THREADS - i" using i by simp
  then have "scanned s t (MAX_WORKER_THREADS - i)" using scanned_trans [OF sc t(3)] by simp
  then show ?case using pool_run_trans [OF t(1) r] t(2) by blast
qed

lemma give_first:
  assumes "caller_at s = Scanning 0" and "\<not> worker_thread_busy s 0" and "pool_inv visit us s" and "to_visit s < length us"
  shows "\<exists>t. pool_run visit s t \<and> caller_at t = Scanning 1 \<and> worker_has_data t 0 \<and> worker_thread_busy t 0 \<and> scanned s t 1"
proof -
  have "n_visiting s = to_visit s" "length (group_urls s) = length us" using assms(3) by (simp_all add: pool_inv_def)
  then have "\<exists>t. caller_turn s = Inr t \<and> caller_at t = Scanning 1 \<and> worker_has_data t 0 \<and> worker_thread_busy t 0 \<and> scanned s t 1"
    using assms(1,2,4) by (simp add: caller_turn_def give_work_def MAX_WORKER_THREADS_def scanned_def)
  then show ?thesis using caller_step by blast
qed

text \<open>One scan, begun with the first worker free.\<close>

lemma scan_first:
  assumes "caller_at s = Testing" and "n_visited_urls s < length us" and "\<not> worker_thread_busy s 0"
    and "pool_inv visit us s" and "to_visit s < length us"
  shows "\<exists>t. pool_run visit s t \<and> caller_at t = Awaiting \<and> worker_has_data t 0 \<and> worker_thread_busy t 0 \<and>
    scanned s t MAX_WORKER_THREADS"
proof -
  let ?s = "s\<lparr>caller_at := Scanning 0\<rparr>"
  have "length (group_urls s) = length us" using assms(4) by (simp add: pool_inv_def)
  then have r: "pool_run visit s ?s"
    using assms(1,2) by (intro caller_step) (simp add: caller_turn_def)
  have inv: "pool_inv visit us ?s" by (rule pool_run_inv [OF r assms(4)])
  obtain t where t: "pool_run visit ?s t" "caller_at t = Scanning 1" "worker_has_data t 0" "worker_thread_busy t 0"
    "scanned ?s t 1"
    using give_first [of ?s visit us] inv assms(3,5) by auto
  obtain u where u: "pool_run visit t u" "caller_at u = Awaiting" "scanned t u (MAX_WORKER_THREADS - 1)"
    using scan_to_wait [OF pool_run_inv [OF t(1) inv] t(2)] by (auto simp: MAX_WORKER_THREADS_def)
  have "scanned ?s u MAX_WORKER_THREADS"
    using scanned_trans [OF t(5) u(3)] by (simp add: MAX_WORKER_THREADS_def)
  then have "scanned s u MAX_WORKER_THREADS" by (simp add: scanned_def)
  moreover have "worker_has_data u 0" "worker_thread_busy u 0"
    using t(3,4) u(3) by (simp_all add: scanned_def)
  ultimately show ?thesis
    using pool_run_trans [OF u(1) pool_run_trans [OF t(1) r]] u(2) by blast
qed

text \<open>The first worker opens its address, up to the point where it is no longer busy.\<close>

lemma open_first:
  assumes "pool_inv visit us s" and "worker_has_data s 0" and "worker_at s 0 = WaitsForData"
  shows "\<exists>t. pool_run visit s t \<and> caller_at t = caller_at s \<and> worker_at t 0 = Signals \<and> \<not> worker_thread_busy t 0 \<and>
    worker_finished t = worker_finished s \<and> n_visited_urls t = n_visited_urls s \<and> to_visit t = to_visit s"
proof -
  have z: "0 < MAX_WORKER_THREADS" by (simp add: MAX_WORKER_THREADS_def)
  then have "worker_ok s 0" using assms(1) by (simp add: pool_inv_def)
  then obtain k where k: "worker_thread_data s 0 = Some k" using assms(2) by (auto simp: worker_ok_def)
  let ?s1 = "s\<lparr>worker_has_data := (worker_has_data s)(0 := False), worker_at := (worker_at s)(0 := Opening k)\<rparr>"
  have "worker_turn visit 0 s = Some ?s1" using assms(2,3) k by (simp add: worker_turn_def)
  then have r1: "pool_run visit s ?s1" by (rule worker_step [OF z])
  let ?s2 = "?s1\<lparr>group_urls := (group_urls s)[k := visit k (group_urls s ! k)], opened := opened s @ [k],
      worker_at := (worker_at s)(0 := Visited)\<rparr>"
  have "worker_turn visit 0 ?s1 = Some ?s2" by (simp add: worker_turn_def)
  then have r2: "pool_run visit ?s1 ?s2" by (rule worker_step [OF z])
  let ?s3 = "?s2\<lparr>worker_thread_busy := (worker_thread_busy s)(0 := False), worker_at := (worker_at s)(0 := Signals)\<rparr>"
  have "worker_turn visit 0 ?s2 = Some ?s3" by (simp add: worker_turn_def)
  then have r3: "pool_run visit ?s2 ?s3" by (rule worker_step [OF z])
  show ?thesis
    by (intro exI [of _ ?s3] conjI pool_run_trans [OF r3 pool_run_trans [OF r2 r1]]) simp_all
qed

lemma time_out:
  assumes "caller_at s = Awaiting" and "\<And>i. i < MAX_WORKER_THREADS \<Longrightarrow> \<not> worker_finished s i"
  shows "pool_run visit s (s\<lparr>caller_at := Testing\<rparr>)"
proof -
  have "find (worker_finished s) [0..<MAX_WORKER_THREADS] = None" using assms(2) by (simp add: find_None_iff)
  then have "pool_run visit s (s\<lparr>caller_at := Counting WAIT_TIMEOUT\<rparr>)"
    using assms(1) by (intro caller_step) (simp add: caller_turn_def)
  moreover have "pool_run visit (s\<lparr>caller_at := Counting WAIT_TIMEOUT\<rparr>) (s\<lparr>caller_at := Testing\<rparr>)"
    by (intro caller_step) (simp add: caller_turn_def counts_visit_def MAX_WORKER_THREADS_def)
  ultimately show ?thesis by (rule pool_run_trans [rotated])
qed

lemma wake_first:
  assumes "caller_at s = Awaiting" and "worker_finished s 0"
  shows "caller_turn s = Inr (s\<lparr>worker_finished := (worker_finished s)(0 := False), caller_at := Counting (of_nat 0)\<rparr>)"
proof -
  have "[0..<MAX_WORKER_THREADS] = 0 # [1..<MAX_WORKER_THREADS]"
    by (simp add: MAX_WORKER_THREADS_def upt_conv_Cons)
  then show ?thesis using assms by (simp add: caller_turn_def)
qed

lemma large_group_missed:
  assumes idle: "pool_idle p" and n: "MAX_WORKER_THREADS < length us"
  shows "\<exists>s. pool_run visit (start_group us p) s \<and> pool_inv visit us s \<and> countable_visits s < length us"
proof -
  let ?s0 = "start_group us p"
  have z: "0 < MAX_WORKER_THREADS" by (simp add: MAX_WORKER_THREADS_def)
  have pos: "0 < length us" using n by linarith
  have inv0: "pool_inv visit us ?s0" by (rule start_group_inv [OF idle])
  have st: "caller_at ?s0 = Testing" "n_visited_urls ?s0 = 0" "to_visit ?s0 = 0" "\<not> worker_thread_busy ?s0 0"
    "worker_at ?s0 0 = WaitsForData" "\<And>i. i < MAX_WORKER_THREADS \<Longrightarrow> \<not> worker_finished ?s0 i"
    using idle z by (simp_all add: start_group_def pool_idle_def)
  obtain s1 where s1: "pool_run visit ?s0 s1" "caller_at s1 = Awaiting" "worker_has_data s1 0" "scanned ?s0 s1 MAX_WORKER_THREADS"
    using scan_first [OF st(1) _ st(4) inv0] pos st(2,3) by auto
  have inv1: "pool_inv visit us s1" by (rule pool_run_inv [OF s1(1) inv0])
  have sc1: "worker_at s1 0 = WaitsForData" "worker_finished s1 = worker_finished ?s0" "n_visited_urls s1 = 0"
    "to_visit s1 \<le> MAX_WORKER_THREADS"
    using s1(4) st by (simp_all add: scanned_def)
  obtain s2 where s2: "pool_run visit s1 s2" "caller_at s2 = Awaiting" "worker_at s2 0 = Signals" "\<not> worker_thread_busy s2 0"
    "worker_finished s2 = worker_finished ?s0" "n_visited_urls s2 = 0" "to_visit s2 \<le> MAX_WORKER_THREADS"
    using open_first [OF inv1 s1(3) sc1(1)] s1(2) sc1 by auto
  let ?s3 = "s2\<lparr>caller_at := Testing\<rparr>"
  have r3: "pool_run visit s2 ?s3" using time_out [OF s2(2)] s2(5) st(6) by simp
  have inv3: "pool_inv visit us ?s3" by (rule pool_run_inv [OF r3 pool_run_inv [OF s2(1) inv1]])
  obtain s4 where s4: "pool_run visit ?s3 s4" "caller_at s4 = Awaiting" "worker_thread_busy s4 0" "scanned ?s3 s4 MAX_WORKER_THREADS"
    using scan_first [OF _ _ _ inv3] s2(4,6,7) n pos by auto
  have "worker_at s4 0 = Signals" using s4(4) s2(3) by (simp add: scanned_def)
  let ?s5 = "s4\<lparr>worker_finished := (worker_finished s4)(0 := True), worker_at := (worker_at s4)(0 := WaitsForData)\<rparr>"
  let ?s6 = "?s5\<lparr>worker_finished := (worker_finished ?s5)(0 := False), caller_at := Counting (of_nat 0)\<rparr>"
  have r5: "pool_run visit s4 ?s5"
    using \<open>worker_at s4 0 = Signals\<close> by (intro worker_step [OF z]) (simp add: worker_turn_def)
  have r6: "pool_run visit ?s5 ?s6" by (intro caller_step wake_first) (simp_all add: s4(2))
  have r: "pool_run visit ?s0 ?s6"
    by (rule pool_run_trans [OF r6 pool_run_trans [OF r5 pool_run_trans [OF s4(1)
          pool_run_trans [OF r3 pool_run_trans [OF s2(1) s1(1)]]]]])
  obtain s7 where s7: "caller_turn ?s6 = Inr s7" "countable_visits s7 < length us"
    using busy_worker_missed [OF pool_run_inv [OF r inv0] _ z] s4(3) by auto
  have "pool_run visit ?s0 s7" by (rule pool_run_trans [OF caller_step [OF s7(1)] r])
  then show ?thesis using pool_run_inv [OF _ inv0] s7(2) by blast
qed

subsection \<open>Groups of at most sixty addresses\<close>

text \<open>No worker is given a second address, so no end of a visit is missed.\<close>

definition load :: "pool \<Rightarrow> nat \<Rightarrow> nat" where
  "load s i = owed s i + size (held s i)"

definition all_given :: "nat \<Rightarrow> pool \<Rightarrow> bool" where
  "all_given n s \<longleftrightarrow> to_visit s = n \<or>
     (case caller_at s of Testing \<Rightarrow> to_visit s = 0 \<and> n_visited_urls s = 0 | Scanning j \<Rightarrow> to_visit s = j | _ \<Rightarrow> False)"

definition small_inv :: "(nat \<Rightarrow> url \<Rightarrow> url) \<Rightarrow> url list \<Rightarrow> pool \<Rightarrow> bool" where
  "small_inv visit us s \<longleftrightarrow>
     pool_inv visit us s \<and> all_given (length us) s \<and>
     (\<forall>i < MAX_WORKER_THREADS. load s i \<le> (if i < to_visit s \<and> caller_at s \<noteq> Counting (of_nat i) then 1 else 0)) \<and>
     n_visited_urls s + woken s + (\<Sum>i < MAX_WORKER_THREADS. load s i) + (length us - to_visit s) = length us"

lemma small_inv_start: "pool_idle s \<Longrightarrow> small_inv visit us (start_group us s)"
proof -
  assume i: "pool_idle s"
  have "load (start_group us s) i = 0" if "i < MAX_WORKER_THREADS" for i
    using i that by (simp add: load_def owed_def held_def pool_idle_def start_group_def)
  moreover have "woken (start_group us s) = 0" by (simp add: woken_def start_group_def)
  ultimately show ?thesis
    using start_group_inv [OF i] by (simp add: small_inv_def) (simp add: start_group_def all_given_def)
qed

lemma worker_turn_load:
  assumes "worker_turn visit i s = Some s'" and "worker_ok s i" and "load s i \<le> 1"
  shows "load s' i = load s i \<and> load s i = 1"
  using assms
  by (auto simp: worker_turn_def load_def owed_def held_def worker_ok_def split: worker_place.splits if_split_asm option.splits)

lemma worker_turn_small:
  assumes inv: "small_inv visit us s" and i: "i < MAX_WORKER_THREADS" and t: "worker_turn visit i s = Some s'"
  shows "small_inv visit us s'"
proof -
  have p: "pool_inv visit us s" and ok: "worker_ok s i" and l: "load s i \<le> 1"
    using inv i by (auto simp: small_inv_def pool_inv_def split: if_split_asm)
  have li: "load s' i = load s i" using worker_turn_load [OF t ok l] by simp
  have same: "worker_has_data s' j = worker_has_data s j" "worker_thread_data s' j = worker_thread_data s j"
    "worker_at s' j = worker_at s j" "worker_finished s' j = worker_finished s j" if "j \<noteq> i" for j
    using t that by (auto simp: worker_turn_def split: worker_place.splits if_split_asm)
  have "load s' j = load s j" for j
    using li same [of j] by (cases "j = i") (simp_all add: load_def owed_def held_def)
  moreover have "caller_at s' = caller_at s" "n_visited_urls s' = n_visited_urls s" "to_visit s' = to_visit s"
    using t by (auto simp: worker_turn_def split: worker_place.splits if_split_asm)
  ultimately have "load s' = load s" "caller_at s' = caller_at s" "n_visited_urls s' = n_visited_urls s"
    "to_visit s' = to_visit s" by (simp_all add: fun_eq_iff)
  note eq = this
  have "woken s' = woken s" "all_given (length us) s' = all_given (length us) s"
    unfolding woken_def all_given_def eq by simp_all
  then show ?thesis
    using inv worker_turn_inv [OF p i t] unfolding small_inv_def eq by simp
qed

lemma no_load_not_busy: "worker_ok s i \<Longrightarrow> load s i = 0 \<Longrightarrow> \<not> worker_thread_busy s i"
  by (auto simp: worker_ok_def load_def owed_def held_def split: worker_place.splits if_split_asm)

lemma load_same:
  assumes "worker_has_data t = worker_has_data s" "worker_thread_data t = worker_thread_data s"
    "worker_at t = worker_at s" "worker_finished t = worker_finished s"
  shows "load t = load s"
  by (simp add: fun_eq_iff load_def owed_def held_def assms)

lemma give_work_small:
  assumes inv: "small_inv visit us s" and i: "i < MAX_WORKER_THREADS" and at: "caller_at s = Scanning i"
    and g: "give_work i s = Inr s1"
  shows "small_inv visit us (s1\<lparr>caller_at := Scanning (Suc i)\<rparr>)"
proof -
  let ?t = "s1\<lparr>caller_at := Scanning (Suc i)\<rparr>"
  have p: "pool_inv visit us s" using inv by (simp add: small_inv_def)
  have pt: "pool_inv visit us ?t" using give_work_inv [OF p i at] g by auto
  have ag: "to_visit s = length us \<or> to_visit s = i"
    using inv at by (simp add: small_inv_def all_given_def)
  have w: "woken s = 0" "woken ?t = 0" by (simp_all add: woken_def at)
  show ?thesis
    using p
  proof (cases rule: give_work_cases [where i = i])
    case given
    have s1: "s1 = s\<lparr>worker_thread_data := (worker_thread_data s)(i := Some (to_visit s)),
               to_visit := Suc (to_visit s), worker_thread_busy := (worker_thread_busy s)(i := True),
               n_visiting := Suc (to_visit s), worker_has_data := (worker_has_data s)(i := True)\<rparr>"
      using g given(3) by simp
    have tv: "to_visit s = i" "i < length us" using ag given(2) by auto
    have lo: "load ?t j = load s j" if "j \<noteq> i" for j
      using that by (simp add: s1 load_def owed_def held_def)
    obtain r where r: "(\<Sum>j < MAX_WORKER_THREADS. load s j) = load s i + r"
      "(\<Sum>j < MAX_WORKER_THREADS. load ?t j) = load ?t i + r"
      by (rule sum_change [OF i, of "load ?t" "load s", OF lo])
    have "load s i = 0" using inv i tv(1) by (auto simp: small_inv_def)
    then have "load ?t i = 1" by (auto simp: s1 load_def owed_def held_def split: worker_place.splits if_split_asm)
    have "\<forall>j < MAX_WORKER_THREADS. load ?t j \<le> (if j < Suc i then 1 else 0)"
    proof (intro allI impI)
      fix j assume "j < MAX_WORKER_THREADS"
      then have "load s j \<le> (if j < i then 1 else 0)" using inv tv(1) at by (simp add: small_inv_def)
      then show "load ?t j \<le> (if j < Suc i then 1 else 0)"
        using lo [of j] \<open>load ?t i = 1\<close> by (cases "j = i") (simp_all split: if_split_asm)
    qed
    moreover have "n_visited_urls s + (load s i + r) + (length us - i) = length us"
      using inv w tv(1) by (simp add: small_inv_def r(1))
    ultimately show ?thesis
      using pt w(2) tv \<open>load s i = 0\<close> \<open>load ?t i = 1\<close>
      unfolding small_inv_def r(2) by (simp add: s1 all_given_def)
  next
    case kept
    have s1: "s1 = s" using g kept(2) by simp
    have lo: "load ?t = load s" by (rule load_same) (simp_all add: s1)
    have "to_visit s = length us"
    proof (rule ccontr)
      assume ne: "to_visit s \<noteq> length us"
      then have "to_visit s = i" "worker_thread_busy s i" using ag kept(1) by auto
      moreover have "load s i = 0" using inv i \<open>to_visit s = i\<close> by (auto simp: small_inv_def)
      moreover have "worker_ok s i" using p i by (simp add: pool_inv_def)
      ultimately show False using no_load_not_busy by blast
    qed
    then show ?thesis using inv pt w unfolding small_inv_def lo by (simp add: s1 all_given_def at)
  qed
qed

lemma caller_turn_small:
  assumes inv: "small_inv visit us s" and n: "length us \<le> MAX_WORKER_THREADS" and t: "caller_turn s = Inr s'"
  shows "small_inv visit us s'"
proof -
  have p: "pool_inv visit us s" using inv by (simp add: small_inv_def)
  have p': "pool_inv visit us s'" using caller_turn_inv [OF p] t by auto
  have len: "length (group_urls s) = length us" using p by (simp add: pool_inv_def)
  show ?thesis
  proof (cases "caller_at s")
    case Testing
    have lo: "load s' = load s" using t Testing by (intro load_same) (auto simp: caller_turn_def)
    have w: "woken s' = 0" "woken s = 0" using t Testing by (auto simp: caller_turn_def woken_def)
    have s': "s' = s\<lparr>caller_at := (if n_visited_urls s < length us then Scanning 0 else Done)\<rparr>"
      using t by (simp add: caller_turn_def Testing len)
    show ?thesis
      using inv p' w unfolding small_inv_def lo by (auto simp: s' all_given_def Testing)
  next
    case (Scanning i)
    show ?thesis
    proof (cases "i < MAX_WORKER_THREADS")
      case True
      then obtain s1 where s1: "give_work i s = Inr s1" "s' = s1\<lparr>caller_at := Scanning (Suc i)\<rparr>"
        using t Scanning by (auto simp: caller_turn_def and_then_Inr_iff)
      show ?thesis unfolding s1(2) by (rule give_work_small [OF inv True Scanning s1(1)])
    next
      case False
      have s': "s' = s\<lparr>caller_at := Awaiting\<rparr>" using t False by (simp add: caller_turn_def Scanning)
      have lo: "load s' = load s" by (rule load_same) (simp_all add: s')
      have "to_visit s \<le> length us" using p by (simp add: pool_inv_def)
      then have "to_visit s = length us" using inv n False by (auto simp: small_inv_def all_given_def Scanning)
      moreover have "woken s' = 0" "woken s = 0" by (simp_all add: s' woken_def Scanning)
      ultimately show ?thesis using inv p' unfolding small_inv_def lo by (simp add: s' all_given_def Scanning)
    qed
  next
    case Awaiting
    have tv: "to_visit s = length us" using inv by (simp add: small_inv_def all_given_def Awaiting)
    show ?thesis
    proof (cases "find (worker_finished s) [0..<MAX_WORKER_THREADS]")
      case None
      have s': "s' = s\<lparr>caller_at := Counting WAIT_TIMEOUT\<rparr>" using t by (simp add: caller_turn_def Awaiting None)
      have lo: "load s' = load s" by (rule load_same) (simp_all add: s')
      have "WAIT_TIMEOUT \<noteq> of_nat j" if "j < MAX_WORKER_THREADS" for j using wait_index(2) [OF that] by metis
      moreover have "woken s' = 0" "woken s = 0" by (simp_all add: s' woken_def Awaiting)
      ultimately show ?thesis
        using inv p' tv unfolding small_inv_def lo by (simp add: s' all_given_def Awaiting)
    next
      case (Some i)
      have i: "i < MAX_WORKER_THREADS" "worker_finished s i" using find_worker [OF Some] by auto
      have s': "s' = s\<lparr>worker_finished := (worker_finished s)(i := False), caller_at := Counting (of_nat i)\<rparr>"
        using t by (simp add: caller_turn_def Awaiting Some)
      have h: "load s' j = load s j" if "j \<noteq> i" for j using that by (simp add: s' load_def owed_def held_def)
      obtain r where r: "(\<Sum>j < MAX_WORKER_THREADS. load s j) = load s i + r"
        "(\<Sum>j < MAX_WORKER_THREADS. load s' j) = load s' i + r"
        by (rule sum_change [OF i(1), of "load s'" "load s", OF h])
      have up: "load s j \<le> (if j < length us then 1 else 0)" if "j < MAX_WORKER_THREADS" for j
        using inv that tv by (simp add: small_inv_def Awaiting)
      have "load s i = Suc (load s' i)" using i(2) by (simp add: s' load_def owed_def held_def)
      then have li: "load s i = 1" "load s' i = 0" using up [OF i(1)] by (auto split: if_split_asm)
      have "\<forall>j < MAX_WORKER_THREADS. load s' j \<le> (if j < length us \<and> j \<noteq> i then 1 else 0)"
        using up h li(2) by (metis le_zero_eq order_refl)
      moreover have "j < MAX_WORKER_THREADS \<Longrightarrow> (Counting (of_nat i) \<noteq> Counting (of_nat j)) = (j \<noteq> i)" for j
        using wait_index(1) [OF i(1)] wait_index(1) [of j] by (metis caller_place.inject(2) of_nat_eq_iff)
      moreover have "woken s' = 1" "woken s = 0"
        using wait_index(2) [OF i(1)] by (simp_all add: s' woken_def Awaiting)
      ultimately show ?thesis
        using inv p' tv r li unfolding small_inv_def by (simp add: s' all_given_def Awaiting)
    qed
  next
    case (Counting w)
    have tv: "to_visit s = length us" using inv by (simp add: small_inv_def all_given_def Counting)
    have "w = WAIT_TIMEOUT \<or> (\<exists>i < MAX_WORKER_THREADS. w = of_nat i)"
      using p Counting by (simp add: pool_inv_def caller_ok_def)
    then have "counts_visit w s = Inr (w \<noteq> WAIT_TIMEOUT)"
    proof (elim disjE exE conjE)
      assume "w = WAIT_TIMEOUT"
      then show ?thesis by (simp add: counts_visit_wait)
    next
      fix i assume i: "i < MAX_WORKER_THREADS" "w = of_nat i"
      have "load s i = 0" using inv i Counting by (auto simp: small_inv_def)
      moreover have "worker_ok s i" using p i(1) by (simp add: pool_inv_def)
      ultimately have "\<not> worker_thread_busy s i" by (rule no_load_not_busy [rotated])
      then show ?thesis using i wait_index(2) [OF i(1)] by (simp add: counts_visit_wait)
    qed
    then have s': "s' = s\<lparr>n_visited_urls := n_visited_urls s + (if w \<noteq> WAIT_TIMEOUT then 1 else 0), caller_at := Testing\<rparr>"
      using t by (simp add: caller_turn_def Counting)
    have lo: "load s' = load s" by (rule load_same) (simp_all add: s')
    have "\<forall>i < MAX_WORKER_THREADS. load s i \<le> (if i < length us then 1 else 0)"
      using inv tv by (auto simp: small_inv_def split: if_split_asm)
    moreover have "woken s = (if w \<noteq> WAIT_TIMEOUT then 1 else 0)" "woken s' = 0" by (simp_all add: s' woken_def Counting)
    ultimately show ?thesis using inv p' tv unfolding small_inv_def lo by (simp add: s' all_given_def)
  next
    case Done
    then show ?thesis using inv t by (simp add: caller_turn_def)
  qed
qed

lemma pool_run_small:
  "pool_run visit s s' \<Longrightarrow> small_inv visit us s \<Longrightarrow> length us \<le> MAX_WORKER_THREADS \<Longrightarrow> small_inv visit us s'"
proof (induction rule: pool_run.induct)
  case (pool_next s s' s'')
  then have "small_inv visit us s'" by blast
  from pool_next.hyps(2) this show ?case
    using pool_next.prems(2) by cases (auto intro: caller_turn_small worker_turn_small)
qed simp

subsection \<open>The end can always be reached\<close>

definition work_left :: "pool \<Rightarrow> nat \<Rightarrow> nat" where
  "work_left s i =
     (if worker_has_data s i then 4 else 0) +
     (case worker_at s i of WaitsForData \<Rightarrow> 0 | Opening k \<Rightarrow> 3 | Visited \<Rightarrow> 2 | Signals \<Rightarrow> 1)"

definition round_left :: "pool \<Rightarrow> nat" where
  "round_left s =
     (case caller_at s of
        Testing \<Rightarrow> MAX_WORKER_THREADS + 3
      | Scanning i \<Rightarrow> MAX_WORKER_THREADS + 2 - i
      | Awaiting \<Rightarrow> 1
      | Counting w \<Rightarrow> if w = WAIT_TIMEOUT then MAX_WORKER_THREADS + 4 else 0
      | Done \<Rightarrow> 0)"

definition pool_measures :: "(pool \<Rightarrow> nat) list" where
  "pool_measures =
     [\<lambda>s. length (group_urls s) - n_visited_urls s, round_left, \<lambda>s. \<Sum>i < MAX_WORKER_THREADS. work_left s i]"

lemma worker_turn_progress:
  assumes inv: "pool_inv visit us s" and i: "i < MAX_WORKER_THREADS" and t: "worker_turn visit i s = Some s'"
  shows "(s', s) \<in> measures pool_measures"
proof -
  have "worker_ok s i" using inv i by (simp add: pool_inv_def)
  have same: "worker_has_data s' j = worker_has_data s j" "worker_at s' j = worker_at s j" if "j \<noteq> i" for j
    using t that by (auto simp: worker_turn_def split: worker_place.splits if_split_asm)
  have h: "work_left s' j = work_left s j" if "j \<noteq> i" for j
    using same [OF that] by (simp add: work_left_def)
  obtain r where r: "(\<Sum>j < MAX_WORKER_THREADS. work_left s j) = work_left s i + r"
    "(\<Sum>j < MAX_WORKER_THREADS. work_left s' j) = work_left s' i + r"
    by (rule sum_change [OF i, of "work_left s'" "work_left s", OF h])
  have "work_left s' i < work_left s i"
    using t \<open>worker_ok s i\<close>
    by (auto simp: worker_turn_def work_left_def worker_ok_def split: worker_place.splits if_split_asm option.splits)
  moreover have "caller_at s' = caller_at s" "n_visited_urls s' = n_visited_urls s"
    "length (group_urls s') = length (group_urls s)"
    using t by (auto simp: worker_turn_def split: worker_place.splits if_split_asm)
  ultimately show ?thesis using r by (simp add: pool_measures_def round_left_def)
qed

text \<open>When every worker waits, the caller gets on: an event it waits for is set.\<close>

lemma caller_turn_progress:
  assumes inv: "small_inv visit us s" and n: "length us \<le> MAX_WORKER_THREADS" and nd: "caller_at s \<noteq> Done"
    and idle: "\<And>i. i < MAX_WORKER_THREADS \<Longrightarrow> worker_turn visit i s = None"
  shows "\<exists>s'. caller_turn s = Inr s' \<and> (s', s) \<in> measures pool_measures"
proof -
  have p: "pool_inv visit us s" using inv by (simp add: small_inv_def)
  then obtain s' where s': "caller_turn s = Inr s'" using caller_turn_inv by blast
  have len: "length (group_urls s) = length us" using p by (simp add: pool_inv_def)
  have cok: "caller_ok s" using p by (simp add: pool_inv_def)
  have "(s', s) \<in> measures pool_measures"
  proof (cases "caller_at s")
    case Testing
    then show ?thesis
      using s' by (cases "n_visited_urls s < length (group_urls s)") (auto simp: caller_turn_def pool_measures_def round_left_def)
  next
    case (Scanning i)
    have "i \<le> MAX_WORKER_THREADS" using cok Scanning by (simp add: caller_ok_def)
    moreover have "group_urls s' = group_urls s \<and> n_visited_urls s' = n_visited_urls s \<and>
        caller_at s' = (if i < MAX_WORKER_THREADS then Scanning (Suc i) else Awaiting)"
      using s' Scanning by (auto simp: caller_turn_def give_work_def and_then_Inr_iff split: if_split_asm)
    ultimately show ?thesis by (auto simp: pool_measures_def round_left_def Scanning)
  next
    case Awaiting
    show ?thesis
    proof (cases "find (worker_finished s) [0..<MAX_WORKER_THREADS]")
      case None
      have z: "load s i = 0" if "i < MAX_WORKER_THREADS" for i
        using idle [OF that] None that
        by (auto simp: worker_turn_def load_def owed_def held_def find_None_iff split: worker_place.splits if_split_asm)
      have "to_visit s = length us" "woken s = 0"
        using inv by (simp_all add: small_inv_def all_given_def woken_def Awaiting)
      then have "n_visited_urls s = length us" using inv z by (simp add: small_inv_def)
      then show ?thesis using cok by (simp add: caller_ok_def Awaiting len)
    next
      case (Some i)
      have "i < MAX_WORKER_THREADS" using find_worker [OF Some] by simp
      then have "(of_nat i :: u32) \<noteq> WAIT_TIMEOUT" by (rule wait_index(2))
      then show ?thesis
        using s' by (auto simp: caller_turn_def Awaiting Some pool_measures_def round_left_def)
    qed
  next
    case (Counting w)
    have lt: "n_visited_urls s < length (group_urls s)" using cok by (simp add: caller_ok_def Counting)
    show ?thesis
    proof (cases "w = WAIT_TIMEOUT")
      case True
      then show ?thesis
        using s' by (auto simp: caller_turn_def Counting counts_visit_wait pool_measures_def round_left_def)
    next
      case False
      then obtain i where i: "i < MAX_WORKER_THREADS" "w = of_nat i" using cok by (auto simp: caller_ok_def Counting)
      have "load s i = 0" using inv i Counting by (auto simp: small_inv_def)
      moreover have "worker_ok s i" using p i(1) by (simp add: pool_inv_def)
      ultimately have "\<not> worker_thread_busy s i" by (rule no_load_not_busy [rotated])
      then have "counts_visit w s = Inr True" using i by (simp add: counts_visit_wait)
      then show ?thesis using s' lt by (auto simp: caller_turn_def Counting pool_measures_def)
    qed
  next
    case Done
    then show ?thesis using nd by simp
  qed
  then show ?thesis using s' by blast
qed

lemma small_group_ends:
  assumes "small_inv visit us s" and "length us \<le> MAX_WORKER_THREADS"
  shows "\<exists>t. pool_run visit s t \<and> caller_at t = Done"
  using assms(1)
proof (induction s rule: wf_induct_rule [OF wf_measures [of pool_measures]])
  case (1 s)
  have p: "pool_inv visit us s" using 1(2) by (simp add: small_inv_def)
  have go_on: "\<exists>t. pool_run visit s t \<and> caller_at t = Done"
    if "pool_step visit s s'" "(s', s) \<in> measures pool_measures" for s'
  proof -
    have r: "pool_run visit s s'" by (rule pool_next [OF pool_refl that(1)])
    then show ?thesis using 1(1) [OF that(2) pool_run_small [OF r 1(2) assms(2)]] pool_run_trans by blast
  qed
  show ?case
  proof (cases "caller_at s = Done")
    case True
    then show ?thesis using pool_refl by blast
  next
    case nd: False
    show ?thesis
    proof (cases "\<exists>i < MAX_WORKER_THREADS. worker_turn visit i s \<noteq> None")
      case True
      then obtain i s' where "i < MAX_WORKER_THREADS" "worker_turn visit i s = Some s'" by auto
      then show ?thesis using go_on [OF pool_step.worker] worker_turn_progress [OF p] by blast
    next
      case False
      then show ?thesis using caller_turn_progress [OF 1(2) assms(2) nd] go_on [OF pool_step.caller] by blast
    qed
  qed
qed

end
