(* ===== verification/AppProcess.thy ===== *)
theory AppProcess
  imports Visiting ExclusionList
begin

text \<open>
  What the plug-ins do with the processes of an application: the handler of one process
  (\<open>ProcessHandler.cpp\<close>), the list of all processes, the loops that wait for a process to come
  or go, and the download of a file to open (\<open>FileDownloader.cpp\<close>).
\<close>

abbreviation "CAPTURE_VISITATION_NETWORK_ERROR \<equiv> 0x10000110 :: u32"
abbreviation "CAPTURE_VISITATION_PROCESS_ERROR \<equiv> 0x10000111 :: u32"
abbreviation "CAPTURE_VISITATION_TIMEOUT_ERROR \<equiv> 0x10000112 :: u32"
abbreviation "CAPTURE_VISITATION_ATTACH_PROCESS_ERROR \<equiv> 0x10000114 :: u32"
abbreviation "CAPTURE_VISITATION_WARNING \<equiv> 0x10000300 :: u32"
abbreviation "CAPTURE_PE_PROCESS_ALREADY_TERMINATED \<equiv> 0x10005001 :: u32"
abbreviation "CAPTURE_NE_CANT_DOWNLOAD_TEMP_FILE \<equiv> 0x10005000 :: u32"
abbreviation "CAPTURE_NE_CONNECT_ERROR_DL_TEMP_FILE \<equiv> 0x10005001 :: u32"

subsection \<open>The list of processes\<close>

text \<open>
  What the system answers when it is asked for its processes: whether \<open>EnumProcesses\<close>
  succeeded, what the array and the number of bytes hold afterwards (both are not set before,
  and a call that fails need not set them), the image of a process if it can be opened, and
  the error of the attempt to terminate it, if any.
\<close>

record process_list =
  enum_ok :: bool
  aProcesses :: "u32 list"
  cbNeeded :: u32
  image_of :: "u32 \<Rightarrow> wstring option"
  terminate_error :: "u32 \<Rightarrow> u32 option"

text \<open>\<open>find_last_of\<close> and \<open>erase\<close>: \<open>npos + 1\<close> is zero, and then nothing is erased.\<close>

definition exe_name :: "wstring \<Rightarrow> wstring" where
  "exe_name path = (case wfind_last 0x5C path of None \<Rightarrow> path | Some i \<Rightarrow> drop (i + 1) path)"

text \<open>\<open>wcsicmp\<close> is zero.\<close>

definition compareName :: "text_env \<Rightarrow> process_list \<Rightarrow> u32 \<Rightarrow> wstring \<Rightarrow> bool" where
  "compareName env ps pid name \<longleftrightarrow>
     lower_case env (case image_of ps pid of None \<Rightarrow> wide ''<unknown>'' | Some n \<Rightarrow> n) = lower_case env name"

text \<open>The loop over the array: \<open>n\<close> entries from the \<open>i\<close>-th.\<close>

fun each_process :: "(u32 \<Rightarrow> 'a \<Rightarrow> 'a) \<Rightarrow> u32 list \<Rightarrow> nat \<Rightarrow> nat \<Rightarrow> 'a \<Rightarrow> client_error + 'a" where
  "each_process f ps 0 i a = Inr a"
| "each_process f ps (Suc n) i a =
     (if i < length ps
      then each_process f ps n (Suc i) (if ps ! i \<noteq> 0 then f (ps ! i) a else a)
      else Inl BUFFER_OVERRUN)"

definition process_count :: "process_list \<Rightarrow> nat" where
  "process_count ps = unat (cbNeeded ps) div 4"

text \<open>Terminating every process of an image; the last error wins.\<close>

definition terminate_named ::
    "text_env \<Rightarrow> process_list \<Rightarrow> wstring \<Rightarrow> u32 \<Rightarrow> client_error + u32" where
  "terminate_named env ps name r =
     each_process (\<lambda>pid r. if compareName env ps pid name
          then (case terminate_error ps pid of None \<Rightarrow> r | Some e \<Rightarrow> e) else r)
       (aProcesses ps) (process_count ps) 0 (if enum_ok ps then r else -1)"

subsection \<open>The handler of a process\<close>

record process_handler =
  m_fullPathToExe :: wstring
  m_parameters :: wstring
  ph_processId :: u32

definition new_process_handler :: "wstring \<Rightarrow> wstring \<Rightarrow> process_handler" where
  "new_process_handler path parameters =
     \<lparr>m_fullPathToExe = path,
      m_parameters = exe_name path @
        (if parameters \<noteq> [] \<and> hd parameters \<noteq> 0x20 then 0x20 # parameters else parameters),
      ph_processId = 0\<rparr>"

text \<open>\<open>CreateProcess\<close> gives an error or the identifier of the process.\<close>

definition executeProcess :: "u32 + u32 \<Rightarrow> process_handler \<Rightarrow> u32 \<times> process_handler" where
  "executeProcess created h =
     (case created of Inl e \<Rightarrow> (e, h) | Inr pid \<Rightarrow> (0, h\<lparr>ph_processId := pid\<rparr>))"

definition isOpen :: "text_env \<Rightarrow> process_list \<Rightarrow> process_handler \<Rightarrow> client_error + bool" where
  "isOpen env ps h =
     (if \<not> enum_ok ps then Inr False
      else each_process (\<lambda>pid b. b \<or> compareName env ps pid (exe_name (m_fullPathToExe h)))
        (aProcesses ps) (process_count ps) 0 False)"

text \<open>\<open>own\<close> is the error of terminating the process of the handler itself.\<close>

definition closeProcess ::
    "text_env \<Rightarrow> u32 option \<Rightarrow> process_list \<Rightarrow> process_handler \<Rightarrow> client_error + u32" where
  "closeProcess env own ps h =
     terminate_named env ps (exe_name (m_fullPathToExe h)) (case own of None \<Rightarrow> 0 | Some e \<Rightarrow> e)"

subsection \<open>Waiting\<close>

text \<open>
  The loop asks, and asks again after a tenth of a second until the answer is the wanted one
  or the time is up. The result is the number of tenths; that many sums of \<open>0.1\<close> reach the
  limits of 20, 30 and 60 seconds after exactly 200, 300 and 600 rounds.
\<close>

function wait_for :: "nat \<Rightarrow> bool \<Rightarrow> (nat \<Rightarrow> client_error + bool) \<Rightarrow> nat \<Rightarrow> client_error + nat" where
  "wait_for limit wanted answer w =
     and_then (answer w) (\<lambda>b.
     if b \<noteq> wanted \<and> w < limit then wait_for limit wanted answer (Suc w) else Inr w)"
  by pat_completeness auto
termination by (relation "measure (\<lambda>(limit, wanted, answer, w). limit - w)") auto

declare wait_for.simps [simp del]

subsection \<open>Downloads\<close>

datatype progress = DownloadingData | EndDownloadData | OtherProgress

record downloader =
  hDownloaded :: bool
  hConnected :: bool
  bDownloading :: bool

definition new_downloader :: downloader where
  "new_downloader = \<lparr>hDownloaded = False, hConnected = False, bDownloading = False\<rparr>"

definition OnProgress :: "progress \<Rightarrow> downloader \<Rightarrow> downloader" where
  "OnProgress p d =
     (case p of
        DownloadingData \<Rightarrow>
          if \<not> bDownloading d then d\<lparr>bDownloading := True, hConnected := True\<rparr> else d
      | EndDownloadData \<Rightarrow>
          (if \<not> bDownloading d then d\<lparr>bDownloading := True, hConnected := True\<rparr> else d)
            \<lparr>hDownloaded := True\<rparr>
      | OtherProgress \<Rightarrow> d)"

text \<open>
  \<open>before\<close> and \<open>after\<close> are what is reported up to the end of the first and of the second wait;
  an event of a wait that is satisfied is reset. The result is the status and the name of the
  file; an address without a dot ends in an exception.
\<close>

definition Download ::
    "wstring \<Rightarrow> progress list \<Rightarrow> progress list \<Rightarrow> wstring \<Rightarrow> client_error + (u32 \<times> wstring)" where
  "Download temp before after what =
     and_then (wsubstr (wfind_last 0x2E what) None what) (\<lambda>extension.
     let toFile = temp @ wide ''tempFile'' @ extension;
         d = fold OnProgress before new_downloader
     in Inr (if \<not> hConnected d then (CAPTURE_NE_CONNECT_ERROR_DL_TEMP_FILE, toFile)
             else if \<not> hDownloaded (fold OnProgress after (d\<lparr>hConnected := False\<rparr>))
             then (CAPTURE_NE_CANT_DOWNLOAD_TEMP_FILE, toFile)
             else (0, toFile)))"

subsection \<open>Facts\<close>

lemma exe_name_path: "0x5C \<notin> set n \<Longrightarrow> exe_name (p @ 0x5C # n) = n"
  by (simp add: exe_name_def wfind_last_append)

lemma exe_name_plain: "0x5C \<notin> set n \<Longrightarrow> exe_name n = n"
proof -
  assume "0x5C \<notin> set n"
  then have w: "wfind_last 0x5C n = None" by simp
  show ?thesis by (simp only: exe_name_def w option.case)
qed

text \<open>The loop is a fold over the entries that are not zero, and leaves the array when told too much.\<close>

lemma each_process_fold:
  "i + n \<le> length ps \<Longrightarrow>
     each_process f ps n i a = Inr (fold f (filter (\<lambda>p. p \<noteq> 0) (take n (drop i ps))) a)"
proof (induction n arbitrary: i a)
  case (Suc n)
  have "take (Suc n) (drop i ps) = ps ! i # take n (drop (Suc i) ps)"
    using Suc.prems by (simp add: take_Suc_conv_app_nth Cons_nth_drop_Suc [symmetric])
  then show ?case using Suc by simp
qed simp

lemma each_process_overrun:
  "length ps < i + n \<Longrightarrow> i \<le> length ps \<Longrightarrow> each_process f ps n i a = Inl BUFFER_OVERRUN"
  by (induction n arbitrary: i a) auto

lemma isOpen_iff:
  assumes "enum_ok ps" and "process_count ps \<le> length (aProcesses ps)"
  shows "isOpen env ps h = Inr (\<exists>pid \<in> set (take (process_count ps) (aProcesses ps)).
     pid \<noteq> 0 \<and> compareName env ps pid (exe_name (m_fullPathToExe h)))"
proof -
  have f: "fold (\<lambda>pid b. b \<or> P pid) xs b \<longleftrightarrow> b \<or> (\<exists>x \<in> set xs. P x)" for P :: "u32 \<Rightarrow> bool" and xs b
    by (induction xs arbitrary: b) auto
  show ?thesis
    using assms by (simp add: isOpen_def each_process_fold f) blast
qed

text \<open>The wait ends with the first wanted answer or at the limit, whatever the answer is there.\<close>

lemma wait_for_result:
  assumes "\<And>w. answer w = Inr (a w)" and "from \<le> limit"
  shows "wait_for limit wanted answer from = Inr (if \<exists>w. from \<le> w \<and> w < limit \<and> a w = wanted
     then LEAST w. from \<le> w \<and> a w = wanted else limit)"
  using assms(2)
proof (induction "limit - from" arbitrary: "from")
  case 0
  then show ?case by (subst wait_for.simps) (auto simp: assms(1))
next
  case (Suc d)
  show ?case
  proof (cases "a from = wanted")
    case True
    then have "(LEAST w. from \<le> w \<and> a w = wanted) = from" by (intro Least_equality) auto
    then show ?thesis using True Suc by (subst wait_for.simps) (auto simp: assms(1))
  next
    case False
    then have ge: "from \<le> w \<and> a w = wanted \<longleftrightarrow> Suc from \<le> w \<and> a w = wanted" for w
      by (metis Suc_leD le_antisym not_less_eq_eq)
    have lt: "from < limit" "d = limit - Suc from" using Suc.hyps(2) by simp_all
    have "wait_for limit wanted answer from = wait_for limit wanted answer (Suc from)"
      using False lt(1) by (subst wait_for.simps) (simp add: assms(1))
    moreover have "(\<exists>w. from \<le> w \<and> w < limit \<and> a w = wanted) \<longleftrightarrow> (\<exists>w. Suc from \<le> w \<and> w < limit \<and> a w = wanted)"
      using ge by blast
    moreover have "(LEAST w. from \<le> w \<and> a w = wanted) = (LEAST w. Suc from \<le> w \<and> a w = wanted)"
      by (simp only: ge)
    ultimately show ?thesis using Suc.hyps(1) [OF lt(2)] lt(1) by (simp only: Suc_leI)
  qed
qed

lemma wait_for_short:
  assumes "\<And>w. answer w = Inr (a w)" and "a k = wanted" and "k < limit"
  shows "\<exists>w. wait_for limit wanted answer 0 = Inr w \<and> w < limit"
proof -
  have "(LEAST w. a w = wanted) \<le> k" by (rule Least_le) (rule assms(2))
  moreover have "wait_for limit wanted answer 0 = Inr (if \<exists>w. 0 \<le> w \<and> w < limit \<and> a w = wanted
     then LEAST w. 0 \<le> w \<and> a w = wanted else limit)"
    by (rule wait_for_result) (simp_all add: assms(1))
  ultimately show ?thesis using assms(2,3) by auto
qed

text \<open>A download ends without error exactly when its beginning and its end were reported in time.\<close>

lemma OnProgress_fold:
  "hConnected d = bDownloading d \<Longrightarrow>
   hConnected (fold OnProgress ps d) = (hConnected d \<or> set ps \<inter> {DownloadingData, EndDownloadData} \<noteq> {}) \<and>
   bDownloading (fold OnProgress ps d) = hConnected (fold OnProgress ps d)"
  by (induction ps arbitrary: d) (auto simp: OnProgress_def split: progress.splits)

lemma hDownloaded_fold: "hDownloaded (fold OnProgress ps d) \<longleftrightarrow> hDownloaded d \<or> EndDownloadData \<in> set ps"
  by (induction ps arbitrary: d) (auto simp: OnProgress_def split: progress.splits)

lemma Download_status:
  assumes "Download temp before after what = Inr (st, f)"
  shows "st = 0 \<longleftrightarrow> set before \<inter> {DownloadingData, EndDownloadData} \<noteq> {} \<and> EndDownloadData \<in> set before \<union> set after"
  using assms OnProgress_fold [of new_downloader before]
  by (auto simp: Download_def and_then_Inr_iff hDownloaded_fold new_downloader_def Let_def split: if_split_asm)

end
