(* ===== verification/BrowserVisit.thy ===== *)
theory BrowserVisit
  imports AppProcess
begin

text \<open>
  One visit of an address with Internet Explorer, and how the errors of the addresses become
  the error of the group: \<open>InternetExplorerInstanceBulk.cpp\<close>, \<open>InternetExplorerInstance.cpp\<close>, and
  the ends of the two \<open>visitGroup\<close> functions.
\<close>

subsection \<open>The browser and its events\<close>

text \<open>
  The members of an instance. \<open>mainURL\<close> is \<open>None\<close> while it is \<open>VT_EMPTY\<close>; \<open>br_browser\<close> says that
  \<open>pInternetExplorer\<close> is set.
\<close>

record browser =
  br_major :: u32
  br_minor :: u32
  dwNetworkErrorCode :: u32
  mainURL :: "wstring option"
  exited :: bool
  hVisiting :: bool
  br_browser :: bool
  br_processId :: u32

definition new_browser :: browser where
  "new_browser =
     \<lparr>br_major = 0, br_minor = 0, dwNetworkErrorCode = 0, mainURL = None, exited = False, hVisiting = False,
      br_browser = False, br_processId = 0\<rparr>"

text \<open>The calls of \<open>Invoke\<close> by their dispatch identifier, with the arguments it looks at.\<close>

datatype browser_event =
    BeforeNavigate2 wstring
  | NavigateComplete2
  | DocumentComplete
  | NavigateError wstring u32
  | OnQuit
  | OtherEvent

text \<open>
  \<open>same\<close> is the comparison of strings of the system. While the main address is empty its string
  is not set.
\<close>

definition Invoke ::
    "(wstring \<Rightarrow> wstring \<Rightarrow> bool) \<Rightarrow> browser_event \<Rightarrow> browser \<Rightarrow> client_error + browser" where
  "Invoke same ev b =
     (case ev of
        BeforeNavigate2 u \<Rightarrow> Inr (if mainURL b = None then b\<lparr>mainURL := Some u\<rparr> else b)
      | NavigateComplete2 \<Rightarrow> Inr b
      | DocumentComplete \<Rightarrow> Inr (b\<lparr>hVisiting := True\<rparr>)
      | NavigateError u code \<Rightarrow>
          (case mainURL b of
             None \<Rightarrow> Inl DANGLING_POINTER
           | Some m \<Rightarrow>
               Inr (if same u m
                    then b\<lparr>dwNetworkErrorCode := code, br_major := CAPTURE_VISITATION_NETWORK_ERROR,
                           br_minor := code, hVisiting := True\<rparr>
                    else b))
      | OnQuit \<Rightarrow> Inr (b\<lparr>exited := True, hVisiting := True\<rparr>)
      | OtherEvent \<Rightarrow> Inr b)"

fun invoke_all ::
    "(wstring \<Rightarrow> wstring \<Rightarrow> bool) \<Rightarrow> browser_event list \<Rightarrow> browser \<Rightarrow> client_error + browser" where
  "invoke_all same [] b = Inr b"
| "invoke_all same (e # es) b = and_then (Invoke same e b) (invoke_all same es)"

subsection \<open>One visit\<close>

text \<open>
  What the surroundings answer: the process, whether its window is found at every poll, whether
  the connection container and the connection point are there, the events up to the moment the
  codes are read, and the error of ending the process.
\<close>

record ie_env =
  ie_same :: "wstring \<Rightarrow> wstring \<Rightarrow> bool"
  ie_created :: "u32 + u32"
  window_found :: "nat \<Rightarrow> bool"
  container_ok :: bool
  connection_ok :: bool
  ie_events :: "browser_event list"
  closed_ok :: bool

text \<open>\<open>-5\<close> when the window did not come within 20 seconds.\<close>

definition browser_executeProcess :: "ie_env \<Rightarrow> browser \<Rightarrow> client_error + (u32 \<times> browser)" where
  "browser_executeProcess env b =
     (case ie_created env of
        Inl e \<Rightarrow> Inr (e, b)
      | Inr pid \<Rightarrow>
          and_then (wait_for 200 True (\<lambda>w. Inr (window_found env w)) 0) (\<lambda>w.
          Inr (if 200 \<le> w then -5 else 0,
               b\<lparr>br_processId := pid, br_browser := window_found env w\<rparr>)))"

text \<open>The address after the wait for the event, and whether the visit time is spent.\<close>

definition navigated :: "browser \<Rightarrow> url \<Rightarrow> url \<times> bool" where
  "navigated b u =
     (if \<not> hVisiting b then (u\<lparr>majorErrorCode := CAPTURE_VISITATION_TIMEOUT_ERROR\<rparr>, False)
      else if 0x800C0000 \<le> br_minor b \<and> br_minor b \<le> 0x800CFFFF
      then (u\<lparr>majorErrorCode := br_major b, minorErrorCode := br_minor b\<rparr>, False)
      else (u\<lparr>majorErrorCode := br_major b, minorErrorCode := br_minor b, visited := True\<rparr>, True))"

definition warn_closed :: "bool \<Rightarrow> url \<Rightarrow> url" where
  "warn_closed closed u =
     (if closed then u
      else u\<lparr>majorErrorCode := CAPTURE_VISITATION_WARNING, minorErrorCode := CAPTURE_PE_PROCESS_ALREADY_TERMINATED\<rparr>)"

text \<open>The bulk instance: the address, the instance and the milliseconds slept.\<close>

definition bulk_visitUrl :: "ie_env \<Rightarrow> browser \<Rightarrow> url \<Rightarrow> client_error + (url \<times> browser \<times> u32)" where
  "bulk_visitUrl env b u =
     and_then (browser_executeProcess env
         (b\<lparr>hVisiting := False, dwNetworkErrorCode := 0, br_major := CAPTURE_VISITATION_OK, mainURL := None\<rparr>)) (\<lambda>(r, b1).
     if r = 0
     then if \<not> br_browser b1 then Inl NULL_POINTER
       else if container_ok env
         then if connection_ok env
           then and_then (invoke_all (ie_same env) (ie_events env) b1) (\<lambda>b2.
                let (u1, wait) = navigated b2 u
                in Inr (warn_closed (closed_ok env) (u1\<lparr>url_processId := br_processId b2\<rparr>), b2,
                        if wait then word_of_int (visitTime u * 1000) else 0))
           else Inr (u, b1, 0)
         else Inr (u\<lparr>majorErrorCode := CAPTURE_VISITATION_ATTACH_PROCESS_ERROR\<rparr>, b1, 0)
     else Inr (u\<lparr>majorErrorCode := CAPTURE_VISITATION_PROCESS_ERROR\<rparr>, b1, 0))"

text \<open>
  The other instance asks the factory for a browser (\<open>ie_created\<close> is the answer) and does not set
  the process of the address. Without a connection container the address is left as it is.
\<close>

definition single_visitUrl :: "ie_env \<Rightarrow> browser \<Rightarrow> url \<Rightarrow> client_error + (url \<times> browser \<times> u32)" where
  "single_visitUrl env b u =
     (let b0 = b\<lparr>hVisiting := False, dwNetworkErrorCode := 0, br_major := CAPTURE_VISITATION_OK,
           mainURL := None, exited := False\<rparr>
      in case ie_created env of
           Inl e \<Rightarrow> Inr (u\<lparr>majorErrorCode := CAPTURE_VISITATION_PROCESS_ERROR\<rparr>, b0, 0)
         | Inr pid \<Rightarrow>
             if container_ok env \<and> connection_ok env
             then and_then (invoke_all (ie_same env) (ie_events env) (b0\<lparr>br_browser := True\<rparr>)) (\<lambda>b2.
                  let (u1, wait) = navigated b2 u
                  in Inr (warn_closed (closed_ok env) u1, b2, if wait then word_of_int (visitTime u * 1000) else 0))
             else Inr (u, b0\<lparr>br_browser := True\<rparr>, 0))"

subsection \<open>The end of a group\<close>

definition closeAllInternetExplorers :: "text_env \<Rightarrow> process_list \<Rightarrow> client_error + u32" where
  "closeAllInternetExplorers env ps =
     terminate_named env ps (exe_name (wide ''c:'' @ 0x5C # wide ''Program Files'' @ 0x5C #
        wide ''Internet Explorer'' @ 0x5C # wide ''iexplore.exe'')) 0"

text \<open>
  The other plug-in first makes a browser only to end its process: \<open>fake\<close> has the process of its
  window, the process of the handle that was opened, and the error of ending it.
\<close>

definition closeAll_single ::
    "text_env \<Rightarrow> (u32 \<times> u32 \<times> u32 option) option \<Rightarrow> process_list \<Rightarrow> client_error + u32" where
  "closeAll_single env fake ps =
     terminate_named env ps (exe_name (wide ''c:'' @ 0x5C # wide ''Program Files'' @ 0x5C #
        wide ''Internet Explorer'' @ 0x5C # wide ''iexplore.exe''))
       (case fake of
          None \<Rightarrow> 0
        | Some (dProcessId, tempProcessId, e) \<Rightarrow>
            if tempProcessId = dProcessId then (case e of None \<Rightarrow> 0 | Some c \<Rightarrow> c) else 0)"

text \<open>After the loop: the event gets the code of every address, one after the other.\<close>

definition group_finished :: "u32 \<Rightarrow> url list \<Rightarrow> visit_event \<Rightarrow> visit_event" where
  "group_finished closeError us v =
     (let v1 = fold (\<lambda>u. setErrorCode (majorErrorCode u)) us (v\<lparr>ve_urls := us\<rparr>)
      in if closeError \<noteq> 0 then setErrorCode CAPTURE_VISITATION_WARNING v1 else v1)"

subsection \<open>Facts\<close>

text \<open>The first error that is followed by anything, even by a success, becomes the code of several.\<close>

lemma errorCode_set:
  "ve_errorCode (setErrorCode e v) =
     (if ve_errorCode v \<noteq> CAPTURE_VISITATION_OK then CAPTURE_VISITATION_MULTIPLE_ERRORS else e)"
  by (simp add: setErrorCode_def)

lemma setErrorCodes_after:
  "ve_errorCode v \<noteq> CAPTURE_VISITATION_OK \<Longrightarrow>
     ve_errorCode (fold (\<lambda>u. setErrorCode (majorErrorCode u)) us v) =
       (if us = [] then ve_errorCode v else CAPTURE_VISITATION_MULTIPLE_ERRORS)"
  by (induction us arbitrary: v) (simp_all add: errorCode_set)

lemma setErrorCodes:
  "ve_errorCode v = CAPTURE_VISITATION_OK \<Longrightarrow>
     ve_errorCode (fold (\<lambda>u. setErrorCode (majorErrorCode u)) us v) =
       (case dropWhile (\<lambda>c. c = CAPTURE_VISITATION_OK) (map majorErrorCode us) of
          [] \<Rightarrow> CAPTURE_VISITATION_OK | [c] \<Rightarrow> c | _ \<Rightarrow> CAPTURE_VISITATION_MULTIPLE_ERRORS)"
proof (induction us arbitrary: v)
  case (Cons u us)
  show ?case
  proof (cases "majorErrorCode u = CAPTURE_VISITATION_OK")
    case True
    then have "ve_errorCode (setErrorCode (majorErrorCode u) v) = CAPTURE_VISITATION_OK"
      using Cons.prems by (simp add: errorCode_set)
    then show ?thesis using Cons.IH True by simp
  next
    case False
    then have "ve_errorCode (setErrorCode (majorErrorCode u) v) = majorErrorCode u"
      using Cons.prems by (simp add: errorCode_set)
    then show ?thesis
      using False setErrorCodes_after [of "setErrorCode (majorErrorCode u) v" us] by (cases us) simp_all
  qed
qed simp

lemma browser_window:
  assumes "browser_executeProcess env b = Inr (r, b1)" and "\<And>e. ie_created env = Inl e \<Longrightarrow> e \<noteq> 0"
  shows "r = 0 \<longleftrightarrow> (\<exists>pid. ie_created env = Inr pid) \<and> (\<exists>w < 200. window_found env w)"
    and "r = 0 \<Longrightarrow> br_browser b1"
proof -
  let ?a = "\<lambda>w. Inr (window_found env w) :: client_error + bool"
  have w: "wait_for 200 True ?a 0 = Inr (if \<exists>w. 0 \<le> w \<and> w < 200 \<and> window_found env w = True
      then LEAST w. 0 \<le> w \<and> window_found env w = True else 200)"
    by (rule wait_for_result) simp_all
  have l: "window_found env (LEAST w. window_found env w) \<and> (LEAST w. window_found env w) < 200"
    if "w < 200" "window_found env w" for w
    using that by (metis LeastI Least_le le_less_trans)
  show "r = 0 \<longleftrightarrow> (\<exists>pid. ie_created env = Inr pid) \<and> (\<exists>w < 200. window_found env w)"
    using assms w l by (auto simp: browser_executeProcess_def split: sum.splits if_split_asm)
  show "r = 0 \<Longrightarrow> br_browser b1"
    using assms w by (auto dest: l simp: browser_executeProcess_def split: sum.splits if_split_asm)
qed

text \<open>A network error of the main address is the last word, unless the browser reports another.\<close>

definition reported :: "(wstring \<Rightarrow> wstring \<Rightarrow> bool) \<Rightarrow> wstring \<Rightarrow> browser_event list \<Rightarrow> u32 option" where
  "reported same m es =
     fold (\<lambda>e r. case e of NavigateError u c \<Rightarrow> if same u m then Some c else r | _ \<Rightarrow> r) es None"

definition ends_visit :: "(wstring \<Rightarrow> wstring \<Rightarrow> bool) \<Rightarrow> wstring \<Rightarrow> browser_event \<Rightarrow> bool" where
  "ends_visit same m e =
     (case e of DocumentComplete \<Rightarrow> True | OnQuit \<Rightarrow> True | NavigateError u c \<Rightarrow> same u m | _ \<Rightarrow> False)"

lemma invoke_snoc: "invoke_all same (es @ [e]) b = and_then (invoke_all same es b) (Invoke same e)"
proof (induction es arbitrary: b)
  case Nil
  then show ?case by (cases "Invoke same e b") simp_all
next
  case (Cons x xs)
  then show ?case by (cases "Invoke same x b") simp_all
qed

lemma invoke_main:
  assumes "mainURL b = Some m"
  shows "\<exists>b'. invoke_all same es b = Inr b' \<and> mainURL b' = Some m \<and>
    hVisiting b' = (hVisiting b \<or> (\<exists>e \<in> set es. ends_visit same m e)) \<and>
    br_processId b' = br_processId b \<and>
    (br_major b', br_minor b') =
      (case fold (\<lambda>e r. case e of NavigateError u c \<Rightarrow> if same u m then Some c else r | _ \<Rightarrow> r) es None of
         None \<Rightarrow> (br_major b, br_minor b) | Some c \<Rightarrow> (CAPTURE_VISITATION_NETWORK_ERROR, c))"
  using assms
proof (induction es arbitrary: b rule: rev_induct)
  case (snoc e es)
  obtain b' where "invoke_all same es b = Inr b'" "mainURL b' = Some m"
    "hVisiting b' = (hVisiting b \<or> (\<exists>e \<in> set es. ends_visit same m e))" "br_processId b' = br_processId b"
    "(br_major b', br_minor b') =
      (case fold (\<lambda>e r. case e of NavigateError u c \<Rightarrow> if same u m then Some c else r | _ \<Rightarrow> r) es None of
         None \<Rightarrow> (br_major b, br_minor b) | Some c \<Rightarrow> (CAPTURE_VISITATION_NETWORK_ERROR, c))"
    using snoc.IH [OF snoc.prems] by blast
  then show ?case
    by (cases e) (auto simp: invoke_snoc Invoke_def ends_visit_def)
qed simp

end
