(* ===== verification/ConfigPlugin.thy ===== *)
theory ConfigPlugin
  imports AppProcess
begin

text \<open>
  The plug-in for the applications of \<open>Applications.conf\<close>: reading the file, and visiting a
  group by starting the application once for every address
  (\<open>Application_ClientConfigManager.cpp\<close>).
\<close>

subsection \<open>The applications\<close>

record application =
  app_path :: wstring
  downloadURL :: bool

text \<open>\<open>applicationsMap\<close>, in the order the names were inserted.\<close>

type_synonym applications = "(wstring \<times> application) list"

definition load_application :: "u8 list \<Rightarrow> applications \<Rightarrow> applications" where
  "load_application line m =
     (if line = [] \<or> hd line = 0x23 then m
      else let splitLine = map (map widen) (split_on 9 line)
        in if 2 \<le> length splitLine
           then (case map_of m (splitLine ! 0) of
                   None \<Rightarrow> m @ [(splitLine ! 0,
                     \<lparr>app_path = splitLine ! 1,
                      downloadURL = (length splitLine = 3 \<and> splitLine ! 2 = wide ''yes'')\<rparr>)]
                 | Some a \<Rightarrow> m)
           else m)"

text \<open>
  The array of names: \<open>inserted + 1\<close> pointers, filled from the map and ended by a null pointer.
  The order of the hash map is not modelled.
\<close>

definition name_array :: "nat \<Rightarrow> applications \<Rightarrow> client_error + wstring option list" where
  "name_array inserted m =
     (if length m \<le> inserted then Inr (map (\<lambda>(n, a). Some n) m @ [None]) else Inl BUFFER_OVERRUN)"

definition loadApplicationsList ::
    "u8 list option \<Rightarrow> client_error + (applications \<times> wstring option list)" where
  "loadApplicationsList file =
     (case file of
        None \<Rightarrow> Inr ([], [None])
      | Some bs \<Rightarrow>
          let (m, inserted) = foldl (\<lambda>(m, n) l.
                  (load_application l m, n + (length (load_application l m) - length m)))
                ([], 0) (split_on 10 (text_mode bs))
          in and_then (name_array inserted m) (\<lambda>a. Inr (m, a)))"

subsection \<open>Visiting\<close>

text \<open>
  What the surroundings answer for the \<open>k\<close>-th address: the progress of its download, the
  process that was made, the processes at every question whether the application is open, the
  error of the system then, and the same for close_polls.
\<close>

record visit_env =
  v_text :: text_env
  temp_path :: wstring
  downloads :: "nat \<Rightarrow> progress list \<times> progress list"
  created :: "nat \<Rightarrow> u32 + u32"
  open_polls :: "nat \<Rightarrow> nat \<Rightarrow> process_list"
  open_error :: "nat \<Rightarrow> u32"
  own_error :: "nat \<Rightarrow> u32 option"
  at_close :: "nat \<Rightarrow> process_list"
  close_polls :: "nat \<Rightarrow> nat \<Rightarrow> process_list"

text \<open>
  One address of the first loop: the event, the address, the entry of \<open>processHandlers\<close> and
  whether the application did not open. A failed download leaves the entry null.
\<close>

definition fetch_target :: "visit_env \<Rightarrow> application \<Rightarrow> nat \<Rightarrow> url \<Rightarrow> client_error + (u32 \<times> wstring)" where
  "fetch_target env app k u =
     (if downloadURL app
      then and_then (wsubstr (wfind_last 0x2F (url_text u)) None (url_text u)) (\<lambda>file.
           Download (temp_path env) (fst (downloads env k)) (snd (downloads env k)) (url_text u))
      else Inr (0, url_text u))"

definition open_url ::
    "visit_env \<Rightarrow> application \<Rightarrow> nat \<Rightarrow> url \<Rightarrow> visit_event \<Rightarrow>
     client_error + (visit_event \<times> url \<times> process_handler option \<times> bool)" where
  "open_url env app k u v =
     and_then (fetch_target env app k u) (\<lambda>(status, target).
     if 0 < status
     then Inr (setErrorCode CAPTURE_VISITATION_NETWORK_ERROR v,
               u\<lparr>majorErrorCode := CAPTURE_VISITATION_NETWORK_ERROR, minorErrorCode := status\<rparr>, None, False)
     else
       let ph = snd (executeProcess (created env k) (new_process_handler (app_path app) target));
           u1 = u\<lparr>url_processId := ph_processId ph\<rparr>
       in and_then (wait_for 600 True (\<lambda>w. isOpen (v_text env) (open_polls env k w) ph) 0) (\<lambda>w.
          if 600 \<le> w
          then Inr (setErrorCode CAPTURE_VISITATION_PROCESS_ERROR v,
                    u1\<lparr>majorErrorCode := CAPTURE_VISITATION_PROCESS_ERROR, minorErrorCode := open_error env k\<rparr>,
                    Some ph, True)
          else Inr (v, u1, Some ph, False)))"

fun open_urls ::
    "visit_env \<Rightarrow> application \<Rightarrow> nat \<Rightarrow> url list \<Rightarrow> visit_event \<Rightarrow>
     client_error + (visit_event \<times> url list \<times> process_handler option list \<times> bool)" where
  "open_urls env app k [] v = Inr (v, [], [], False)"
| "open_urls env app k (u # us) v =
     and_then (open_url env app k u v) (\<lambda>(v1, u1, ph, e1).
     and_then (open_urls env app (Suc k) us v1) (\<lambda>(v2, us2, phs, e2).
     Inr (v2, u1 # us2, ph # phs, e1 \<or> e2)))"

text \<open>One address of the second loop. The handler is used as it is, null or not.\<close>

definition close_url ::
    "visit_env \<Rightarrow> nat \<Rightarrow> url \<Rightarrow> process_handler option \<Rightarrow> visit_event \<Rightarrow> client_error + (visit_event \<times> url)" where
  "close_url env k u ph v =
     (case ph of
        None \<Rightarrow> Inl NULL_POINTER
      | Some h \<Rightarrow>
          and_then (closeProcess (v_text env) (own_error env k) (at_close env k) h) (\<lambda>_.
          and_then (wait_for 300 False (\<lambda>w. isOpen (v_text env) (close_polls env k w) h) 0) (\<lambda>w.
          if 300 \<le> w
          then Inr (setErrorCode CAPTURE_VISITATION_PROCESS_ERROR v,
                    u\<lparr>majorErrorCode := CAPTURE_VISITATION_PROCESS_ERROR, minorErrorCode := 0\<rparr>)
          else Inr (v, u))))"

fun close_urls ::
    "visit_env \<Rightarrow> nat \<Rightarrow> (url \<times> process_handler option) list \<Rightarrow> visit_event \<Rightarrow>
     client_error + (visit_event \<times> url list)" where
  "close_urls env k [] v = Inr (v, [])"
| "close_urls env k ((u, ph) # us) v =
     and_then (close_url env k u ph v) (\<lambda>(v1, u1).
     and_then (close_urls env (Suc k) us v1) (\<lambda>(v2, us2). Inr (v2, u1 # us2)))"

text \<open>The visit time of the first address is looked up unless an application did not open.\<close>

definition config_visitGroup ::
    "visit_env \<Rightarrow> applications \<Rightarrow> visit_event \<Rightarrow> client_error + visit_event" where
  "config_visitGroup env m v =
     (case map_of m (ve_program v) of
        None \<Rightarrow> Inr (setErrorCode CAPTURE_VISITATION_PROCESS_ERROR v)
      | Some app \<Rightarrow>
          and_then (open_urls env app 0 (ve_urls v) v) (\<lambda>(v1, us1, phs, failed).
          if \<not> failed \<and> us1 = [] then Inl BUFFER_OVERRUN
          else and_then (close_urls env 0 (zip us1 phs) v1) (\<lambda>(v2, us2).
               Inr (v2\<lparr>ve_urls := us2\<rparr>))))"

subsection \<open>What the file defines\<close>

text \<open>A line for an application, as the file at hand has them.\<close>

type_synonym app_line = "u8 list \<times> u8 list \<times> u8 list option"

definition field_ok :: "u8 list \<Rightarrow> bool" where
  "field_ok f \<longleftrightarrow> set f \<inter> {9, 10, 13, 26} = {}"

definition app_line_ok :: "app_line \<Rightarrow> bool" where
  "app_line_ok = (\<lambda>(n, p, y). field_ok n \<and> n \<noteq> [] \<and> hd n \<noteq> 0x23 \<and> field_ok p \<and> (\<forall>z. y = Some z \<longrightarrow> field_ok z))"

definition app_line_text :: "app_line \<Rightarrow> u8 list" where
  "app_line_text = (\<lambda>(n, p, y). n @ 9 # p @ (case y of None \<Rightarrow> [] | Some z \<Rightarrow> 9 # z))"

definition app_line_entry :: "app_line \<Rightarrow> wstring \<times> application" where
  "app_line_entry = (\<lambda>(n, p, y). (map widen n,
     \<lparr>app_path = map widen p, downloadURL = (case y of None \<Rightarrow> False | Some z \<Rightarrow> map widen z = wide ''yes'')\<rparr>))"

lemma split_app_line:
  assumes "app_line_ok (n, p, y)"
  shows "split_on 9 (app_line_text (n, p, y)) = n # p # (case y of None \<Rightarrow> [] | Some z \<Rightarrow> [z])"
  using assms
  by (auto simp: app_line_ok_def app_line_text_def field_ok_def split_on_free split_on_end split: option.splits)

lemma load_application_line:
  assumes "app_line_ok l"
  shows "load_application (app_line_text l) m =
    (if fst (app_line_entry l) \<in> fst ` set m then m else m @ [app_line_entry l])"
proof -
  obtain n p y where l: "l = (n, p, y)" by (cases l)
  have ok: "app_line_ok (n, p, y)" using assms by (simp add: l)
  have ne: "app_line_text l \<noteq> []" "hd (app_line_text l) = hd n"
    using ok by (simp_all add: l app_line_ok_def app_line_text_def)
  have hd: "hd n \<noteq> 0x23" using ok by (simp add: app_line_ok_def)
  have s: "split_on 9 (app_line_text (n, p, y)) = n # p # (case y of None \<Rightarrow> [] | Some z \<Rightarrow> [z])"
    by (rule split_app_line [OF ok])
  show ?thesis
    using ne hd
    by (auto simp: load_application_def s Let_def app_line_entry_def l map_of_eq_None_iff
        dest!: map_of_SomeD intro: rev_image_eqI split: option.splits)
qed

text \<open>The first definition of a name counts, and the array holds every name once.\<close>

lemma load_applications_lines:
  assumes "\<forall>l \<in> set ls. app_line_ok l" and "distinct (map fst m)" and "n = length m"
  shows "\<exists>m'. foldl (\<lambda>(m, n) l. (load_application l m, n + (length (load_application l m) - length m)))
       (m, n) (map app_line_text ls) = (m', length m') \<and> distinct (map fst m') \<and>
     map_of m' = map_of (m @ map app_line_entry ls)"
  using assms
proof (induction ls arbitrary: m n)
  case (Cons l ls)
  let ?m = "load_application (app_line_text l) m"
  have m: "?m = (if fst (app_line_entry l) \<in> fst ` set m then m else m @ [app_line_entry l])"
    using Cons.prems(1) by (simp add: load_application_line)
  then have d: "distinct (map fst ?m)" using Cons.prems(2) by auto
  have len: "n + (length ?m - length m) = length ?m" using Cons.prems(3) m by simp
  have same: "map_of (?m @ map app_line_entry ls) = map_of (m @ map app_line_entry (l # ls))"
  proof (cases "fst (app_line_entry l) \<in> fst ` set m")
    case True
    then obtain a where "map_of m (fst (app_line_entry l)) = Some a"
      by (metis map_of_eq_None_iff not_None_eq)
    then show ?thesis using m True
      by (cases "app_line_entry l") (auto simp: fun_eq_iff map_add_def split: option.splits)
  next
    case False
    then show ?thesis by (simp add: m)
  qed
  obtain m' where "foldl (\<lambda>(m, n) l. (load_application l m, n + (length (load_application l m) - length m)))
       (?m, length ?m) (map app_line_text ls) = (m', length m')" "distinct (map fst m')"
     "map_of m' = map_of (?m @ map app_line_entry ls)"
    using Cons.IH [OF _ d refl] Cons.prems(1) by auto
  then show ?case using same len by (simp del: map_of_append)
qed simp

lemma load_application_blank: "load_application [] m = m"
  by (simp add: load_application_def)

lemma loadApplicationsList_lines:
  assumes "\<forall>l \<in> set ls. app_line_ok l"
  shows "\<exists>m a. loadApplicationsList (Some (concat (map (\<lambda>l. app_line_text l @ [10]) ls))) = Inr (m, a) \<and>
    map_of m = map_of (map app_line_entry ls) \<and> distinct (map fst m) \<and>
    a = map Some (map fst m) @ [None]"
proof -
  have plain: "set (app_line_text l) \<inter> {10, 13, 26} = {}" if "l \<in> set ls" for l
    using assms that by (auto simp: app_line_ok_def app_line_text_def field_ok_def split: option.splits prod.splits)
  have bs: "split_on 10 (text_mode (concat (map (\<lambda>l. app_line_text l @ [10]) ls))) = map app_line_text ls @ [[]]"
  proof -
    have "text_mode (concat (map (\<lambda>l. app_line_text l @ [10]) ls)) = concat (map (\<lambda>l. app_line_text l @ [10]) ls)"
      by (rule text_mode_plain) (use plain in auto)
    moreover have "split_on 10 (concat (map (\<lambda>l. l @ [10]) (map app_line_text ls))) = map app_line_text ls @ [[]]"
      by (rule split_lines) (use plain in auto)
    ultimately show ?thesis by (simp add: comp_def)
  qed
  obtain m where m: "foldl (\<lambda>(m, n) l. (load_application l m, n + (length (load_application l m) - length m)))
       ([], 0) (map app_line_text ls) = (m, length m)" "distinct (map fst m)" "map_of m = map_of (map app_line_entry ls)"
    using load_applications_lines [OF assms, of "[]" 0] by auto
  have "loadApplicationsList (Some (concat (map (\<lambda>l. app_line_text l @ [10]) ls))) =
      Inr (m, map (\<lambda>(n, a). Some n) m @ [None])"
    by (simp add: loadApplicationsList_def bs m(1) load_application_blank name_array_def)
  moreover have "map (\<lambda>(n, a). Some n) m = map Some (map fst m)" by (simp add: case_prod_beta comp_def)
  ultimately show ?thesis using m(2,3) by auto
qed

subsection \<open>What a visit does\<close>

text \<open>The handler that is made for an address, and an application that opens and closes in time.\<close>

definition handler_for :: "visit_env \<Rightarrow> application \<Rightarrow> nat \<Rightarrow> wstring \<Rightarrow> process_handler" where
  "handler_for env app k target = snd (executeProcess (created env k) (new_process_handler (app_path app) target))"

definition opens_and_closes :: "visit_env \<Rightarrow> application \<Rightarrow> nat \<Rightarrow> url \<Rightarrow> bool" where
  "opens_and_closes env app k u \<longleftrightarrow>
     (\<exists>target. fetch_target env app k u = Inr (0, target) \<and>
       (let ph = handler_for env app k target
        in (\<forall>w. isOpen (v_text env) (open_polls env k w) ph \<noteq> Inl BUFFER_OVERRUN) \<and>
           (\<exists>w < 600. isOpen (v_text env) (open_polls env k w) ph = Inr True) \<and>
           closeProcess (v_text env) (own_error env k) (at_close env k) ph \<noteq> Inl BUFFER_OVERRUN \<and>
           (\<forall>w. isOpen (v_text env) (close_polls env k w) ph \<noteq> Inl BUFFER_OVERRUN) \<and>
           (\<exists>w < 300. isOpen (v_text env) (close_polls env k w) ph = Inr False)))"

lemma each_process_total: "each_process f ps n i a \<noteq> Inl BUFFER_OVERRUN \<Longrightarrow> \<exists>r. each_process f ps n i a = Inr r"
  by (induction f ps n i a rule: each_process.induct) (auto split: if_split_asm)

lemma isOpen_total: "isOpen env ps h \<noteq> Inl BUFFER_OVERRUN \<Longrightarrow> \<exists>b. isOpen env ps h = Inr b"
  using each_process_total by (auto simp: isOpen_def split: if_split_asm)

lemma closeProcess_total: "closeProcess env own ps h \<noteq> Inl BUFFER_OVERRUN \<Longrightarrow> \<exists>r. closeProcess env own ps h = Inr r"
  unfolding closeProcess_def terminate_named_def by (rule each_process_total)

lemma wait_for_answers:
  assumes "\<forall>w. answer w \<noteq> Inl BUFFER_OVERRUN" and "\<And>w. answer w \<noteq> Inl BUFFER_OVERRUN \<Longrightarrow> \<exists>b. answer w = Inr b"
    and "\<exists>k < limit. answer k = Inr wanted"
  shows "\<exists>w. wait_for limit wanted answer 0 = Inr w \<and> w < limit"
proof -
  have "\<exists>a. \<forall>w. answer w = Inr (a w)" using assms(1,2) by metis
  then obtain a where a: "\<And>w. answer w = Inr (a w)" by blast
  obtain k where "k < limit" "answer k = Inr wanted" using assms(3) by blast
  then show ?thesis using wait_for_short [of answer a k wanted limit] a by auto
qed

lemma open_close_url:
  assumes "opens_and_closes env app k u"
  shows "\<exists>ph. open_url env app k u v = Inr (v, u\<lparr>url_processId := ph_processId ph\<rparr>, Some ph, False) \<and>
    (\<exists>target. fetch_target env app k u = Inr (0, target) \<and> ph = handler_for env app k target) \<and>
    (\<forall>w u'. close_url env k u' (Some ph) w = Inr (w, u'))"
proof -
  obtain target where f: "fetch_target env app k u = Inr (0, target)"
    and o1: "\<forall>w. isOpen (v_text env) (open_polls env k w) (handler_for env app k target) \<noteq> Inl BUFFER_OVERRUN"
    and o2: "\<exists>w < 600. isOpen (v_text env) (open_polls env k w) (handler_for env app k target) = Inr True"
    and c0: "closeProcess (v_text env) (own_error env k) (at_close env k) (handler_for env app k target) \<noteq> Inl BUFFER_OVERRUN"
    and c1: "\<forall>w. isOpen (v_text env) (close_polls env k w) (handler_for env app k target) \<noteq> Inl BUFFER_OVERRUN"
    and c2: "\<exists>w < 300. isOpen (v_text env) (close_polls env k w) (handler_for env app k target) = Inr False"
    using assms unfolding opens_and_closes_def Let_def by blast
  obtain w1 where "wait_for 600 True (\<lambda>w. isOpen (v_text env) (open_polls env k w) (handler_for env app k target)) 0 = Inr w1" "w1 < 600"
    using wait_for_answers [OF o1 isOpen_total o2] by blast
  moreover obtain w2 where "wait_for 300 False (\<lambda>w. isOpen (v_text env) (close_polls env k w) (handler_for env app k target)) 0 = Inr w2" "w2 < 300"
    using wait_for_answers [OF c1 isOpen_total c2] by blast
  moreover obtain r where "closeProcess (v_text env) (own_error env k) (at_close env k) (handler_for env app k target) = Inr r"
    using closeProcess_total [OF c0] by blast
  ultimately show ?thesis
    using f by (intro exI [of _ "handler_for env app k target"])
      (simp add: open_url_def close_url_def Let_def handler_for_def [symmetric])
qed

lemma open_urls_well:
  assumes "\<And>i. i < length us \<Longrightarrow> opens_and_closes env app (k + i) (us ! i)"
  shows "\<exists>us' phs. open_urls env app k us v = Inr (v, us', phs, False) \<and>
    length us' = length us \<and> length phs = length us \<and>
    (\<forall>i < length us. \<exists>target. fetch_target env app (k + i) (us ! i) = Inr (0, target) \<and>
       us' ! i = (us ! i)\<lparr>url_processId := ph_processId (handler_for env app (k + i) target)\<rparr>) \<and>
    (\<forall>w. close_urls env k (zip us' phs) w = Inr (w, us'))"
  using assms
proof (induction us arbitrary: k)
  case (Cons u us)
  obtain ph where ph: "open_url env app k u v = Inr (v, u\<lparr>url_processId := ph_processId ph\<rparr>, Some ph, False)"
    "\<exists>target. fetch_target env app k u = Inr (0, target) \<and> ph = handler_for env app k target"
    "\<forall>w u'. close_url env k u' (Some ph) w = Inr (w, u')"
    using open_close_url Cons.prems [of 0] by fastforce
  have "\<And>i. i < length us \<Longrightarrow> opens_and_closes env app (Suc k + i) (us ! i)"
    using Cons.prems [of "Suc i" for i] by fastforce
  then obtain us' phs where r: "open_urls env app (Suc k) us v = Inr (v, us', phs, False)"
    "length us' = length us" "length phs = length us"
    "\<forall>i < length us. \<exists>target. fetch_target env app (Suc k + i) (us ! i) = Inr (0, target) \<and>
       us' ! i = (us ! i)\<lparr>url_processId := ph_processId (handler_for env app (Suc k + i) target)\<rparr>"
    "\<forall>w. close_urls env (Suc k) (zip us' phs) w = Inr (w, us')"
    using Cons.IH [of "Suc k"] by blast
  show ?case
  proof (intro exI conjI)
    show "open_urls env app k (u # us) v = Inr (v, u\<lparr>url_processId := ph_processId ph\<rparr> # us', Some ph # phs, False)"
      by (simp add: ph(1) r(1))
    show "\<forall>w. close_urls env k (zip (u\<lparr>url_processId := ph_processId ph\<rparr> # us') (Some ph # phs)) w =
        Inr (w, u\<lparr>url_processId := ph_processId ph\<rparr> # us')"
      by (simp add: ph(3) r(5))
    show "\<forall>i < length (u # us). \<exists>target. fetch_target env app (k + i) ((u # us) ! i) = Inr (0, target) \<and>
       (u\<lparr>url_processId := ph_processId ph\<rparr> # us') ! i =
         ((u # us) ! i)\<lparr>url_processId := ph_processId (handler_for env app (k + i) target)\<rparr>"
    proof (intro allI impI)
      fix i assume "i < length (u # us)"
      then show "\<exists>target. fetch_target env app (k + i) ((u # us) ! i) = Inr (0, target) \<and>
         (u\<lparr>url_processId := ph_processId ph\<rparr> # us') ! i =
           ((u # us) ! i)\<lparr>url_processId := ph_processId (handler_for env app (k + i) target)\<rparr>"
        using ph(2) r(4) by (cases i) auto
    qed
  qed (simp_all add: r)
qed simp

text \<open>A failed download leaves a null entry behind, and closing it is the end.\<close>

lemma open_url_null:
  assumes "open_url env app k u v = Inr (v1, u1, Some ph, e)"
  shows "\<exists>t. fetch_target env app k u = Inr (0, t)"
  using assms
  by (auto simp: open_url_def and_then_Inr_iff Let_def word_gt_0 split: if_split_asm)

lemma open_urls_no_null:
  assumes "open_urls env app k us v = Inr (v1, us1, phs, e)" and "None \<notin> set phs" and "i < length us"
  shows "\<exists>t. fetch_target env app (k + i) (us ! i) = Inr (0, t)"
  using assms
proof (induction us arbitrary: k i v v1 us1 phs e)
  case (Cons u us)
  obtain v' u' ph e' us2 phs2 e2 where o: "open_url env app k u v = Inr (v', u', ph, e')"
    "open_urls env app (Suc k) us v' = Inr (v1, us2, phs2, e2)" "phs = ph # phs2"
    using Cons.prems(1) by (fastforce simp: and_then_Inr_iff)
  obtain h where "ph = Some h" using Cons.prems(2) o(3) by (cases ph) auto
  then have "\<exists>t. fetch_target env app k u = Inr (0, t)" using open_url_null o(1) by blast
  moreover have "\<exists>t. fetch_target env app (Suc k + j) (us ! j) = Inr (0, t)" if "j < length us" for j
    using Cons.IH [OF o(2) _ that] Cons.prems(2) o(3) by simp
  ultimately show ?case using Cons.prems(3) by (cases i) auto
qed simp

lemma close_urls_no_null:
  "close_urls env k us v = Inr r \<Longrightarrow> None \<notin> snd ` set us"
proof (induction us arbitrary: k v r)
  case (Cons p us)
  then show ?case
    by (cases p; cases "snd p") (auto simp: and_then_Inr_iff close_url_def)
qed simp

lemma open_urls_lengths:
  "open_urls env app k us v = Inr (v1, us1, phs, e) \<Longrightarrow> length us1 = length us \<and> length phs = length us"
  by (induction us arbitrary: k v v1 us1 phs e) (fastforce simp: and_then_Inr_iff)+

end
