(* ===== verification/SafariPlugin.thy ===== *)
theory SafariPlugin
  imports AppProcess
begin

text \<open>
  The plug-in for Safari (\<open>Application_Safari.cpp\<close>): an address is opened by writing it into
  the preferences as the home page and starting the browser.
\<close>

subsection \<open>Finding a string\<close>

fun find_sub :: "'a list \<Rightarrow> 'a list \<Rightarrow> nat option" where
  "find_sub p [] = (if p = [] then Some 0 else None)"
| "find_sub p (x # s) = (if starts_with p (x # s) then Some 0 else map_option Suc (find_sub p s))"

text \<open>\<open>find(p, from)\<close>; \<open>from\<close> may be \<open>npos\<close>.\<close>

definition find_from :: "'a list \<Rightarrow> nat option \<Rightarrow> 'a list \<Rightarrow> nat option" where
  "find_from p from s =
     (case from of
        None \<Rightarrow> None
      | Some i \<Rightarrow> if length s < i then None else map_option ((+) i) (find_sub p (drop i s)))"

subsection \<open>The preferences\<close>

definition startString :: wstring where "startString = wide ''<string>''"
definition endString :: wstring where "endString = wide ''</string>''"
definition homepageTag :: wstring where "homepageTag = wide ''<key>HomePage</key>''"
definition lastTag :: wstring where "lastTag = wide ''</dict>''"

text \<open>The preferences to begin with when the file cannot be opened.\<close>

definition safariBlankPreferences :: wstring where
  "safariBlankPreferences =
     wide ''<?xml version='' @ 0x22 # wide ''1.0'' @ 0x22 # wide '' encoding='' @ 0x22 # wide ''UTF-8'' @
     0x22 # wide ''?>'' @ 10 # wide ''<!DOCTYPE plist PUBLIC '' @ 0x22 # wide ''-//Apple//DTD PLIST 1.0//EN'' @
     0x22 # 0x20 # 0x22 # wide ''http://www.apple.com/DTDs/PropertyList-1.0.dtd'' @ 0x22 # wide ''>'' @ 10 #
     wide ''<plist version='' @ 0x22 # wide ''1.0'' @ 0x22 # wide ''>'' @ 10 # wide ''<dict>'' @ 10 #
     lastTag @ 10 # wide ''</plist>'' @ [10]"

definition set_home_page :: "wstring \<Rightarrow> wstring \<Rightarrow> wstring" where
  "set_home_page url document =
     (let homepageKey = find_from homepageTag (Some 0) document
      in if homepageKey \<noteq> None
         then
           let homepageValueStart = find_from startString homepageKey document;
               homepageValueEnd = find_from endString homepageValueStart document
           in (case (homepageValueStart, homepageValueEnd) of
                 (Some i, Some j) \<Rightarrow>
                   take (i + length startString) document @ url @ drop j document
               | _ \<Rightarrow> document)
         else
           (case find_from lastTag (Some 0) document of
              Some l \<Rightarrow>
                take l document @ homepageTag @ 10 # 9 # 9 # startString @ url @ endString @ 10 # drop l document
            | None \<Rightarrow> document))"

text \<open>Reading the file line by line and putting the line feeds back.\<close>

fun join_lines :: "wstring list \<Rightarrow> wstring" where
  "join_lines [] = []"
| "join_lines [l] = l"
| "join_lines (l # ls) = l @ 10 # join_lines ls"

definition openDocument :: "u8 list option \<Rightarrow> wstring option" where
  "openDocument doc = map_option (\<lambda>bs. join_lines (split_on 10 (map widen (text_mode bs)))) doc"

definition setHomePage :: "u8 list option \<Rightarrow> wstring \<Rightarrow> wstring" where
  "setHomePage doc url =
     set_home_page url (case openDocument doc of None \<Rightarrow> safariBlankPreferences | Some d \<Rightarrow> d)"

subsection \<open>A visit\<close>

text \<open>
  What the system answers: the folder of the user's data, the contents of the two files, whether
  the process was made (or the error), and the error of ending it.
\<close>

record safari_env =
  folder_ok :: bool
  preferences :: "u8 list option \<times> u8 list option"
  safari_created :: "u32 option"
  safari_terminated :: "u32 option"

text \<open>The result, the address, the two files that are written, and the milliseconds slept.\<close>

definition safari_visitUrl :: "safari_env \<Rightarrow> url \<Rightarrow> u32 \<times> url \<times> wstring list \<times> u32" where
  "safari_visitUrl env u =
     (let files = (if folder_ok env
            then [setHomePage (fst (preferences env)) (url_text u), setHomePage (snd (preferences env)) (url_text u)]
            else [])
      in case safari_created env of
           Some e \<Rightarrow> (e, u\<lparr>majorErrorCode := CAPTURE_VISITATION_PROCESS_ERROR\<rparr>, files, 0)
         | None \<Rightarrow>
             let slept = word_of_int (visitTime u * 1000)
             in (case safari_terminated env of
                   Some e \<Rightarrow>
                     (e, u\<lparr>majorErrorCode := CAPTURE_VISITATION_PROCESS_ERROR, minorErrorCode := e\<rparr>, files, slept)
                 | None \<Rightarrow> (0, u, files, slept)))"

fun safari_urls :: "(nat \<Rightarrow> safari_env) \<Rightarrow> nat \<Rightarrow> url list \<Rightarrow> visit_event \<Rightarrow> visit_event \<times> url list" where
  "safari_urls env k [] v = (v, [])"
| "safari_urls env k (u # us) v =
     (let (result, u1, files, slept) = safari_visitUrl (env k) u;
          v1 = (if result \<noteq> 0 then setErrorCode result v else v);
          (v2, us2) = safari_urls env (Suc k) us v1
      in (v2, u1 # us2))"

definition safari_visitGroup :: "(nat \<Rightarrow> safari_env) \<Rightarrow> visit_event \<Rightarrow> visit_event" where
  "safari_visitGroup env v =
     (let (v1, us) = safari_urls env 0 (ve_urls v) v in v1\<lparr>ve_urls := us\<rparr>)"

subsection \<open>Facts about searching\<close>

lemma starts_with_iff: "starts_with p s \<longleftrightarrow> (\<exists>t. s = p @ t)"
  by (metis starts_with_append starts_withE)

lemma find_sub_Some:
  "find_sub p s = Some i \<Longrightarrow> i + length p \<le> length s \<and> starts_with p (drop i s)"
proof (induction p s arbitrary: i rule: find_sub.induct)
  case (2 p x s)
  show ?case
  proof (cases "starts_with p (x # s)")
    case True
    moreover have "length p \<le> length (x # s)"
      using True unfolding starts_with_iff by (metis le_add1 length_append)
    ultimately show ?thesis using 2(2) by auto
  next
    case False
    then show ?thesis using 2 by auto
  qed
qed (auto simp: starts_with_def split: if_split_asm)

text \<open>What is found depends on nothing behind it.\<close>

lemma find_sub_prefix:
  "find_sub p s = Some i \<Longrightarrow> i + length p \<le> n \<Longrightarrow> take n s = take n t \<Longrightarrow> find_sub p t = Some i"
proof (induction p s arbitrary: i n t rule: find_sub.induct)
  case (1 p)
  then show ?case by (cases t) (auto simp: starts_with_def split: if_split_asm)
next
  case (2 p x s)
  have le: "i + length p \<le> length (x # s)" using find_sub_Some [OF 2(2)] by simp
  have sw: "starts_with p (x # s) = starts_with p t" if "length p \<le> n"
    using 2(4) that unfolding starts_with_def by (metis min.absorb1 take_take)
  show ?case
  proof (cases "starts_with p (x # s)")
    case True
    then have "starts_with p t" using sw 2(3) by simp
    then show ?thesis using 2(2) True by (cases t) (auto simp: starts_with_def)
  next
    case False
    then obtain j where j: "find_sub p s = Some j" "i = Suc j" using 2(2) by auto
    obtain m where m: "n = Suc m" using 2(3) j(2) by (cases n) auto
    obtain t' where t: "t = x # t'" using 2(4) m by (cases t) auto
    have "find_sub p t' = Some j" using 2(1) [OF False j(1), of m t'] 2(3,4) j(2) m t by simp
    moreover have "\<not> starts_with p t" using False sw 2(3) by simp
    ultimately show ?thesis using j(2) t by simp
  qed
qed

lemma find_sub_skip:
  "c \<notin> set a \<Longrightarrow> find_sub (c # p) (a @ s) = map_option ((+) (length a)) (find_sub (c # p) s)"
  by (cases "find_sub (c # p) s"; induction a) (auto simp: starts_with_def)

lemma find_sub_here: "find_sub p (p @ s) = Some 0"
proof (cases "p @ s")
  case (Cons x t)
  have "starts_with p (x # t)" unfolding Cons [symmetric] by simp
  then show ?thesis by (simp add: Cons)
qed simp

lemma find_from_0: "find_from p (Some 0) s = find_sub p s"
  by (cases "find_sub p s") (simp_all add: find_from_def)

lemma find_from_Some:
  assumes "find_from p (Some i) s = Some j"
  shows "i \<le> j \<and> j + length p \<le> length s \<and> starts_with p (drop j s)"
proof -
  obtain m where m: "find_sub p (drop i s) = Some m" "j = i + m" "i \<le> length s"
    using assms by (auto simp: find_from_def split: if_split_asm)
  then show ?thesis using find_sub_Some [OF m(1)] by (auto simp: add.commute [of m])
qed

lemma find_from_prefix:
  assumes "find_from p (Some i) s = Some j" and "j + length p \<le> n" and "take n s = take n t" and "n \<le> length t"
  shows "find_from p (Some i) t = Some j"
proof -
  obtain m where m: "find_sub p (drop i s) = Some m" "j = i + m" "i \<le> length s"
    using assms(1) by (auto simp: find_from_def split: if_split_asm)
  have "take (n - i) (drop i s) = take (n - i) (drop i t)" using assms(3) by (simp flip: drop_take)
  then have "find_sub p (drop i t) = Some m"
    using find_sub_prefix [OF m(1), of "n - i" "drop i t"] assms(2) m(2) by simp
  then show ?thesis using assms(2,4) m(2) by (simp add: find_from_def)
qed

subsection \<open>The home page is the one that was set\<close>

definition home_page :: "wstring \<Rightarrow> wstring option" where
  "home_page d =
     (let i = find_from startString (find_from homepageTag (Some 0) d) d; j = find_from endString i d
      in case (i, j) of
           (Some i, Some j) \<Rightarrow> Some (take (j - (i + length startString)) (drop (i + length startString) d))
         | _ \<Rightarrow> None)"

lemmas safari_strings = startString_def endString_def homepageTag_def lastTag_def wide_def

text \<open>An address without an opening bracket ends where the closing tag begins.\<close>

lemma find_end:
  assumes "0x3C \<notin> set url"
  shows "find_sub endString (startString @ url @ endString @ r) = Some (length startString + length url)"
proof -
  have e: "endString = 0x3C # tl endString" and st: "startString = 0x3C # tl startString" "0x3C \<notin> set (tl startString)"
    by (simp_all add: safari_strings)
  have ns: "\<not> starts_with endString (0x3C # tl startString @ url @ endString @ r)"
    by (simp add: starts_with_def safari_strings)
  have "find_sub endString ((tl startString @ url) @ endString @ r) = Some (length (tl startString @ url))"
    using find_sub_skip [of "0x3C" "tl startString @ url" "tl endString" "endString @ r"] st(2) assms
      find_sub_here [of endString r] by (simp flip: e)
  then show ?thesis
    using ns st(1) by (metis Suc_eq_plus1_left add_Suc append_Cons append_assoc find_sub.simps(2) length_Cons length_append option.simps(9))
qed

text \<open>The start tag found behind the key does not overlap it.\<close>

lemma start_behind_key:
  assumes "starts_with homepageTag (drop k s)" and "k \<le> i" and "starts_with startString (drop i s)"
  shows "k + length homepageTag \<le> i + length startString"
proof (rule ccontr)
  assume n: "\<not> k + length homepageTag \<le> i + length startString"
  then obtain m where m: "i = k + m" "m < 11"
    using assms(2) by (auto simp: safari_strings dest: le_Suc_ex)
  obtain t where t: "drop k s = homepageTag @ t" using assms(1) starts_withE by blast
  have "drop i s = drop m (homepageTag @ t)" using t m(1) by (metis add.commute drop_drop)
  moreover obtain r where "drop i s = startString @ r" using assms(3) starts_withE by blast
  ultimately have "take 2 (drop m (homepageTag @ t)) = take 2 (startString @ r)" by simp
  moreover have "m = 0 \<or> m = 1 \<or> m = 2 \<or> m = 3 \<or> m = 4 \<or> m = 5 \<or> m = 6 \<or> m = 7 \<or> m = 8 \<or> m = 9 \<or> m = 10"
    using m(2) by presburger
  ultimately show False by (auto simp: safari_strings)
qed

text \<open>A string that does not overlap itself is found where it was put.\<close>

lemma find_sub_fresh:
  assumes "find_sub p a = None" and "\<And>d. 0 < d \<Longrightarrow> d < length p \<Longrightarrow> drop d p \<noteq> take (length p - d) p"
  shows "find_sub p (a @ p @ r) = Some (length a)"
  using assms(1)
proof (induction a)
  case Nil
  then show ?case by (simp add: find_sub_here)
next
  case (Cons x a)
  have "\<not> starts_with p (x # a @ p @ r)"
  proof
    assume s: "starts_with p (x # a @ p @ r)"
    show False
    proof (cases "length p \<le> Suc (length a)")
      case True
      have "take (length p) ((x # a) @ p @ r) = p" using s by (simp add: starts_with_def)
      then have "starts_with p (x # a)"
        using True unfolding take_append starts_with_def by simp
      then show ?thesis using Cons.prems by simp
    next
      case False
      define d where "d = Suc (length a)"
      have "take (length p) ((x # a) @ p @ r) = p" using s by (simp add: starts_with_def)
      then have "(x # a) @ take (length p - d) p = p" using False unfolding take_append by (simp add: d_def)
      then have "drop d p = take (length p - d) p" by (metis append_eq_conv_conj d_def length_Cons)
      then show ?thesis using assms(2) [of d] False by (simp add: d_def)
    qed
  qed
  then show ?case using Cons by (auto split: if_split_asm)
qed

lemma homepageTag_no_border:
  "0 < d \<Longrightarrow> d < length homepageTag \<Longrightarrow> drop d homepageTag \<noteq> take (length homepageTag - d) homepageTag"
proof -
  have "\<forall>d \<in> set [1..<19]. drop d homepageTag \<noteq> take (19 - d) homepageTag"
    by (simp add: safari_strings upt_conv_Cons)
  moreover have "length homepageTag = 19" by (simp add: homepageTag_def)
  ultimately show "0 < d \<Longrightarrow> d < length homepageTag \<Longrightarrow> drop d homepageTag \<noteq> take (length homepageTag - d) homepageTag"
    by simp
qed

lemma find_start_inserted: "find_sub startString (homepageTag @ 10 # 9 # 9 # startString @ r) = Some 22"
  by (simp add: safari_strings starts_with_def)

lemma home_page_replaced:
  assumes url: "0x3C \<notin> set url" and "home_page d \<noteq> None"
  shows "home_page (set_home_page url d) = Some url"
proof -
  obtain k i j where k: "find_from homepageTag (Some 0) d = Some k" and i: "find_from startString (Some k) d = Some i"
    and j: "find_from endString (Some i) d = Some j"
  proof -
    obtain i j where ij: "find_from startString (find_from homepageTag (Some 0) d) d = Some i"
      "find_from endString (Some i) d = Some j"
      using assms(2) by (auto simp: home_page_def Let_def split: option.splits)
    then obtain k where "find_from homepageTag (Some 0) d = Some k"
      by (cases "find_from homepageTag (Some 0) d") (auto simp: find_from_def)
    then show ?thesis using ij that by simp
  qed
  define n where "n = i + length startString"
  define t where "t = take n d @ url @ drop j d"
  have t: "set_home_page url d = t" by (simp add: set_home_page_def k i j t_def n_def Let_def)
  have fi: "k \<le> i" "n \<le> length d" "starts_with startString (drop i d)"
    using find_from_Some [OF i] by (simp_all add: n_def)
  have fk: "starts_with homepageTag (drop k d)" using find_from_Some [OF k] by simp
  have n: "k + length homepageTag \<le> n" unfolding n_def by (rule start_behind_key [OF fk fi(1,3)])
  have eq: "take n d = take n t" "n \<le> length t" using fi(2) by (simp_all add: t_def)
  have k': "find_from homepageTag (Some 0) t = Some k" by (rule find_from_prefix [OF k n eq])
  have i': "find_from startString (Some k) t = Some i"
    by (rule find_from_prefix [OF i _ eq]) (simp add: n_def)
  obtain r where r: "drop j d = endString @ r" using find_from_Some [OF j] starts_withE by blast
  have "drop i (take n d) = startString"
    using fi(3) by (simp add: n_def starts_with_def drop_take)
  then have di: "drop i t = startString @ url @ endString @ r"
    using fi(2) by (simp add: t_def r n_def)
  have "i \<le> length t" using eq(2) by (simp add: n_def)
  then have j': "find_from endString (Some i) t = Some (n + length url)"
    using find_end [OF url, of r] by (simp add: find_from_def di n_def)
  have "drop n t = url @ endString @ r"
    using di by (simp add: n_def flip: drop_drop) (metis add.commute append_eq_conv_conj drop_drop)
  then show ?thesis
    unfolding t home_page_def by (simp add: k' i' j' Let_def flip: n_def)
qed

lemma home_page_inserted:
  assumes url: "0x3C \<notin> set url" and no: "find_sub homepageTag d = None" and l: "find_sub lastTag d = Some l"
  shows "home_page (set_home_page url d) = Some url"
proof -
  define r where "r = 10 # drop l d"
  define t where "t = take l d @ homepageTag @ 10 # 9 # 9 # startString @ url @ endString @ r"
  have t: "set_home_page url d = t" by (simp add: set_home_page_def find_from_0 no l t_def r_def)
  have len: "l \<le> length d" using find_sub_Some [OF l] by simp
  have "find_sub homepageTag (take l d) = None"
  proof (rule ccontr)
    assume "find_sub homepageTag (take l d) \<noteq> None"
    then obtain m where m: "find_sub homepageTag (take l d) = Some m" by blast
    have "m + length homepageTag \<le> l" using find_sub_Some [OF m] by simp
    then have "find_sub homepageTag d = Some m" by (rule find_sub_prefix [OF m]) simp
    then show False using no by simp
  qed
  then have k: "find_from homepageTag (Some 0) t = Some l"
    using find_sub_fresh [OF _ homepageTag_no_border, of "take l d"] len by (simp add: find_from_0 t_def)
  have dl: "drop l t = homepageTag @ 10 # 9 # 9 # startString @ url @ endString @ r" "l \<le> length t"
    using len by (simp_all add: t_def)
  have i: "find_from startString (Some l) t = Some (l + 22)"
    using dl by (simp add: find_from_def find_start_inserted)
  have "length homepageTag = 19" by (simp add: homepageTag_def)
  then have di: "drop (l + 22) t = startString @ url @ endString @ r"
    using dl(1) by (simp add: add.commute [of l] flip: drop_drop)
  have "l + 22 \<le> length t" using find_from_Some [OF i] by simp
  then have j: "find_from endString (Some (l + 22)) t = Some (l + 22 + length startString + length url)"
    using find_end [OF url, of r] by (simp add: find_from_def di)
  have "drop (l + 22 + length startString) t = url @ endString @ r"
    using di by (metis add.commute append_eq_conv_conj drop_drop)
  then show ?thesis
    unfolding t home_page_def by (simp add: k i j Let_def)
qed

text \<open>Reading the lines and putting them together gives the text back.\<close>

lemma join_split: "join_lines (split_on 10 s) = s"
proof (induction s)
  case (Cons x s)
  then show ?case
    by (cases "split_on 10 s" rule: join_lines.cases) auto
qed simp

end
