(* ===== verification/PluginClaims.thy ===== *)
theory PluginClaims
  imports BrowserPoolRuns BrowserVisit ConfigPlugin SafariPlugin
begin

text \<open>
  What the plug-ins promise, and where they do not keep it: the pool of browser threads, one
  visit with a browser, the error of a group, the applications of the configuration file, and
  the home page of Safari.
\<close>

subsection \<open>The pool of browsers\<close>

definition url0 :: url where
  "url0 = new_url (wide ''http://a.b/'') (wide ''iexplorebulk'') 5"

definition visit0 :: "nat \<Rightarrow> url \<Rightarrow> url" where
  "visit0 k u = u\<lparr>visited := True, url_processId := of_nat (k + 100)\<rparr>"

text \<open>
  C10. Every group is visited exactly once. However the threads of the pool and the caller are
  interleaved, and however many groups have been visited before, the caller never reads beyond
  the addresses or the flags of the workers, and when \<open>visitGroup\<close> leaves its loop, every address
  has been visited by its own instance once, no worker is busy and no event is left over.
\<close>
theorem group_visited_once:
  assumes "pool_groups gs p" and "pool_run visit (start_group us p) s"
  shows "list_all visited_each gs \<and> (\<exists>s'. caller_turn s = Inr s') \<and> length (opened s) \<le> length us \<and>
    (if caller_at s = Done then pool_idle s \<and> visited_each (us, visit, group_urls s) else True)"
proof -
  have gs: "pool_idle p" "list_all visited_each gs" using pool_groups_idle [OF assms(1)] by simp_all
  have inv: "pool_inv visit us s" by (rule pool_run_inv [OF assms(2) start_group_inv [OF gs(1)]])
  have "\<exists>s'. caller_turn s = Inr s'" using caller_turn_inv [OF inv] by blast
  moreover have "length (opened s) \<le> length us"
  proof -
    have "mset (opened s) \<subseteq># mset_set {..<to_visit s}" "to_visit s \<le> length us"
      using inv by (auto simp: pool_inv_def) (metis mset_subset_eq_add_left)
    then show ?thesis using size_mset_mono by fastforce
  qed
  moreover have "pool_idle s \<and> visited_each (us, visit, group_urls s)" if "caller_at s = Done"
    using all_opened [OF inv] inv that by (simp add: pool_inv_def caller_ok_def visited_each_def)
  ultimately show ?thesis using gs(2) by simp
qed

lemma sixty: "length us = n \<Longrightarrow> n \<le> 60 \<Longrightarrow> length us \<le> MAX_WORKER_THREADS"
  by (simp add: MAX_WORKER_THREADS_def)

theorem group_visited_once_witness:
  "\<exists>s t. pool_groups [([url0, url0], visit0, group_urls s)] s \<and> pool_run visit0 (start_group [url0] s) t \<and>
     caller_at t = Done \<and> group_urls s = [visit0 0 url0, visit0 1 url0] \<and> group_urls t = [visit0 0 url0]"
proof -
  obtain s where s: "pool_run visit0 (start_group [url0, url0] new_pool) s" "caller_at s = Done"
    using small_group_ends [OF small_inv_start [OF new_pool_idle] sixty [of "[url0, url0]" 2], of visit0] by auto
  have g: "pool_groups [([url0, url0], visit0, group_urls s)] s"
    using pool_groups.next_group [OF no_group s] by simp
  then have i: "pool_idle s" using pool_groups_idle by blast
  obtain t where t: "pool_run visit0 (start_group [url0] s) t" "caller_at t = Done"
    using small_group_ends [OF small_inv_start [OF i] sixty [of "[url0]" 1], of visit0] by auto
  show ?thesis
    using group_visited_once [OF g t(1)] g t by (intro exI [of _ s] exI [of _ t]) (simp add: visited_each_def)
qed

text \<open>
  C11. Groups of at most sixty addresses come to an end: whatever has happened so far, the visit
  of the group can still be completed, since no worker is given a second address before the
  end of its first has been counted.
\<close>
theorem small_group_completes:
  assumes "pool_idle p" and "length us \<le> MAX_WORKER_THREADS" and "pool_run visit (start_group us p) s"
  shows "\<exists>t. pool_run visit s t \<and> caller_at t = Done"
  using small_group_ends [OF pool_run_small [OF assms(3) small_inv_start [OF assms(1)] assms(2)] assms(2)] .

theorem small_group_completes_witness:
  "\<exists>t. pool_run visit0 (start_group (replicate 60 url0) new_pool) t \<and> caller_at t = Done"
proof -
  have "length (replicate 60 url0) \<le> MAX_WORKER_THREADS" by (simp add: MAX_WORKER_THREADS_def)
  then show ?thesis by (rule small_group_completes [OF new_pool_idle _ pool_refl])
qed

text \<open>
  C12. Larger groups may hang. With more than sixty addresses there is an order of steps after
  which \<open>visitGroup\<close> never returns, although every browser ends: a worker that is no longer
  busy is given its next address before it has set the event of the first, the event is then
  taken for one of a busy worker, and that visit is never counted.
\<close>
theorem large_group_hangs:
  assumes "pool_idle p" and "MAX_WORKER_THREADS < length us"
  shows "\<exists>s. pool_run visit (start_group us p) s \<and> (\<nexists>t. pool_run visit s t \<and> caller_at t = Done)"
  using large_group_missed [OF assms, of visit] missed_never_done by blast

theorem large_group_hangs_witness:
  "\<exists>s. pool_run visit0 (start_group (replicate 61 url0) new_pool) s \<and> (\<nexists>t. pool_run visit0 s t \<and> caller_at t = Done)"
proof -
  have "MAX_WORKER_THREADS < length (replicate 61 url0)" by (simp add: MAX_WORKER_THREADS_def)
  then show ?thesis by (rule large_group_hangs [OF new_pool_idle])
qed

subsection \<open>A visit with the browser\<close>

text \<open>
  C23. What becomes of an address. Once the browser runs and is connected, the address gets the
  process of the browser; it counts as visited unless the wait timed out or the last network
  error of the main address is one of the browser's own (\<open>0x800C0000\<close> to \<open>0x800CFFFF\<close>); and its
  code says, in this order, that the process was gone, the time was up, there was a network
  error, or that all went well.
\<close>
theorem browser_visit_outcome:
  assumes "ie_created env = Inr pid" and "\<exists>w < 200. window_found env w" and "container_ok env"
    and "connection_ok env" and "ie_events env = BeforeNavigate2 m # es"
  shows "\<exists>u' b slept. bulk_visitUrl env new_browser u = Inr (u', b, slept) \<and> url_processId u' = pid \<and>
    (let ended = (\<exists>e \<in> set es. ends_visit (ie_same env) m e); code = reported (ie_same env) m es
     in majorErrorCode u' =
          (if \<not> closed_ok env then CAPTURE_VISITATION_WARNING
           else if \<not> ended then CAPTURE_VISITATION_TIMEOUT_ERROR
           else case code of None \<Rightarrow> CAPTURE_VISITATION_OK | Some c \<Rightarrow> CAPTURE_VISITATION_NETWORK_ERROR) \<and>
        visited u' = (visited u \<or> ended \<and> (case code of None \<Rightarrow> True | Some c \<Rightarrow> c < 0x800C0000 \<or> 0x800CFFFF < c)))"
proof -
  let ?b = "new_browser\<lparr>hVisiting := False, dwNetworkErrorCode := 0, br_major := CAPTURE_VISITATION_OK, mainURL := None\<rparr>"
  obtain r b1 where b1: "browser_executeProcess env ?b = Inr (r, b1)"
    and b1': "br_processId b1 = pid" "mainURL b1 = None" "\<not> hVisiting b1" "br_major b1 = 0" "br_minor b1 = 0"
  proof -
    have "\<exists>w. wait_for 200 True (\<lambda>w. Inr (window_found env w)) 0 = Inr w"
      using wait_for_result [of "\<lambda>w. Inr (window_found env w)" "window_found env" 0 200 True] by auto
    then show ?thesis using that by (auto simp: browser_executeProcess_def assms(1) new_browser_def)
  qed
  have r: "r = 0" "br_browser b1"
    using browser_window [OF b1] assms(1,2) by auto
  have m: "mainURL (b1\<lparr>mainURL := Some m\<rparr>) = Some m" by simp
  obtain b2 where b2: "invoke_all (ie_same env) es (b1\<lparr>mainURL := Some m\<rparr>) = Inr b2"
    "hVisiting b2 = (\<exists>e \<in> set es. ends_visit (ie_same env) m e)" "br_processId b2 = pid"
    "(br_major b2, br_minor b2) =
      (case reported (ie_same env) m es of None \<Rightarrow> (0, 0) | Some c \<Rightarrow> (CAPTURE_VISITATION_NETWORK_ERROR, c))"
  proof -
    have f: "hVisiting (b1\<lparr>mainURL := Some m\<rparr>) = False" "br_processId (b1\<lparr>mainURL := Some m\<rparr>) = pid"
      "br_major (b1\<lparr>mainURL := Some m\<rparr>) = 0" "br_minor (b1\<lparr>mainURL := Some m\<rparr>) = 0"
      using b1' by simp_all
    show ?thesis
      using invoke_main [OF m, of "ie_same env" es] that unfolding reported_def f by blast
  qed
  have i: "invoke_all (ie_same env) (ie_events env) b1 = Inr b2"
    by (simp add: assms(5) Invoke_def b1'(2) b2(1))
  show ?thesis
    using b2(2,3,4) r
    by (auto simp: bulk_visitUrl_def b1 assms(3,4) i navigated_def warn_closed_def Let_def split_beta
        not_le split: option.splits)
qed

definition ie_env0 :: ie_env where
  "ie_env0 = \<lparr>ie_same = (\<lambda>a b. a = b), ie_created = Inr 77, window_found = (\<lambda>w. w = 3), container_ok = True,
     connection_ok = True, ie_events = [BeforeNavigate2 [1], NavigateError [2] 404, NavigateError [1] 0x800C0005],
     closed_ok = True\<rparr>"

theorem browser_visit_outcome_witness:
  "\<exists>u' b slept. bulk_visitUrl ie_env0 new_browser url0 = Inr (u', b, slept) \<and> url_processId u' = 77 \<and>
     majorErrorCode u' = CAPTURE_VISITATION_NETWORK_ERROR \<and> \<not> visited u'"
proof -
  have w: "\<exists>w < 200. window_found ie_env0 w" by (intro exI [of _ 3]) (simp add: ie_env0_def)
  have ev: "ie_events ie_env0 = BeforeNavigate2 [1] # [NavigateError [2] 404, NavigateError [1] 0x800C0005]"
    "ie_same ie_env0 = (\<lambda>a b. a = b)" "closed_ok ie_env0"
    by (simp_all add: ie_env0_def)
  show ?thesis
    using browser_visit_outcome [OF _ w _ _ ev(1), of 77 url0]
    by (simp add: ev(2,3) ie_env0_def ends_visit_def reported_def url0_def new_url_def)
qed

text \<open>
  The error of a group is that of the only address that has one, if it is the last; any
  address behind an error, even one that was visited without error, turns it into the code of
  several errors, and so does browsers that cannot be closed.
\<close>
theorem group_error_code:
  assumes "ve_errorCode v = CAPTURE_VISITATION_OK"
  shows "ve_errorCode (group_finished closeError us v) =
    (let codes = dropWhile (\<lambda>c. c = CAPTURE_VISITATION_OK) (map majorErrorCode us)
     in case codes of
          [] \<Rightarrow> if closeError = 0 then CAPTURE_VISITATION_OK else CAPTURE_VISITATION_WARNING
        | [c] \<Rightarrow> if closeError = 0 then c else CAPTURE_VISITATION_MULTIPLE_ERRORS
        | _ \<Rightarrow> CAPTURE_VISITATION_MULTIPLE_ERRORS)"
proof -
  define codes where "codes = dropWhile (\<lambda>c. c = CAPTURE_VISITATION_OK) (map majorErrorCode us)"
  have c: "ve_errorCode (fold (\<lambda>u. setErrorCode (majorErrorCode u)) us (v\<lparr>ve_urls := us\<rparr>)) =
      (case codes of [] \<Rightarrow> CAPTURE_VISITATION_OK | [c] \<Rightarrow> c | _ \<Rightarrow> CAPTURE_VISITATION_MULTIPLE_ERRORS)"
    unfolding codes_def using assms by (intro setErrorCodes) simp
  have ne: "c \<noteq> CAPTURE_VISITATION_OK" if "codes = c # cs" for c cs
    using that unfolding codes_def by (metis (mono_tags) hd_dropWhile list.discI list.sel(1))
  show ?thesis
    unfolding group_finished_def Let_def codes_def [symmetric]
    using ne by (cases codes rule: remdups_adj.cases) (auto simp: errorCode_set c)
qed

theorem group_error_code_witness:
  "ve_errorCode (group_finished 0 [url0\<lparr>majorErrorCode := CAPTURE_VISITATION_TIMEOUT_ERROR\<rparr>, url0] new_visit_event) =
     CAPTURE_VISITATION_MULTIPLE_ERRORS \<and>
   ve_errorCode (group_finished 0 [url0, url0\<lparr>majorErrorCode := CAPTURE_VISITATION_TIMEOUT_ERROR\<rparr>] new_visit_event) =
     CAPTURE_VISITATION_TIMEOUT_ERROR"
proof -
  have v: "ve_errorCode new_visit_event = CAPTURE_VISITATION_OK" by (simp add: new_visit_event_def)
  show ?thesis by (simp add: group_error_code [OF v] url0_def new_url_def)
qed

subsection \<open>Configured applications\<close>

text \<open>
  The configuration file. From lines with a name, a path and perhaps a third field, the
  plug-in takes for every name the first line that has it, downloads for it exactly when the
  third field is \<open>yes\<close>, and hands out an array that has each of these names once and is ended
  by a null pointer.
\<close>
theorem applications_loaded:
  assumes "list_all app_line_ok ls"
  shows "\<exists>m names. loadApplicationsList (Some (concat (map (\<lambda>l. app_line_text l @ [10]) ls))) = Inr (m, map Some names @ [None]) \<and>
    map_of m = map_of (map app_line_entry ls) \<and> distinct names \<and> set names = fst ` set (map app_line_entry ls)"
proof -
  obtain m where m: "loadApplicationsList (Some (concat (map (\<lambda>l. app_line_text l @ [10]) ls))) =
      Inr (m, map Some (map fst m) @ [None])" "map_of m = map_of (map app_line_entry ls)" "distinct (map fst m)"
    using loadApplicationsList_lines [of ls] assms by (auto simp: list_all_iff)
  have "set (map fst m) = dom (map_of m)" by (simp add: dom_map_of_conv_image_fst)
  also have "\<dots> = fst ` set (map app_line_entry ls)" unfolding m(2) by (simp add: dom_map_of_conv_image_fst)
  finally show ?thesis using m by blast
qed

definition lines0 :: "app_line list" where
  "lines0 = [([0x61], [0x62], None), ([0x63], [0x64], Some [0x79, 0x65, 0x73]), ([0x61], [0x65], None)]"

theorem applications_loaded_witness:
  "\<exists>m names. loadApplicationsList (Some (concat (map (\<lambda>l. app_line_text l @ [10]) lines0))) = Inr (m, map Some names @ [None]) \<and>
     map_of m [0x61] = Some \<lparr>app_path = [0x62], downloadURL = False\<rparr> \<and> distinct names \<and> set names = {[0x61], [0x63]}"
proof -
  have ok: "list_all app_line_ok lines0" by (simp add: lines0_def app_line_ok_def field_ok_def)
  have w: "widen 0x61 = 0x61" "widen 0x62 = 0x62" "widen 0x63 = 0x63" "widen 0x64 = 0x64" "widen 0x65 = 0x65"
    by (simp_all add: widen_def)
  have e: "map app_line_entry lines0 = [([0x61], \<lparr>app_path = [0x62], downloadURL = False\<rparr>),
      ([0x63], \<lparr>app_path = [0x64], downloadURL = map widen [0x79, 0x65, 0x73] = wide ''yes''\<rparr>),
      ([0x61], \<lparr>app_path = [0x65], downloadURL = False\<rparr>)]"
    by (simp add: lines0_def app_line_entry_def w)
  show ?thesis using applications_loaded [OF ok] unfolding e by auto
qed

text \<open>
  C24. Visiting with a configured application. When for every address the download (if the
  application wants one) succeeds and the application opens within a minute and is gone within
  half a minute of being closed, the visit ends without error and every address has the process
  that was started for it.
\<close>
theorem config_visit_clean:
  assumes "map_of m (ve_program v) = Some app" and "ve_urls v \<noteq> []"
    and "list_all (\<lambda>i. opens_and_closes env app i (ve_urls v ! i)) [0..<length (ve_urls v)]"
  shows "\<exists>us. config_visitGroup env m v = Inr (v\<lparr>ve_urls := us\<rparr>) \<and> length us = length (ve_urls v) \<and>
    list_all (\<lambda>i. \<exists>target. fetch_target env app i (ve_urls v ! i) = Inr (0, target) \<and>
      us ! i = (ve_urls v ! i)\<lparr>url_processId := ph_processId (handler_for env app i target)\<rparr>) [0..<length (ve_urls v)]"
proof -
  obtain us phs where us: "open_urls env app 0 (ve_urls v) v = Inr (v, us, phs, False)"
    "length us = length (ve_urls v)"
    "\<forall>i < length (ve_urls v). \<exists>target. fetch_target env app i (ve_urls v ! i) = Inr (0, target) \<and>
       us ! i = (ve_urls v ! i)\<lparr>url_processId := ph_processId (handler_for env app i target)\<rparr>"
    "\<forall>w. close_urls env 0 (zip us phs) w = Inr (w, us)"
    using open_urls_well [of "ve_urls v" env app 0 v] assms(3) by (auto simp: list_all_iff)
  then have "config_visitGroup env m v = Inr (v\<lparr>ve_urls := us\<rparr>)"
    using assms(1,2) by (auto simp: config_visitGroup_def)
  then show ?thesis using us(2,3) by (auto simp: list_all_iff)
qed

definition list0 :: "bool \<Rightarrow> process_list" where
  "list0 there =
     \<lparr>enum_ok = True, aProcesses = [4, 8], cbNeeded = 8, image_of = (\<lambda>pid. if pid = 8 \<and> there then Some [1] else None),
      terminate_error = (\<lambda>_. None)\<rparr>"

definition config_env0 :: visit_env where
  "config_env0 =
     \<lparr>v_text = \<lparr>regex_valid = \<lambda>r. True, regex_match = \<lambda>r s. r = s, towlower = \<lambda>c. c, allow_garbage = False\<rparr>,
      temp_path = [], downloads = (\<lambda>k. ([OtherProgress], [EndDownloadData])), created = (\<lambda>k. Inr 8),
      open_polls = (\<lambda>k w. list0 (3 \<le> w)), open_error = (\<lambda>k. 0), own_error = (\<lambda>k. None),
      at_close = (\<lambda>k. list0 True), close_polls = (\<lambda>k w. list0 (w < 2))\<rparr>"

definition app0 :: "bool \<Rightarrow> application" where
  "app0 dl = \<lparr>app_path = [0x63, 0x5C, 1], downloadURL = dl\<rparr>"

definition visit_event0 :: visit_event where
  "visit_event0 = new_visit_event\<lparr>ve_urls := [url0, url0], ve_program := [7]\<rparr>"

lemma handler0: "exe_name (m_fullPathToExe (handler_for config_env0 (app0 False) k t)) = [1]"
  using exe_name_path [of "[1]" "[0x63]"]
  by (simp add: handler_for_def executeProcess_def config_env0_def app0_def new_process_handler_def)

lemma isOpen0: "isOpen (v_text config_env0) (list0 b) (handler_for config_env0 (app0 False) k t) = Inr b"
proof -
  have "wide ''<unknown>'' \<noteq> [1]" by (simp add: wide_def)
  then have c: "compareName (v_text config_env0) (list0 b) pid [1] \<longleftrightarrow> pid = 8 \<and> b" for pid
    by (simp add: compareName_def config_env0_def lower_case_def list0_def)
  have l: "enum_ok (list0 b)" "aProcesses (list0 b) = [4, 8]" "process_count (list0 b) = 2"
    by (simp_all add: list0_def process_count_def)
  show ?thesis
    using isOpen_iff [of "list0 b" "v_text config_env0" "handler_for config_env0 (app0 False) k t"]
    by (simp add: l handler0 c)
qed

theorem config_visit_clean_witness:
  "\<exists>us. config_visitGroup config_env0 [([7], app0 False)] visit_event0 = Inr (visit_event0\<lparr>ve_urls := us\<rparr>) \<and>
     length us = 2 \<and> url_processId (us ! 1) = 8"
proof -
  have f: "fetch_target config_env0 (app0 False) i u = Inr (0, url_text u)" for i u
    by (simp add: fetch_target_def app0_def)
  have pid: "ph_processId (handler_for config_env0 (app0 False) k t) = 8" for k t
    by (simp add: handler_for_def executeProcess_def config_env0_def)
  have polls: "open_polls config_env0 k w = list0 (3 \<le> w)" "close_polls config_env0 k w = list0 (w < 2)" for k w
    by (simp_all add: config_env0_def)
  have close: "\<exists>r. closeProcess (v_text config_env0) (own_error config_env0 k) (at_close config_env0 k) h = Inr r" for k h
    unfolding closeProcess_def terminate_named_def
    by (subst each_process_fold) (simp_all add: config_env0_def list0_def process_count_def)
  have ok: "opens_and_closes config_env0 (app0 False) i u" for i u
    unfolding opens_and_closes_def f Let_def polls
    using close [of i "handler_for config_env0 (app0 False) i (url_text u)"]
    by (auto simp: isOpen0 intro: exI [of _ 3] exI [of _ 2])
  have n: "length (ve_urls visit_event0) = 2" by (simp add: visit_event0_def)
  have "map_of [([7], app0 False)] (ve_program visit_event0) = Some (app0 False)" by (simp add: visit_event0_def)
  then have "\<exists>us. config_visitGroup config_env0 [([7], app0 False)] visit_event0 = Inr (visit_event0\<lparr>ve_urls := us\<rparr>) \<and>
      length us = length (ve_urls visit_event0) \<and>
      list_all (\<lambda>i. \<exists>target. fetch_target config_env0 (app0 False) i (ve_urls visit_event0 ! i) = Inr (0, target) \<and>
        us ! i = (ve_urls visit_event0 ! i)\<lparr>url_processId := ph_processId (handler_for config_env0 (app0 False) i target)\<rparr>)
        [0..<length (ve_urls visit_event0)]"
    by (rule config_visit_clean) (simp_all add: visit_event0_def list_all_iff ok)
  then show ?thesis by (auto simp: list_all_iff n pid)
qed

text \<open>
  A failed download is fatal. A visit with a configured application that comes to its end
  is one in which no download failed: where one did, the handler of the address is a null
  pointer, and closing the applications goes through it.
\<close>
theorem config_visit_downloads:
  assumes "map_of m (ve_program v) = Some app" and "config_visitGroup env m v = Inr w"
  shows "list_all (\<lambda>i. \<exists>target. fetch_target env app i (ve_urls v ! i) = Inr (0, target)) [0..<length (ve_urls v)]"
proof -
  obtain v1 us1 phs failed r where o: "open_urls env app 0 (ve_urls v) v = Inr (v1, us1, phs, failed)"
    "close_urls env 0 (zip us1 phs) v1 = Inr r"
    using assms by (auto simp: config_visitGroup_def and_then_Inr_iff split: if_split_asm)
  have "snd ` set (zip us1 phs) = set phs"
    using open_urls_lengths [OF o(1)] by (metis map_snd_zip set_map)
  then have "None \<notin> set phs" using close_urls_no_null [OF o(2)] by simp
  then show ?thesis using open_urls_no_null [OF o(1)] by (simp add: list_all_iff)
qed

theorem config_visit_downloads_witness:
  "\<exists>e. config_visitGroup config_env0 [([7], app0 True)] visit_event0 = Inl e"
proof (cases "config_visitGroup config_env0 [([7], app0 True)] visit_event0")
  case (Inr w)
  have "map_of [([7], app0 True)] (ve_program visit_event0) = Some (app0 True)" by (simp add: visit_event0_def)
  then have "list_all (\<lambda>i. \<exists>target. fetch_target config_env0 (app0 True) i (ve_urls visit_event0 ! i) = Inr (0, target))
      [0..<length (ve_urls visit_event0)]"
    by (rule config_visit_downloads [OF _ Inr])
  then obtain target where "fetch_target config_env0 (app0 True) 0 (ve_urls visit_event0 ! 0) = Inr (0, target)"
    by (auto simp: visit_event0_def)
  then have "Download (temp_path config_env0) [OtherProgress] [EndDownloadData] (url_text url0) = Inr (0, target)"
    by (auto simp: fetch_target_def app0_def and_then_Inr_iff config_env0_def visit_event0_def)
  then show ?thesis using Download_status by fastforce
qed blast

subsection \<open>Safari\<close>

text \<open>
  The home page. When the preferences have a home page, or have none but the end of a
  dictionary, the page found in them afterwards is the address that was set, provided the
  address has no opening bracket (it is not escaped).
\<close>
theorem home_page_set:
  assumes "0x3C \<notin> set url"
    and "home_page d \<noteq> None \<or> find_sub homepageTag d = None \<and> find_sub lastTag d \<noteq> None"
  shows "home_page (set_home_page url d) = Some url"
  using assms home_page_replaced home_page_inserted by blast

theorem home_page_set_witness:
  "home_page (set_home_page (wide ''http://a/'') (lastTag @ [10])) = Some (wide ''http://a/'') \<and>
   home_page (set_home_page [1] (homepageTag @ startString @ [2, 3] @ endString)) = Some [1]"
proof
  have "find_sub lastTag (lastTag @ [10]) = Some 0" by (rule find_sub_here)
  moreover have "find_sub homepageTag (lastTag @ [10]) = None"
    by (simp add: safari_strings starts_with_def)
  ultimately have p: "home_page (lastTag @ [10]) \<noteq> None \<or>
      find_sub homepageTag (lastTag @ [10]) = None \<and> find_sub lastTag (lastTag @ [10]) \<noteq> None" by simp
  show "home_page (set_home_page (wide ''http://a/'') (lastTag @ [10])) = Some (wide ''http://a/'')"
    by (rule home_page_set [OF _ p]) (simp add: wide_def)
  have "home_page (homepageTag @ startString @ [2, 3] @ endString) \<noteq> None"
    by (simp add: home_page_def find_from_def safari_strings starts_with_def)
  then have q: "home_page (homepageTag @ startString @ [2, 3] @ endString) \<noteq> None \<or>
      find_sub homepageTag (homepageTag @ startString @ [2, 3] @ endString) = None \<and>
      find_sub lastTag (homepageTag @ startString @ [2, 3] @ endString) \<noteq> None" by simp
  show "home_page (set_home_page [1] (homepageTag @ startString @ [2, 3] @ endString)) = Some [1]"
    by (rule home_page_set [OF _ q]) simp
qed

end
