(* ===== verification/NetworkCapture.thy ===== *)
theory NetworkCapture
  imports WideText
begin

text \<open>
  The capture of network packets: the adapters and their threads (\<open>NetworkAdapter.cpp\<close>,
  \<open>Thread.h\<close>) and the dumper that owns them (\<open>NetworkPacketDumper.cpp\<close>). The packet capture
  library is a parameter: which of its functions were found, and the devices it lists.
\<close>

subsection \<open>The library\<close>

datatype winpcap_function = findalldevs | open_live | pcap_close | dump_open | freealldevs | dump_close | next_ex | dump

definition winpcap_functions :: "winpcap_function list" where
  "winpcap_functions = [findalldevs, open_live, pcap_close, dump_open, freealldevs, dump_close, next_ex, dump]"

text \<open>
  A device has a name or none, the handle it is opened with, and its addresses: whether one is
  of the internet family and its text; \<open>None\<close> is an entry without an address.
\<close>

record device =
  dev_name :: "string option"
  opened_as :: "nat option"
  dev_addresses :: "(bool \<times> string) option list"

record winpcap =
  loaded :: bool
  found :: "winpcap_function \<Rightarrow> bool"
  device_list :: "device list option"

definition pfn :: "winpcap \<Rightarrow> winpcap_function \<Rightarrow> client_error + unit" where
  "pfn w f = (if found w f then Inr () else Inl NULL_POINTER)"

subsection \<open>Threads\<close>

text \<open>
  The event of a thread has a name and is never closed: a new thread of the same name gets the
  old event as it is. \<open>stop_events\<close> are the names whose event is set.
\<close>

type_synonym stop_events = "string set"

definition thread_stop :: "string \<Rightarrow> stop_events \<Rightarrow> stop_events" where
  "thread_stop n es = insert n es"

definition thread_delete :: "string \<Rightarrow> stop_events \<Rightarrow> stop_events" where
  "thread_delete n es = es - {n}"

definition shouldStop :: "string \<Rightarrow> stop_events \<Rightarrow> bool" where
  "shouldStop n es \<longleftrightarrow> n \<in> es"

subsection \<open>An adapter\<close>

record adapter =
  adapterName :: string
  ad_handle :: nat
  running :: bool
  dumpFile :: bool

definition new_adapter :: "string \<Rightarrow> nat \<Rightarrow> adapter" where
  "new_adapter n h = \<lparr>adapterName = n, ad_handle = h, running = False, dumpFile = False\<rparr>"

text \<open>\<open>file_ok\<close>: the dump file of the adapter could be opened.\<close>

definition adapter_start :: "winpcap \<Rightarrow> (string \<Rightarrow> bool) \<Rightarrow> adapter \<Rightarrow> client_error + adapter" where
  "adapter_start w file_ok a =
     (if running a then Inr a
      else and_then (pfn w dump_open) (\<lambda>_. Inr (a\<lparr>dumpFile := file_ok (adapterName a), running := True\<rparr>)))"

text \<open>The thread is told to stop, waited for or terminated, and deleted.\<close>

definition adapter_stop :: "winpcap \<Rightarrow> adapter \<Rightarrow> stop_events \<Rightarrow> client_error + (adapter \<times> stop_events)" where
  "adapter_stop w a es =
     (if running a
      then and_then (if dumpFile a then pfn w dump_close else Inr ()) (\<lambda>_.
           Inr (a\<lparr>running := False\<rparr>, thread_delete (adapterName a) (thread_stop (adapterName a) es)))
      else Inr (a, es))"

text \<open>
  The thread: at every turn whether it has been told to stop, what \<open>pcap_next_ex\<close> returns and the
  packet; the result are the packets that are written.
\<close>

fun adapter_run :: "bool \<Rightarrow> (bool \<times> int \<times> 'p) list \<Rightarrow> 'p list" where
  "adapter_run file [] = []"
| "adapter_run file ((stop, res, p) # ts) =
     (if \<not> stop \<and> res \<ge> 0 then (if res > 0 \<and> file then p # adapter_run file ts else adapter_run file ts)
      else [])"

subsection \<open>The dumper\<close>

record dumper =
  monitorRunning :: bool
  driverInstalled :: bool
  adapterList :: "adapter list"
  stop_flags :: stop_events

text \<open>The family is read before the pointer is tested.\<close>

fun add_addresses :: "nat \<Rightarrow> (bool \<times> string) option list \<Rightarrow> client_error + adapter list" where
  "add_addresses h [] = Inr []"
| "add_addresses h (None # as) = Inl NULL_POINTER"
| "add_addresses h (Some (inet, n) # as) =
     and_then (add_addresses h as) (\<lambda>l. Inr (if inet then new_adapter n h # l else l))"

fun add_devices :: "winpcap \<Rightarrow> device list \<Rightarrow> client_error + adapter list" where
  "add_devices w [] = Inr []"
| "add_devices w (d # ds) =
     (case dev_name d of
        None \<Rightarrow> add_devices w ds
      | Some n \<Rightarrow>
          and_then (pfn w open_live) (\<lambda>_.
          and_then (case opened_as d of None \<Rightarrow> Inr [] | Some h \<Rightarrow> add_addresses h (dev_addresses d)) (\<lambda>l.
          and_then (add_devices w ds) (\<lambda>ls. Inr (l @ ls)))))"

text \<open>
  The constructor: one function is enough for the library to count as installed, and the list of
  devices is gone through even when asking for it failed and the pointer was not set.
\<close>

definition new_dumper :: "winpcap \<Rightarrow> client_error + dumper" where
  "new_dumper w =
     (if loaded w \<and> (\<exists>f \<in> set winpcap_functions. found w f)
      then and_then (pfn w findalldevs) (\<lambda>_.
           case device_list w of
             None \<Rightarrow> Inl DANGLING_POINTER
           | Some ds \<Rightarrow>
               and_then (add_devices w ds) (\<lambda>as.
               and_then (pfn w freealldevs) (\<lambda>_.
               Inr \<lparr>monitorRunning = False, driverInstalled = True, adapterList = as, stop_flags = {}\<rparr>)))
      else Inr \<lparr>monitorRunning = False, driverInstalled = False, adapterList = [], stop_flags = {}\<rparr>)"

fun start_adapters :: "winpcap \<Rightarrow> (string \<Rightarrow> bool) \<Rightarrow> adapter list \<Rightarrow> client_error + adapter list" where
  "start_adapters w ok [] = Inr []"
| "start_adapters w ok (a # as) =
     and_then (adapter_start w ok a) (\<lambda>b. and_then (start_adapters w ok as) (\<lambda>bs. Inr (b # bs)))"

fun stop_adapters :: "winpcap \<Rightarrow> adapter list \<Rightarrow> stop_events \<Rightarrow> client_error + (adapter list \<times> stop_events)" where
  "stop_adapters w [] es = Inr ([], es)"
| "stop_adapters w (a # as) es =
     and_then (adapter_stop w a es) (\<lambda>(b, es1).
     and_then (stop_adapters w as es1) (\<lambda>(bs, es2). Inr (b # bs, es2)))"

definition dumper_start :: "winpcap \<Rightarrow> (string \<Rightarrow> bool) \<Rightarrow> dumper \<Rightarrow> client_error + dumper" where
  "dumper_start w ok d =
     (if \<not> monitorRunning d \<and> driverInstalled d
      then and_then (start_adapters w ok (adapterList d)) (\<lambda>as.
           Inr (d\<lparr>adapterList := as, monitorRunning := True\<rparr>))
      else Inr d)"

definition dumper_stop :: "winpcap \<Rightarrow> dumper \<Rightarrow> client_error + dumper" where
  "dumper_stop w d =
     (if monitorRunning d \<and> driverInstalled d
      then and_then (stop_adapters w (adapterList d) (stop_flags d)) (\<lambda>(as, es).
           Inr (d\<lparr>adapterList := as, monitorRunning := False, stop_flags := es\<rparr>))
      else Inr d)"

text \<open>The files that are deleted between visits.\<close>

definition deleteAdapterFiles :: "dumper \<Rightarrow> string list" where
  "deleteAdapterFiles d = map (\<lambda>a. ''logs'' @ CHR 0x5C # adapterName a @ ''.pcap'') (adapterList d)"

text \<open>The destructor closes the handle of every adapter; one that is closed already is freed twice.\<close>

fun close_handles :: "winpcap \<Rightarrow> adapter list \<Rightarrow> nat list \<Rightarrow> client_error + nat list" where
  "close_handles w [] closed = Inr closed"
| "close_handles w (a # as) closed =
     and_then (pfn w pcap_close) (\<lambda>_.
     if ad_handle a \<in> set closed then Inl DOUBLE_FREE else close_handles w as (closed @ [ad_handle a]))"

definition delete_dumper :: "winpcap \<Rightarrow> dumper \<Rightarrow> client_error + nat list" where
  "delete_dumper w d = and_then (dumper_stop w d) (\<lambda>d. close_handles w (adapterList d) [])"

subsection \<open>Sessions\<close>

datatype dumper_call = Start "string \<Rightarrow> bool" | Stop | DeleteFiles

definition dumper_call :: "winpcap \<Rightarrow> dumper_call \<Rightarrow> dumper \<Rightarrow> client_error + dumper" where
  "dumper_call w c d =
     (case c of Start ok \<Rightarrow> dumper_start w ok d | Stop \<Rightarrow> dumper_stop w d | DeleteFiles \<Rightarrow> Inr d)"

fun dumper_session :: "winpcap \<Rightarrow> dumper_call list \<Rightarrow> dumper \<Rightarrow> client_error + dumper" where
  "dumper_session w [] d = Inr d"
| "dumper_session w (c # cs) d = and_then (dumper_call w c d) (dumper_session w cs)"

definition dumper_inv :: "dumper \<Rightarrow> bool" where
  "dumper_inv d \<longleftrightarrow>
     (\<forall>a \<in> set (adapterList d). running a = monitorRunning d) \<and> stop_flags d = {} \<and>
     (\<not> driverInstalled d \<longrightarrow> adapterList d = [] \<and> \<not> monitorRunning d)"

text \<open>A library that is complete and answers as it should.\<close>

definition winpcap_ok :: "winpcap \<Rightarrow> bool" where
  "winpcap_ok w \<longleftrightarrow>
     loaded w \<and> (\<forall>f. found w f) \<and>
     (\<exists>ds. device_list w = Some ds \<and> (\<forall>d \<in> set ds. None \<notin> set (dev_addresses d)))"

lemma pfn_ok [simp]: "winpcap_ok w \<Longrightarrow> pfn w f = Inr ()"
  by (simp add: winpcap_ok_def pfn_def)

lemma start_adapters_ok:
  "winpcap_ok w \<Longrightarrow> \<exists>bs. start_adapters w ok as = Inr bs \<and> (\<forall>b \<in> set bs. running b) \<and>
     map ad_handle bs = map ad_handle as \<and> map adapterName bs = map adapterName as"
  by (induction as) (auto simp: adapter_start_def)

lemma stop_adapters_ok:
  "winpcap_ok w \<Longrightarrow> \<exists>bs. stop_adapters w as {} = Inr (bs, {}) \<and> (\<forall>b \<in> set bs. \<not> running b) \<and>
     map ad_handle bs = map ad_handle as \<and> map adapterName bs = map adapterName as"
  by (induction as) (auto simp: adapter_stop_def thread_stop_def thread_delete_def)

lemma dumper_call_ok:
  assumes w: "winpcap_ok w" and inv: "dumper_inv d"
  shows "\<exists>d'. dumper_call w c d = Inr d' \<and> dumper_inv d' \<and>
    map ad_handle (adapterList d') = map ad_handle (adapterList d) \<and> driverInstalled d' = driverInstalled d"
proof (cases c)
  case (Start ok)
  obtain bs where "start_adapters w ok (adapterList d) = Inr bs" "\<forall>b \<in> set bs. running b"
    "map ad_handle bs = map ad_handle (adapterList d)"
    using start_adapters_ok [OF w] by blast
  then show ?thesis using inv by (auto simp: dumper_call_def Start dumper_start_def dumper_inv_def)
next
  case Stop
  obtain bs where "stop_adapters w (adapterList d) {} = Inr (bs, {})" "\<forall>b \<in> set bs. \<not> running b"
    "map ad_handle bs = map ad_handle (adapterList d)"
    using stop_adapters_ok [OF w] by blast
  then show ?thesis using inv by (auto simp: dumper_call_def Stop dumper_stop_def dumper_inv_def)
next
  case DeleteFiles
  then show ?thesis using inv by (simp add: dumper_call_def)
qed

lemma dumper_session_ok:
  assumes w: "winpcap_ok w" and inv: "dumper_inv d"
  shows "\<exists>d'. dumper_session w cs d = Inr d' \<and> dumper_inv d' \<and>
    map ad_handle (adapterList d') = map ad_handle (adapterList d)"
  using inv
proof (induction cs arbitrary: d)
  case (Cons c cs)
  then obtain d1 where "dumper_call w c d = Inr d1" "dumper_inv d1"
    "map ad_handle (adapterList d1) = map ad_handle (adapterList d)"
    using dumper_call_ok [OF w] by blast
  then show ?case using Cons.IH [of d1] by auto
qed simp

text \<open>The adapters a complete library gives: one for every internet address of an open device.\<close>

definition device_adapters :: "device \<Rightarrow> adapter list" where
  "device_adapters d =
     (case (dev_name d, opened_as d) of
        (Some n, Some h) \<Rightarrow> map (\<lambda>a. new_adapter (snd (the a)) h) (filter (\<lambda>a. fst (the a)) (dev_addresses d))
      | _ \<Rightarrow> [])"

lemma add_addresses_ok:
  "None \<notin> set as \<Longrightarrow>
     add_addresses h as = Inr (map (\<lambda>a. new_adapter (snd (the a)) h) (filter (\<lambda>a. fst (the a)) as))"
  by (induction h as rule: add_addresses.induct) auto

lemma add_devices_ok:
  "winpcap_ok w \<Longrightarrow> \<forall>d \<in> set ds. None \<notin> set (dev_addresses d) \<Longrightarrow>
     add_devices w ds = Inr (concat (map device_adapters ds))"
  by (induction ds) (auto simp: device_adapters_def add_addresses_ok split: option.splits)

lemma new_dumper_ok:
  assumes "winpcap_ok w"
  shows "\<exists>d. new_dumper w = Inr d \<and> dumper_inv d \<and> driverInstalled d \<and>
    adapterList d = concat (map device_adapters (the (device_list w)))"
proof -
  obtain ds where ds: "device_list w = Some ds" "\<forall>d \<in> set ds. None \<notin> set (dev_addresses d)" "loaded w" "\<forall>f. found w f"
    using assms by (auto simp: winpcap_ok_def)
  have "running a = False" if "a \<in> set (concat (map device_adapters ds))" for a
    using that by (auto simp: device_adapters_def new_adapter_def split: option.splits)
  then show ?thesis
    using assms ds add_devices_ok [OF assms ds(2)]
    by (auto simp: new_dumper_def winpcap_functions_def dumper_inv_def)
qed

lemma close_handles_ok:
  assumes "winpcap_ok w"
  shows "close_handles w as closed =
    (if distinct (map ad_handle as) \<and> set (map ad_handle as) \<inter> set closed = {}
     then Inr (closed @ map ad_handle as) else Inl DOUBLE_FREE)"
  using assms by (induction as arbitrary: closed) auto

lemma adapter_run_packets:
  "adapter_run file ts =
     (if file then map (snd \<circ> snd) (filter (\<lambda>(s, r, p). r > 0) (takeWhile (\<lambda>(s, r, p). \<not> s \<and> 0 \<le> r) ts)) else [])"
  by (induction ts) auto

end
