(* ===== verification/MonitorThread.thy ===== *)
theory MonitorThread
  imports WideText
begin

text \<open>
  The life of a monitor of the client: loading its driver (\<open>installKernelDriver\<close> and
  \<open>unInstallKernelDriver\<close> of \<open>Monitor.cpp\<close>), and starting and stopping its thread (\<open>start\<close>, \<open>stop\<close>
  and \<open>run\<close> of \<open>FileMonitor.cpp\<close> and \<open>RegistryMonitor.cpp\<close> with \<open>Thread.h\<close>). \<open>monitorRunning\<close> is set
  by the thread itself, so the order of its first step and of the calls matters.
\<close>

subsection \<open>The driver of a monitor\<close>

text \<open>
  The answers of the service manager: whether it can be opened, the service is created or, if
  not, opened, and the error of starting it. \<open>hService\<close> stays set when starting fails.
\<close>

record service_env =
  manager_ok :: bool
  service_created :: bool
  service_opened :: bool
  start_error :: "u32 option"

abbreviation "ERROR_SERVICE_ALREADY_RUNNING \<equiv> 1056 :: u32"

definition installKernelDriver :: "service_env \<Rightarrow> bool \<Rightarrow> bool \<times> bool" where
  "installKernelDriver env hService =
     (if \<not> manager_ok env then (False, hService)
      else if \<not> service_created env \<and> \<not> service_opened env then (False, False)
      else (case start_error env of
              None \<Rightarrow> (True, True)
            | Some e \<Rightarrow> (e = ERROR_SERVICE_ALREADY_RUNNING, True)))"

text \<open>The service is stopped and deleted: the result says whether.\<close>

definition unInstallKernelDriver :: "bool \<Rightarrow> bool \<times> bool" where
  "unInstallKernelDriver hService = (hService, False)"

subsection \<open>The thread and its owner\<close>

text \<open>
  A thread that was created, one at the test of its loop, one in the body of the loop, where it
  uses the buffer, and one that is gone.
\<close>

datatype thread_place = Created | AtTest | InBody | Gone

text \<open>
  The owner is between calls, or in \<open>stop\<close>: waiting a second for the event of the end, waiting
  five seconds for the thread itself, and about to free the thread object and the buffer.
\<close>

datatype owner_place = Idle | AwaitsEvent | AwaitsThread | Frees

text \<open>
  \<open>current_thread\<close> is the thread object of the monitor, by the number of its thread;
  \<open>buffer_allocated\<close> says that the member for the events points to a block.
\<close>

record monitor_life =
  mon_running :: bool
  mon_installed :: bool
  hMonitorStoppedEvent :: bool
  hStopEvent :: bool
  buffer_allocated :: bool
  thread_places :: "thread_place list"
  current_thread :: "nat option"
  owner_at :: owner_place

definition new_monitor :: "bool \<Rightarrow> monitor_life" where
  "new_monitor installed =
     \<lparr>mon_running = False, mon_installed = installed, hMonitorStoppedEvent = False, hStopEvent = False,
      buffer_allocated = False, thread_places = [], current_thread = None, owner_at = Idle\<rparr>"

text \<open>\<open>start\<close>: the event of a thread is found by its name, as it is.\<close>

definition monitor_start :: "monitor_life \<Rightarrow> monitor_life" where
  "monitor_start m =
     (if \<not> mon_running m \<and> mon_installed m
      then m\<lparr>buffer_allocated := True, thread_places := thread_places m @ [Created],
             current_thread := Some (length (thread_places m))\<rparr>
      else m)"

definition monitor_stop :: "monitor_life \<Rightarrow> monitor_life" where
  "monitor_stop m =
     (if mon_running m \<and> mon_installed m then m\<lparr>mon_running := False, owner_at := AwaitsEvent\<rparr> else m)"

text \<open>
  The rest of \<open>stop\<close>, step by step. A wait for the thread that times out terminates it; deleting
  the object resets the event. \<open>stop\<close> is only entered with a thread object (an invariant).
\<close>

definition owner_step :: "bool \<Rightarrow> monitor_life \<Rightarrow> client_error + monitor_life" where
  "owner_step timed_out m =
     (case owner_at m of
        Idle \<Rightarrow> Inr m
      | AwaitsEvent \<Rightarrow>
          if current_thread m = None then Inl DANGLING_POINTER
          else Inr (m\<lparr>hMonitorStoppedEvent := False, hStopEvent := True, owner_at := AwaitsThread\<rparr>)
      | AwaitsThread \<Rightarrow>
          (case current_thread m of
             None \<Rightarrow> Inl DANGLING_POINTER
           | Some i \<Rightarrow> Inr (m\<lparr>thread_places := (thread_places m)[i := Gone], owner_at := Frees\<rparr>))
      | Frees \<Rightarrow>
          if current_thread m = None then Inl DANGLING_POINTER
          else if \<not> buffer_allocated m then Inl DOUBLE_FREE
          else Inr (m\<lparr>current_thread := None, hStopEvent := False, buffer_allocated := False, owner_at := Idle\<rparr>))"

text \<open>When a wait may end: the event is set or the thread is gone, or the time is up.\<close>

definition wait_over :: "bool \<Rightarrow> monitor_life \<Rightarrow> bool" where
  "wait_over timed_out m \<longleftrightarrow>
     timed_out \<or>
     (case owner_at m of
        AwaitsEvent \<Rightarrow> hMonitorStoppedEvent m
      | AwaitsThread \<Rightarrow> (case current_thread m of Some i \<Rightarrow> thread_places m ! i = Gone | None \<Rightarrow> True)
      | _ \<Rightarrow> True)"

text \<open>
  A step of thread \<open>i\<close>: its loop asks the thread object of the monitor whether to stop and uses
  the buffer of the monitor.
\<close>

definition thread_step :: "nat \<Rightarrow> monitor_life \<Rightarrow> client_error + monitor_life" where
  "thread_step i m =
     (case thread_places m ! i of
        Created \<Rightarrow> Inr (m\<lparr>mon_running := True, thread_places := (thread_places m)[i := AtTest]\<rparr>)
      | AtTest \<Rightarrow>
          if current_thread m = None then Inl DANGLING_POINTER
          else if \<not> hStopEvent m \<and> mon_running m
          then Inr (m\<lparr>thread_places := (thread_places m)[i := InBody]\<rparr>)
          else Inr (m\<lparr>hMonitorStoppedEvent := True, thread_places := (thread_places m)[i := Gone]\<rparr>)
      | InBody \<Rightarrow>
          if buffer_allocated m then Inr (m\<lparr>thread_places := (thread_places m)[i := AtTest]\<rparr>)
          else Inl DANGLING_POINTER
      | Gone \<Rightarrow> Inr m)"

text \<open>What can happen next. The calls of the owner come one at a time.\<close>

datatype life_event = CallStart | CallStop | OwnerGoesOn bool | ThreadGoesOn nat

definition life_step :: "life_event \<Rightarrow> monitor_life \<Rightarrow> (client_error + monitor_life) option" where
  "life_step e m =
     (case e of
        CallStart \<Rightarrow> if owner_at m = Idle then Some (Inr (monitor_start m)) else None
      | CallStop \<Rightarrow> if owner_at m = Idle then Some (Inr (monitor_stop m)) else None
      | OwnerGoesOn t \<Rightarrow> if owner_at m \<noteq> Idle \<and> wait_over t m then Some (owner_step t m) else None
      | ThreadGoesOn i \<Rightarrow> if i < length (thread_places m) then Some (thread_step i m) else None)"

fun life_run :: "life_event list \<Rightarrow> monitor_life \<Rightarrow> (client_error + monitor_life) option" where
  "life_run [] m = Some (Inr m)"
| "life_run (e # es) m =
     (case life_step e m of
        None \<Rightarrow> None
      | Some (Inl x) \<Rightarrow> Some (Inl x)
      | Some (Inr m') \<Rightarrow> life_run es m')"

subsection \<open>Calls that wait for the thread\<close>

text \<open>A call is patient when no thread that was created is still to make its first step.\<close>

definition patient_event :: "life_event \<Rightarrow> monitor_life \<Rightarrow> bool" where
  "patient_event e m \<longleftrightarrow> (e = CallStart \<or> e = CallStop \<longrightarrow> Created \<notin> set (thread_places m))"

fun patient :: "life_event list \<Rightarrow> monitor_life \<Rightarrow> bool" where
  "patient [] m = True"
| "patient (e # es) m =
     (patient_event e m \<and>
      (case life_step e m of Some (Inr m') \<Rightarrow> patient es m' | _ \<Rightarrow> True))"

text \<open>
  All threads but the current one are gone. The current one is there from \<open>start\<close> to the end of
  \<open>stop\<close>, as the buffer is, and the flag is set unless it was only created or is being stopped.
\<close>

definition life_inv :: "monitor_life \<Rightarrow> bool" where
  "life_inv m \<longleftrightarrow>
     (case current_thread m of
        None \<Rightarrow> set (thread_places m) \<subseteq> {Gone} \<and> \<not> mon_running m \<and> \<not> buffer_allocated m \<and> owner_at m = Idle
      | Some i \<Rightarrow>
          i < length (thread_places m) \<and> (\<forall>j < length (thread_places m). j \<noteq> i \<longrightarrow> thread_places m ! j = Gone) \<and>
          buffer_allocated m \<and>
          (owner_at m = Idle \<longrightarrow>
             (if thread_places m ! i = Created then \<not> mon_running m
              else mon_running m \<and> thread_places m ! i \<in> {AtTest, InBody})) \<and>
          (owner_at m \<noteq> Idle \<longrightarrow> \<not> mon_running m \<and> thread_places m ! i \<noteq> Created) \<and>
          (owner_at m = Frees \<longrightarrow> thread_places m ! i = Gone)) \<and>
     (hStopEvent m \<longleftrightarrow> owner_at m \<in> {AwaitsThread, Frees})"

lemma life_inv_new: "life_inv (new_monitor b)"
  by (simp add: life_inv_def new_monitor_def)

lemma life_step_inv:
  assumes inv: "life_inv m" and p: "patient_event e m" and s: "life_step e m = Some r"
  shows "\<exists>m'. r = Inr m' \<and> life_inv m'"
proof (cases "current_thread m")
  case None
  then have m: "set (thread_places m) \<subseteq> {Gone}" "\<not> mon_running m" "\<not> buffer_allocated m" "owner_at m = Idle"
    "\<not> hStopEvent m"
    using inv by (auto simp: life_inv_def)
  have g: "thread_places m ! j = Gone" if "j < length (thread_places m)" for j
    using m(1) nth_mem [OF that] by blast
  show ?thesis
    using None m g p s
    by (cases e) (auto simp: life_step_def life_inv_def monitor_start_def monitor_stop_def thread_step_def
        nth_append split: if_split_asm)
next
  case (Some i)
  then have m: "i < length (thread_places m)" "\<And>j. j < length (thread_places m) \<Longrightarrow> j \<noteq> i \<Longrightarrow> thread_places m ! j = Gone"
    "buffer_allocated m"
    "owner_at m = Idle \<Longrightarrow> (if thread_places m ! i = Created then \<not> mon_running m
              else mon_running m \<and> thread_places m ! i \<in> {AtTest, InBody})"
    "owner_at m \<noteq> Idle \<Longrightarrow> \<not> mon_running m \<and> thread_places m ! i \<noteq> Created"
    "owner_at m = Frees \<Longrightarrow> thread_places m ! i = Gone"
    "hStopEvent m \<longleftrightarrow> owner_at m \<in> {AwaitsThread, Frees}"
    using inv by (auto simp: life_inv_def)
  show ?thesis
  proof (cases e)
    case CallStart
    then have "thread_places m ! i \<noteq> Created" "owner_at m = Idle" "r = Inr (monitor_start m)"
      using p s m(1) by (auto simp: patient_event_def life_step_def split: if_split_asm) (metis nth_mem)
    then have "r = Inr m" using m(4) by (simp add: monitor_start_def)
    then show ?thesis using inv by simp
  next
    case CallStop
    then have "thread_places m ! i \<noteq> Created" "owner_at m = Idle" "r = Inr (monitor_stop m)"
      using p s m(1) by (auto simp: patient_event_def life_step_def split: if_split_asm) (metis nth_mem)
    then show ?thesis
      using m Some by (auto simp: monitor_stop_def life_inv_def)
  next
    case (OwnerGoesOn t)
    then have "owner_at m \<noteq> Idle" "r = owner_step t m" using s by (auto simp: life_step_def split: if_split_asm)
    moreover have "thread_places m ! i = Gone \<Longrightarrow> j < length (thread_places m) \<Longrightarrow> thread_places m ! j = Gone" for j
      using m(2) by (cases "j = i") simp_all
    ultimately show ?thesis
      using m Some
      by (cases "owner_at m") (auto simp: owner_step_def life_inv_def in_set_conv_nth nth_list_update)
  next
    case (ThreadGoesOn j)
    then have j: "j < length (thread_places m)" "r = thread_step j m"
      using s by (auto simp: life_step_def split: if_split_asm)
    show ?thesis
    proof (cases "j = i")
      case False
      then have "r = Inr m" using j m(2) by (simp add: thread_step_def)
      then show ?thesis using inv by simp
    next
      case True
      then show ?thesis
        using j m Some
        by (cases "thread_places m ! i"; cases "owner_at m") (auto simp: thread_step_def life_inv_def nth_list_update)
    qed
  qed
qed

lemma life_run_inv:
  "life_inv m \<Longrightarrow> patient es m \<Longrightarrow> life_run es m = Some r \<Longrightarrow> \<exists>m'. r = Inr m' \<and> life_inv m'"
proof (induction es arbitrary: m)
  case (Cons e es)
  then obtain r1 where r1: "life_step e m = Some r1" by (auto split: option.splits)
  moreover have "patient_event e m" using Cons.prems(2) by simp
  ultimately obtain m1 where "r1 = Inr m1" "life_inv m1" using life_step_inv Cons.prems(1) by blast
  then show ?case using Cons r1 by auto
qed (auto dest: sym)

end
