(* ===== verification/CaptureClaims.thy ===== *)
theory CaptureClaims
  imports NetworkCapture MonitorThread
begin

text \<open>
  What holds of the capture of packets and of the threads of the monitors, and what is needed
  for it.
\<close>

text \<open>
  C27. Capturing packets. With a complete library whose devices all have addresses, the dumper
  is made with one adapter for every internet address of an open device; after any calls all
  adapters run or none does, as the dumper says, and no event is left that would stop the next
  thread; and it can be deleted unless two adapters share a handle, which is then closed twice.
\<close>
theorem network_session:
  assumes "winpcap_ok w"
  shows "\<exists>d. new_dumper w = Inr d \<and> adapterList d = concat (map device_adapters (the (device_list w))) \<and>
    (\<exists>d'. dumper_session w cs d = Inr d' \<and> dumper_inv d' \<and>
      delete_dumper w d' = (if distinct (map ad_handle (adapterList d))
        then Inr (map ad_handle (adapterList d)) else Inl DOUBLE_FREE))"
proof -
  obtain d where d: "new_dumper w = Inr d" "dumper_inv d" "adapterList d = concat (map device_adapters (the (device_list w)))"
    using new_dumper_ok [OF assms] by blast
  obtain d' where d': "dumper_session w cs d = Inr d'" "dumper_inv d'"
    "map ad_handle (adapterList d') = map ad_handle (adapterList d)"
    using dumper_session_ok [OF assms d(2)] by blast
  obtain d'' where d'': "dumper_stop w d' = Inr d''" "map ad_handle (adapterList d'') = map ad_handle (adapterList d')"
    using dumper_call_ok [OF assms d'(2), of Stop] by (auto simp: dumper_call_def)
  have "delete_dumper w d' = (if distinct (map ad_handle (adapterList d))
      then Inr (map ad_handle (adapterList d)) else Inl DOUBLE_FREE)"
    using close_handles_ok [OF assms, of "adapterList d''" "[]"] d'' d'(3) by (simp add: delete_dumper_def)
  then show ?thesis using d d' by blast
qed

definition winpcap0 :: winpcap where
  "winpcap0 = \<lparr>loaded = True, found = (\<lambda>f. True),
     device_list = Some [\<lparr>dev_name = Some ''eth'', opened_as = Some 3,
       dev_addresses = [Some (True, ''10.0.0.1''), Some (False, ''''), Some (True, ''10.0.0.2'')]\<rparr>]\<rparr>"

theorem network_session_witness:
  "\<exists>d d'. new_dumper winpcap0 = Inr d \<and> dumper_session winpcap0 [Start (\<lambda>n. True), Stop, Start (\<lambda>n. False)] d = Inr d' \<and>
     dumper_inv d' \<and> map ad_handle (adapterList d) = [3, 3] \<and> delete_dumper winpcap0 d' = Inl DOUBLE_FREE"
proof -
  have ok: "winpcap_ok winpcap0" by (simp add: winpcap_ok_def winpcap0_def)
  have a: "map ad_handle (concat (map device_adapters (the (device_list winpcap0)))) = [3, 3]"
    by (simp add: winpcap0_def device_adapters_def new_adapter_def)
  obtain d d' where "new_dumper winpcap0 = Inr d" "adapterList d = concat (map device_adapters (the (device_list winpcap0)))"
    "dumper_session winpcap0 [Start (\<lambda>n. True), Stop, Start (\<lambda>n. False)] d = Inr d'" "dumper_inv d'"
    "delete_dumper winpcap0 d' = (if distinct (map ad_handle (adapterList d))
        then Inr (map ad_handle (adapterList d)) else Inl DOUBLE_FREE)"
    using network_session [OF ok, of "[Start (\<lambda>n. True), Stop, Start (\<lambda>n. False)]"] by blast
  then show ?thesis using a by (intro exI [of _ d] exI [of _ d']) simp
qed

text \<open>
  C13. Patient calls. As long as \<open>start\<close> and \<open>stop\<close> are only called when every thread that was
  created has made its first step, nothing goes wrong however the thread and the rest of \<open>stop\<close>
  are interleaved, time-outs included: a thread that uses the buffer or the thread object finds
  them, two threads never live at once, and when \<open>stop\<close> has ended none does.
\<close>
theorem patient_monitor_safe:
  assumes "life_run es (new_monitor installed) = Some r" and "patient es (new_monitor installed)"
  shows "\<exists>m. r = Inr m \<and> length (filter (\<lambda>p. p \<noteq> Gone) (thread_places m)) \<le> 1 \<and>
    (InBody \<in> set (thread_places m) \<longrightarrow> buffer_allocated m) \<and>
    (current_thread m = None \<longrightarrow> set (thread_places m) \<subseteq> {Gone} \<and> \<not> mon_running m \<and> \<not> hStopEvent m)"
proof -
  obtain m where m: "r = Inr m" "life_inv m"
    using life_run_inv [OF life_inv_new assms(2,1)] by blast
  have none: "filter (\<lambda>p. p \<noteq> Gone) ps = []" if "\<forall>j < length ps. ps ! j = Gone" for ps
    using that by (auto simp: filter_empty_conv in_set_conv_nth)
  have one: "length (filter (\<lambda>p. p \<noteq> Gone) ps) \<le> 1"
    if "i < length ps" "\<forall>j < length ps. j \<noteq> i \<longrightarrow> ps ! j = Gone" for ps i
  proof -
    have s: "ps = take i ps @ ps ! i # drop (Suc i) ps" using that(1) by (rule id_take_nth_drop)
    have "filter (\<lambda>p. p \<noteq> Gone) (take i ps) = []" "filter (\<lambda>p. p \<noteq> Gone) (drop (Suc i) ps) = []"
      using that by (auto intro!: none)
    then show ?thesis by (subst s) simp
  qed
  show ?thesis
  proof (cases "current_thread m")
    case None
    then have "set (thread_places m) \<subseteq> {Gone}" "\<not> mon_running m" "\<not> hStopEvent m"
      using m(2) by (auto simp: life_inv_def)
    moreover from this(1) have "\<forall>j < length (thread_places m). thread_places m ! j = Gone"
      using nth_mem by blast
    ultimately show ?thesis using m(1) none by auto
  next
    case (Some i)
    then have "i < length (thread_places m)" "\<forall>j < length (thread_places m). j \<noteq> i \<longrightarrow> thread_places m ! j = Gone"
      "buffer_allocated m"
      using m(2) by (auto simp: life_inv_def)
    then show ?thesis using one m(1) Some by auto
  qed
qed

definition calls0 :: "life_event list" where
  "calls0 = [CallStart, ThreadGoesOn 0, ThreadGoesOn 0, CallStop, OwnerGoesOn True, ThreadGoesOn 0, ThreadGoesOn 0,
     OwnerGoesOn False, OwnerGoesOn False, CallStart, ThreadGoesOn 1, ThreadGoesOn 1]"

theorem patient_monitor_safe_witness:
  "\<exists>m. life_run calls0 (new_monitor True) = Some (Inr m) \<and> thread_places m = [Gone, InBody] \<and> buffer_allocated m"
proof -
  have "\<exists>m. life_run calls0 (new_monitor True) = Some (Inr m) \<and> thread_places m = [Gone, InBody]"
    "patient calls0 (new_monitor True)"
    by (simp_all add: calls0_def new_monitor_def life_step_def monitor_start_def monitor_stop_def owner_step_def
        wait_over_def thread_step_def patient_event_def)
  then show ?thesis using patient_monitor_safe [of calls0 True] by auto
qed

text \<open>
  Impatient calls. Called before the new thread has made its first step, \<open>stop\<close> does nothing
  and the monitor runs on; and a second \<open>start\<close> makes a second thread, after which \<open>stop\<close> waits
  for one of them only and frees the buffer and the thread object the other one still uses.
\<close>
theorem impatient_monitor:
  assumes "mon_installed m" and "\<not> mon_running m" and "owner_at m = Idle" and "\<not> hStopEvent m"
    and "n = length (thread_places m)"
  shows "(\<exists>m'. life_run [CallStart, CallStop, ThreadGoesOn n] m = Some (Inr m') \<and> mon_running m' \<and>
      thread_places m' ! n = AtTest \<and> owner_at m' = Idle) \<and>
    life_run [CallStart, CallStart, ThreadGoesOn n, ThreadGoesOn (Suc n), ThreadGoesOn n, CallStop, OwnerGoesOn True,
      OwnerGoesOn True, OwnerGoesOn False, ThreadGoesOn n] m = Some (Inl DANGLING_POINTER)"
  using assms
  by (simp add: life_step_def monitor_start_def monitor_stop_def owner_step_def wait_over_def thread_step_def
      nth_append list_update_append)

theorem impatient_monitor_witness:
  "\<exists>m'. life_run [CallStart, CallStop, ThreadGoesOn 0] (new_monitor True) = Some (Inr m') \<and> mon_running m'"
  using impatient_monitor [of "new_monitor True" 0] by (auto simp: new_monitor_def)

end
