(* ===== verification/PluginContract.thy ===== *)
theory PluginContract
  imports ConfigPlugin SafariPlugin BrowserVisit BrowserPool
begin

text \<open>
  The contract of \<open>ApplicationPlugin.h\<close>: visiting a group changes what happened to its addresses,
  not which group it is. The reports of the visitor rest on it, and every plug-in keeps it.
\<close>

subsection \<open>The contract\<close>

text \<open>What the server knows a group and its addresses by.\<close>

definition same_address :: "url \<Rightarrow> url \<Rightarrow> bool" where
  "same_address u u' \<longleftrightarrow>
     url_text u' = url_text u \<and> url_program u' = url_program u \<and> visitTime u' = visitTime u"

definition same_group :: "visit_event \<Rightarrow> visit_event \<Rightarrow> bool" where
  "same_group v v' \<longleftrightarrow>
     ve_identifier v' = ve_identifier v \<and> ve_program v' = ve_program v \<and>
     ve_algorithm v' = ve_algorithm v \<and> urlGroup v' = urlGroup v \<and>
     list_all2 same_address (ve_urls v) (ve_urls v')"

lemma same_address_simps [simp]:
  "same_address u u"
  "same_address u (u'\<lparr>majorErrorCode := a\<rparr>) = same_address u u'"
  "same_address u (u'\<lparr>minorErrorCode := a\<rparr>) = same_address u u'"
  "same_address u (u'\<lparr>url_processId := a\<rparr>) = same_address u u'"
  "same_address u (u'\<lparr>visited := b\<rparr>) = same_address u u'"
  by (simp_all add: same_address_def)

lemma same_address_trans: "same_address u v \<Longrightarrow> same_address v w \<Longrightarrow> same_address u w"
  by (simp add: same_address_def)

lemma same_addresses_trans:
  "list_all2 same_address us vs \<Longrightarrow> list_all2 same_address vs ws \<Longrightarrow> list_all2 same_address us ws"
  by (rule list_all2_trans [of same_address same_address]) (rule same_address_trans)

text \<open>All of an event but its addresses and its error.\<close>

definition same_head :: "visit_event \<Rightarrow> visit_event \<Rightarrow> bool" where
  "same_head v v' \<longleftrightarrow>
     ve_identifier v' = ve_identifier v \<and> ve_program v' = ve_program v \<and>
     ve_algorithm v' = ve_algorithm v \<and> urlGroup v' = urlGroup v"

lemma same_head_simps [simp]:
  "same_head v v" "same_head v (setErrorCode e w) = same_head v w" "same_head v (w\<lparr>ve_urls := us\<rparr>) = same_head v w"
  by (simp_all add: same_head_def setErrorCode_def)

lemma same_head_trans: "same_head u v \<Longrightarrow> same_head v w \<Longrightarrow> same_head u w"
  by (simp add: same_head_def)

lemma same_group_alt: "same_group v v' \<longleftrightarrow> same_head v v' \<and> list_all2 same_address (ve_urls v) (ve_urls v')"
  by (simp add: same_group_def same_head_def)

lemma setErrorCode_urls [simp]: "ve_urls (setErrorCode e v) = ve_urls v"
  by (simp add: setErrorCode_def)

text \<open>The attributes of a report, and the addresses of its items.\<close>

definition report_head :: "element \<Rightarrow> wstring \<times> (wstring \<times> wstring) list" where
  "report_head e = (el_name e, el_attributes e)"

definition report_addresses :: "element \<Rightarrow> wstring list" where
  "report_addresses e = map (getAttributeValue (wide ''url'')) (el_children e)"

lemma same_group_reports:
  assumes "same_group v v'"
  shows "report_head (visit_toElement now v') = report_head (visit_toElement now v) \<and>
    report_addresses (visit_toElement now v') = map (\<lambda>u. url_encode (url_text u)) (ve_urls v)"
proof -
  have "getAttributeValue (wide ''url'') (url_toElement now u) = url_encode (url_text u)" for u
    by (simp add: url_toElement_def getAttributeValue_def wide_def)
  then have "report_addresses (visit_toElement now v') = map (\<lambda>u. url_encode (url_text u)) (ve_urls v')"
    by (simp add: report_addresses_def visit_toElement_def comp_def)
  also have "\<dots> = map (\<lambda>u. url_encode (url_text u)) (ve_urls v)"
    using assms by (auto simp: same_group_def same_address_def list_all2_conv_all_nth intro: nth_equalityI)
  finally show ?thesis using assms by (simp add: same_group_def report_head_def visit_toElement_def)
qed

locale application_plugin =
  fixes visits :: "visit_event \<Rightarrow> visit_event \<Rightarrow> bool"
  assumes keeps_group: "visits v v' \<Longrightarrow> same_group v v'"
begin

text \<open>
  A visit that does not throw is announced four times, and all the reports carry the same
  group and the same addresses in the same order.
\<close>

lemma four_reports:
  assumes "visitGroup p (v\<lparr>ve_algorithm := getAlgorithm p\<rparr>) = (v', False)"
    and "visits (v\<lparr>ve_algorithm := getAlgorithm p\<rparr>) v'"
  shows "map fst (visit_notifications p v) =
      [CAPTURE_VISITATION_PRESTART, CAPTURE_VISITATION_START,
       if isError v' then ve_errorCode v' else CAPTURE_VISITATION_FINISH, CAPTURE_VISITATION_POSTFINISH] \<and>
    (\<forall>(c, w) \<in> set (visit_notifications p v).
       report_head (visit_toElement now w) =
         report_head (visit_toElement now (v\<lparr>ve_algorithm := getAlgorithm p\<rparr>)) \<and>
       report_addresses (visit_toElement now w) = map (\<lambda>u. url_encode (url_text u)) (ve_urls v))"
proof -
  let ?v = "v\<lparr>ve_algorithm := getAlgorithm p\<rparr>"
  have "same_group ?v ?v" by (simp add: same_group_alt list_all2_refl)
  moreover have "same_group ?v v'" by (rule keeps_group [OF assms(2)])
  moreover have urls: "ve_urls ?v = ve_urls v" by simp
  ultimately have each: "report_head (visit_toElement now w) = report_head (visit_toElement now ?v) \<and>
      report_addresses (visit_toElement now w) = map (\<lambda>u. url_encode (url_text u)) (ve_urls v)"
    if "w \<in> {?v, v'}" for w
    using that same_group_reports [of ?v w now] unfolding urls by blast
  have n: "visit_notifications p v = [(CAPTURE_VISITATION_PRESTART, ?v), (CAPTURE_VISITATION_START, ?v),
       (if isError v' then ve_errorCode v' else CAPTURE_VISITATION_FINISH, v'), (CAPTURE_VISITATION_POSTFINISH, v')]"
    using assms(1) by (simp add: visit_notifications_def Let_def)
  have "snd ` set (visit_notifications p v) \<subseteq> {?v, v'}" unfolding n by simp
  then have "\<forall>(c, w) \<in> set (visit_notifications p v). w \<in> {?v, v'}" by (auto dest: imageI [of _ _ snd])
  moreover have "map fst (visit_notifications p v) =
      [CAPTURE_VISITATION_PRESTART, CAPTURE_VISITATION_START,
       if isError v' then ve_errorCode v' else CAPTURE_VISITATION_FINISH, CAPTURE_VISITATION_POSTFINISH]"
    unfolding n by simp
  ultimately show ?thesis using each by (auto simp del: insert_iff)
qed

end

subsection \<open>The configured applications\<close>

definition config_visits :: "visit_env \<Rightarrow> applications \<Rightarrow> visit_event \<Rightarrow> visit_event \<Rightarrow> bool" where
  "config_visits env m v v' \<longleftrightarrow> config_visitGroup env m v = Inr v'"

lemma open_url_same:
  "open_url env app k u v = Inr (v', u', ph, e) \<Longrightarrow> same_head v v' \<and> same_address u u'"
  by (auto simp: open_url_def and_then_Inr_iff Let_def split: if_split_asm)

lemma open_urls_same:
  "open_urls env app k us v = Inr (v', us', phs, e) \<Longrightarrow>
     same_head v v' \<and> list_all2 same_address us us' \<and> length phs = length us'"
proof (induction us arbitrary: k v v' us' phs e)
  case (Cons u us)
  obtain v1 u1 ph e1 us2 phs2 e2 where o: "open_url env app k u v = Inr (v1, u1, ph, e1)"
    "open_urls env app (Suc k) us v1 = Inr (v', us2, phs2, e2)" "us' = u1 # us2" "phs = ph # phs2"
    using Cons.prems by (fastforce simp: and_then_Inr_iff)
  then show ?case using open_url_same [OF o(1)] Cons.IH [OF o(2)] same_head_trans by auto
qed simp

lemma close_url_same: "close_url env k u ph v = Inr (v', u') \<Longrightarrow> same_head v v' \<and> same_address u u'"
  by (auto simp: close_url_def and_then_Inr_iff split: if_split_asm option.splits)

lemma close_urls_same:
  "close_urls env k us v = Inr (v', us') \<Longrightarrow> same_head v v' \<and> list_all2 same_address (map fst us) us'"
proof (induction us arbitrary: k v v' us')
  case (Cons p us)
  obtain u ph where p: "p = (u, ph)" by (cases p)
  obtain v1 u1 us2 where c: "close_url env k u ph v = Inr (v1, u1)"
    "close_urls env (Suc k) us v1 = Inr (v', us2)" "us' = u1 # us2"
    using Cons.prems p by (fastforce simp: and_then_Inr_iff)
  then show ?case using close_url_same [OF c(1)] Cons.IH [OF c(2)] same_head_trans p by auto
qed simp

lemma config_visits_same: "config_visits env m v v' \<Longrightarrow> same_group v v'"
proof -
  assume "config_visits env m v v'"
  then consider (none) "v' = setErrorCode CAPTURE_VISITATION_PROCESS_ERROR v"
    | (some) app v1 us1 phs e v2 us2 where "open_urls env app 0 (ve_urls v) v = Inr (v1, us1, phs, e)"
        "close_urls env 0 (zip us1 phs) v1 = Inr (v2, us2)" "v' = v2\<lparr>ve_urls := us2\<rparr>"
    by (auto simp: config_visits_def config_visitGroup_def and_then_Inr_iff split: option.splits if_split_asm)
  then show ?thesis
  proof cases
    case none
    then show ?thesis by (simp add: same_group_alt list_all2_refl)
  next
    case some
    then show ?thesis
      using open_urls_same [OF some(1)] close_urls_same [OF some(2)] same_head_trans same_addresses_trans
      by (auto simp: same_group_alt)
  qed
qed

interpretation config: application_plugin "config_visits env m" for env m
  by unfold_locales (rule config_visits_same)

subsection \<open>Safari\<close>

definition safari_visits :: "(nat \<Rightarrow> safari_env) \<Rightarrow> visit_event \<Rightarrow> visit_event \<Rightarrow> bool" where
  "safari_visits env v v' \<longleftrightarrow> v' = safari_visitGroup env v"

lemma safari_visitUrl_same: "safari_visitUrl env u = (r, u', files, slept) \<Longrightarrow> same_address u u'"
  by (auto simp: safari_visitUrl_def Let_def split: option.splits)

lemma safari_urls_same:
  "safari_urls env k us v = (v', us') \<Longrightarrow> same_head v v' \<and> list_all2 same_address us us'"
proof (induction us arbitrary: k v v' us')
  case (Cons u us)
  obtain r u1 files slept where u: "safari_visitUrl (env k) u = (r, u1, files, slept)"
    by (metis prod_cases4)
  define v1 where "v1 = (if r \<noteq> 0 then setErrorCode r v else v)"
  obtain v2 us2 where r: "safari_urls env (Suc k) us v1 = (v2, us2)" by (metis surj_pair)
  have "v' = v2 \<and> us' = u1 # us2" using Cons.prems by (simp add: u r flip: v1_def)
  moreover have "same_head v v1" by (simp add: v1_def)
  ultimately show ?case
    using Cons.IH [OF r] safari_visitUrl_same [OF u] same_head_trans by auto
qed simp

lemma safari_visits_same: "safari_visits env v v' \<Longrightarrow> same_group v v'"
proof -
  assume v: "safari_visits env v v'"
  obtain v1 us where u: "safari_urls env 0 (ve_urls v) v = (v1, us)" by (metis surj_pair)
  then have "v' = v1\<lparr>ve_urls := us\<rparr>" using v by (simp add: safari_visits_def safari_visitGroup_def)
  then show ?thesis using safari_urls_same [OF u] by (simp add: same_group_alt)
qed

interpretation safari: application_plugin "safari_visits env" for env
  by unfold_locales (rule safari_visits_same)

subsection \<open>The pools of browsers\<close>

text \<open>
  A group after any number of others: every address is visited by an instance of its own, in
  whatever order the threads take their turns.
\<close>

definition pool_visits :: "(nat \<Rightarrow> url \<Rightarrow> url \<Rightarrow> bool) \<Rightarrow> url list \<Rightarrow> url list \<Rightarrow> bool" where
  "pool_visits visits us us' \<longleftrightarrow>
     (\<exists>visit gs p s.
        (\<forall>k < length us. visits k (us ! k) (visit k (us ! k))) \<and>
        pool_groups gs p \<and> pool_run visit (start_group us p) s \<and> caller_at s = Done \<and> us' = group_urls s)"

text \<open>
  \<open>visitGroup\<close> of the two plug-ins: when all addresses are visited, the browsers are closed and the
  errors are put into the event. The other plug-in needs the factory for browsers at the end, and
  does not ask whether it got one.
\<close>

definition bulk_visits ::
    "(nat \<Rightarrow> ie_env) \<Rightarrow> text_env \<Rightarrow> process_list \<Rightarrow> visit_event \<Rightarrow> visit_event \<Rightarrow> bool" where
  "bulk_visits env texts ps v v' \<longleftrightarrow>
     (\<exists>us e.
        pool_visits (\<lambda>k u u'. \<exists>b slept. bulk_visitUrl (env k) new_browser u = Inr (u', b, slept)) (ve_urls v) us \<and>
        closeAllInternetExplorers texts ps = Inr e \<and> v' = group_finished e us v)"

definition single_visits ::
    "(nat \<Rightarrow> ie_env) \<Rightarrow> text_env \<Rightarrow> bool \<Rightarrow> (u32 \<times> u32 \<times> u32 option) option \<Rightarrow> process_list \<Rightarrow>
     visit_event \<Rightarrow> visit_event \<Rightarrow> bool" where
  "single_visits env texts factory fake ps v v' \<longleftrightarrow>
     factory \<and>
     (\<exists>us e.
        pool_visits (\<lambda>k u u'. \<exists>b slept. single_visitUrl (env k) new_browser u = Inr (u', b, slept)) (ve_urls v) us \<and>
        closeAll_single texts fake ps = Inr e \<and> v' = group_finished e us v)"

lemma navigated_same: "same_address u (fst (navigated b u))"
  by (simp add: navigated_def)

lemma warn_closed_same: "same_address u w \<Longrightarrow> same_address u (warn_closed c w)"
  by (simp add: warn_closed_def)

lemma bulk_visitUrl_same: "bulk_visitUrl env b u = Inr (u', b', slept) \<Longrightarrow> same_address u u'"
proof -
  assume "bulk_visitUrl env b u = Inr (u', b', slept)"
  then have "(\<exists>b2. u' = warn_closed (closed_ok env) ((fst (navigated b2 u))\<lparr>url_processId := br_processId b2\<rparr>)) \<or>
      u' = u \<or> (\<exists>q. u' = u\<lparr>majorErrorCode := q\<rparr>)"
    by (auto simp: bulk_visitUrl_def and_then_Inr_iff case_prod_beta split: if_split_asm)
  then show ?thesis using navigated_same warn_closed_same by auto
qed

lemma single_visitUrl_same: "single_visitUrl env b u = Inr (u', b', slept) \<Longrightarrow> same_address u u'"
proof -
  assume "single_visitUrl env b u = Inr (u', b', slept)"
  then have "(\<exists>b2. u' = warn_closed (closed_ok env) (fst (navigated b2 u))) \<or> u' = u \<or> (\<exists>q. u' = u\<lparr>majorErrorCode := q\<rparr>)"
    by (auto simp: single_visitUrl_def and_then_Inr_iff case_prod_beta Let_def split: if_split_asm sum.splits)
  then show ?thesis using navigated_same warn_closed_same by auto
qed

lemma setErrorCodes_same:
  "same_head v (fold (\<lambda>u. setErrorCode (majorErrorCode u)) us w) = same_head v w \<and>
   ve_urls (fold (\<lambda>u. setErrorCode (majorErrorCode u)) us w) = ve_urls w"
  by (induction us arbitrary: w) simp_all

lemma group_finished_same:
  "list_all2 same_address (ve_urls v) us \<Longrightarrow> same_group v (group_finished e us v)"
  unfolding group_finished_def Let_def same_group_alt by (simp add: setErrorCodes_same)

lemma pool_visits_same:
  assumes "pool_visits visits us us'" and "\<And>k u u'. visits k u u' \<Longrightarrow> same_address u u'"
  shows "list_all2 same_address us us'"
proof -
  obtain visit gs p s where v: "\<forall>k < length us. visits k (us ! k) (visit k (us ! k))"
    and g: "pool_groups gs p" "pool_run visit (start_group us p) s" "caller_at s = Done" and us': "us' = group_urls s"
    using assms(1) unfolding pool_visits_def by blast
  have "visited_each (us, visit, group_urls s)"
    using pool_groups_idle [OF pool_groups.next_group [OF g]] by simp
  then have "us' = map (\<lambda>k. visit k (us ! k)) [0..<length us]" by (simp add: visited_each_def us')
  moreover have "same_address (us ! k) (visit k (us ! k))" if "k < length us" for k
    using v that assms(2) by blast
  ultimately show ?thesis by (simp add: list_all2_conv_all_nth)
qed

lemma bulk_visits_same: "bulk_visits env texts ps v v' \<Longrightarrow> same_group v v'"
  unfolding bulk_visits_def by (auto intro!: group_finished_same elim!: pool_visits_same dest: bulk_visitUrl_same)

lemma single_visits_same: "single_visits env texts factory fake ps v v' \<Longrightarrow> same_group v v'"
  unfolding single_visits_def by (auto intro!: group_finished_same elim!: pool_visits_same dest: single_visitUrl_same)

interpretation bulk: application_plugin "bulk_visits env texts ps" for env texts ps
  by unfold_locales (rule bulk_visits_same)

interpretation single: application_plugin "single_visits env texts factory fake ps" for env texts factory fake ps
  by unfold_locales (rule single_visits_same)

end
