(* ===== verification/PluginLibraries.thy ===== *)
theory PluginLibraries
  imports Visiting
begin

text \<open>
  The libraries of the plug-ins as the visitor loads and unloads them
  (\<open>loadClientPlugins\<close>, \<open>createApplicationPluginObject\<close>, \<open>getApplicationPlugin\<close> and
  \<open>unloadClientPlugins\<close> of \<open>Visitor.cpp\<close>, \<open>PluginExports.h\<close>), with the objects they make as
  objects of a heap.
\<close>

subsection \<open>State\<close>

text \<open>
  A file of the directory: the handle \<open>LoadLibrary\<close> gives, whether \<open>New\<close> is exported, and the
  plug-in it makes with the array of the names it supports, whose end is a null pointer.
\<close>

record library_file =
  loaded_as :: "nat option"
  exports_new :: bool
  makes :: "(plugin \<times> wstring option list) option"

text \<open>
  \<open>mapped\<close> counts how often a library is loaded. \<open>applicationPlugins\<close> and \<open>app_objects\<close> (the
  member \<open>applicationMap\<close>) hold pointers to objects; an object that was deleted is gone from
  \<open>objects\<close>.
\<close>

record libraries =
  mapped :: "nat \<Rightarrow> nat"
  applicationPlugins :: "nat \<rightharpoonup> nat list"
  objects :: "nat \<rightharpoonup> plugin"
  next_object :: nat
  app_objects :: "wstring \<rightharpoonup> nat"

definition no_libraries :: libraries where
  "no_libraries =
     \<lparr>mapped = (\<lambda>_. 0), applicationPlugins = Map.empty, objects = Map.empty, next_object = 0,
      app_objects = Map.empty\<rparr>"

definition FreeLibrary :: "nat \<Rightarrow> libraries \<Rightarrow> libraries" where
  "FreeLibrary h s = s\<lparr>mapped := (mapped s)(h := mapped s h - 1)\<rparr>"

subsection \<open>Loading\<close>

definition add_application_object :: "nat \<Rightarrow> plugin \<Rightarrow> wstring \<Rightarrow> libraries \<Rightarrow> client_error + libraries" where
  "add_application_object ob p app s =
     (case app_objects s app of
        None \<Rightarrow> Inr (s\<lparr>app_objects := (app_objects s)(app \<mapsto> ob)\<rparr>)
      | Some q \<Rightarrow>
          (case objects s q of
             None \<Rightarrow> Inl DANGLING_POINTER
           | Some old \<Rightarrow>
               Inr (if getPriority p > getPriority old
                    then s\<lparr>app_objects := (app_objects s)(app \<mapsto> ob)\<rparr> else s)))"

fun add_supported :: "nat \<Rightarrow> plugin \<Rightarrow> wstring option list \<Rightarrow> libraries \<Rightarrow> client_error + libraries" where
  "add_supported ob p [] s = Inl BUFFER_OVERRUN"
| "add_supported ob p (None # ns) s = Inr s"
| "add_supported ob p (Some n # ns) s = and_then (add_application_object ob p n s) (add_supported ob p ns)"

text \<open>The object of a library is kept in the list of its handle.\<close>

definition createApplicationPluginObject ::
    "nat \<Rightarrow> library_file \<Rightarrow> libraries \<Rightarrow> client_error + (nat option \<times> libraries)" where
  "createApplicationPluginObject h f s =
     (if \<not> exports_new f then Inl NULL_POINTER
      else case makes f of
        None \<Rightarrow> Inr (None, s)
      | Some (p, names) \<Rightarrow>
          Inr (Some (next_object s),
            s\<lparr>objects := (objects s)(next_object s \<mapsto> p), next_object := Suc (next_object s),
              applicationPlugins :=
                (case applicationPlugins s h of
                   None \<Rightarrow> applicationPlugins s
                 | Some l \<Rightarrow> (applicationPlugins s)(h \<mapsto> l @ [next_object s]))\<rparr>))"

text \<open>Inserting into the hash map keeps an entry that is there.\<close>

definition load_library :: "library_file \<Rightarrow> libraries \<Rightarrow> client_error + libraries" where
  "load_library f s =
     (case loaded_as f of
        None \<Rightarrow> Inr s
      | Some h \<Rightarrow>
          and_then (createApplicationPluginObject h f
            (s\<lparr>mapped := (mapped s)(h := Suc (mapped s h)),
               applicationPlugins :=
                 (if applicationPlugins s h = None then (applicationPlugins s)(h \<mapsto> []) else applicationPlugins s)\<rparr>))
            (\<lambda>(ob, s1).
          case (ob, makes f) of
            (Some ob, Some (p, names)) \<Rightarrow> add_supported ob p names s1
          | _ \<Rightarrow> Inr (FreeLibrary h s1)))"

fun load_libraries :: "library_file list \<Rightarrow> libraries \<Rightarrow> client_error + libraries" where
  "load_libraries [] s = Inr s"
| "load_libraries (f # fs) s = and_then (load_library f s) (load_libraries fs)"

text \<open>What a call of the plug-in for an application reaches; the object may be gone.\<close>

definition getApplicationPlugin :: "wstring \<Rightarrow> libraries \<Rightarrow> client_error + plugin option" where
  "getApplicationPlugin app s =
     (case app_objects s app of
        None \<Rightarrow> Inr None
      | Some ob \<Rightarrow> (case objects s ob of None \<Rightarrow> Inl DANGLING_POINTER | Some p \<Rightarrow> Inr (Some p)))"

subsection \<open>Unloading\<close>

text \<open>\<open>found\<close>: \<open>Delete\<close> was found in the library, which takes that the library is loaded.\<close>

fun delete_objects :: "bool \<Rightarrow> nat list \<Rightarrow> libraries \<Rightarrow> client_error + libraries" where
  "delete_objects found [] s = Inr s"
| "delete_objects found (ob # obs) s =
     (if \<not> found then Inl NULL_POINTER
      else if objects s ob = None then Inl DOUBLE_FREE
      else delete_objects found obs (s\<lparr>objects := (objects s)(ob := None)\<rparr>))"

text \<open>The handles come in the order of the hash map.\<close>

fun unloadClientPlugins :: "(nat \<Rightarrow> bool) \<Rightarrow> nat list \<Rightarrow> libraries \<Rightarrow> client_error + libraries" where
  "unloadClientPlugins exports_delete [] s = Inr s"
| "unloadClientPlugins exports_delete (h # hs) s =
     (case applicationPlugins s h of
        None \<Rightarrow> Inl DANGLING_ITERATOR
      | Some obs \<Rightarrow>
          and_then (delete_objects (exports_delete h \<and> 0 < mapped s h) obs s) (\<lambda>s1.
          unloadClientPlugins exports_delete hs (FreeLibrary h s1)))"

subsection \<open>What the files promise\<close>

definition library_ok :: "library_file \<Rightarrow> bool" where
  "library_ok f \<longleftrightarrow>
     (loaded_as f \<noteq> None \<longrightarrow> exports_new f) \<and>
     (\<forall>p ns. makes f = Some (p, ns) \<longrightarrow> (\<exists>rest. ns = map Some (supportedApplications p) @ None # rest))"

definition made_by :: "library_file \<Rightarrow> (nat \<times> plugin) list" where
  "made_by f =
     (case (loaded_as f, makes f) of (Some h, Some (p, ns)) \<Rightarrow> [(h, p)] | _ \<Rightarrow> [])"

definition made :: "library_file list \<Rightarrow> (nat \<times> plugin) list" where
  "made fs = concat (map made_by fs)"

text \<open>
  The invariant: every object is in one list, every pointer to one is to an object that is
  there, and a library is loaded once for every object it made.
\<close>

definition listed :: "libraries \<Rightarrow> nat \<Rightarrow> nat list" where
  "listed s h = (case applicationPlugins s h of None \<Rightarrow> [] | Some l \<Rightarrow> l)"

definition libraries_inv :: "libraries \<Rightarrow> bool" where
  "libraries_inv s \<longleftrightarrow>
     (\<forall>h. mapped s h = length (listed s h)) \<and>
     (\<forall>h. distinct (listed s h)) \<and>
     (\<forall>h h'. h \<noteq> h' \<longrightarrow> set (listed s h) \<inter> set (listed s h') = {}) \<and>
     dom (objects s) = (\<Union>h. set (listed s h)) \<and>
     (\<forall>ob \<in> dom (objects s). ob < next_object s) \<and>
     ran (app_objects s) \<subseteq> dom (objects s)"

definition viewed :: "libraries \<Rightarrow> application_map" where
  "viewed s app = Option.bind (app_objects s app) (objects s)"

lemma no_libraries_inv: "libraries_inv no_libraries"
  by (simp add: libraries_inv_def no_libraries_def listed_def)

subsection \<open>Loading keeps the invariant\<close>

lemma listed_update [simp]:
  "listed (s\<lparr>app_objects := m\<rparr>) = listed s" "listed (s\<lparr>objects := os\<rparr>) = listed s"
  "listed (s\<lparr>mapped := c\<rparr>) = listed s" "listed (FreeLibrary h s) = listed s"
  by (simp_all add: listed_def FreeLibrary_def fun_eq_iff)

lemma libraries_inv_same:
  "libraries_inv s \<Longrightarrow> mapped t = mapped s \<Longrightarrow> listed t = listed s \<Longrightarrow> objects t = objects s \<Longrightarrow>
     next_object t = next_object s \<Longrightarrow> ran (app_objects t) \<subseteq> dom (objects s) \<Longrightarrow> libraries_inv t"
  by (simp only: libraries_inv_def) blast

lemma libraries_invD:
  assumes "libraries_inv s"
  shows "mapped s h = length (listed s h)" and "distinct (listed s h)"
    and "\<forall>h h'. h \<noteq> h' \<longrightarrow> set (listed s h) \<inter> set (listed s h') = {}"
    and "dom (objects s) = (\<Union>h. set (listed s h))"
  using assms unfolding libraries_inv_def by simp_all

lemma libraries_inv_object:
  "libraries_inv s \<Longrightarrow> app_objects s app = Some ob \<Longrightarrow> \<exists>p. objects s ob = Some p"
  unfolding libraries_inv_def by (meson domD ranI subsetD)

lemma libraries_inv_points:
  assumes "libraries_inv s" and "objects s ob = Some p"
  shows "libraries_inv (s\<lparr>app_objects := (app_objects s)(app \<mapsto> ob)\<rparr>)"
proof (rule libraries_inv_same [OF assms(1)])
  have "ran (app_objects s) \<subseteq> dom (objects s)" using assms(1) unfolding libraries_inv_def by blast
  then show "ran (app_objects (s\<lparr>app_objects := (app_objects s)(app \<mapsto> ob)\<rparr>)) \<subseteq> dom (objects s)"
    using assms(2) by (auto simp: ran_def)
qed simp_all

lemma add_application_object_inv:
  assumes "libraries_inv s" and "objects s ob = Some p"
  shows "\<exists>s'. add_application_object ob p app s = Inr s' \<and> libraries_inv s' \<and> objects s' = objects s \<and>
    applicationPlugins s' = applicationPlugins s \<and> mapped s' = mapped s \<and>
    viewed s' = add_application p app (viewed s)"
proof (cases "app_objects s app")
  case None
  let ?s = "s\<lparr>app_objects := (app_objects s)(app \<mapsto> ob)\<rparr>"
  have "libraries_inv ?s" by (rule libraries_inv_points [OF assms])
  moreover have "viewed ?s = add_application p app (viewed s)"
    using assms(2) None by (auto simp: viewed_def add_application_def fun_eq_iff)
  ultimately show ?thesis using None by (simp add: add_application_object_def)
next
  case (Some q)
  then obtain old where old: "objects s q = Some old" using libraries_inv_object [OF assms(1)] by blast
  let ?s = "s\<lparr>app_objects := (app_objects s)(app \<mapsto> ob)\<rparr>"
  have "libraries_inv ?s" by (rule libraries_inv_points [OF assms])
  moreover have "viewed ?s = (viewed s)(app \<mapsto> p)" and "viewed s app = Some old"
    using assms(2) Some old by (auto simp: viewed_def fun_eq_iff)
  ultimately show ?thesis
    using assms(1) Some old by (simp add: add_application_object_def add_application_def)
qed

lemma add_supported_inv:
  assumes "libraries_inv s" and "objects s ob = Some p"
  shows "\<exists>s'. add_supported ob p (map Some apps @ None # rest) s = Inr s' \<and> libraries_inv s' \<and>
    objects s' = objects s \<and> applicationPlugins s' = applicationPlugins s \<and>
    viewed s' = foldl (\<lambda>m app. add_application p app m) (viewed s) apps"
  using assms
proof (induction apps arbitrary: s)
  case (Cons app apps)
  obtain s1 where s1: "add_application_object ob p app s = Inr s1" "libraries_inv s1" "objects s1 = objects s"
    "applicationPlugins s1 = applicationPlugins s" "viewed s1 = add_application p app (viewed s)"
    using add_application_object_inv [OF Cons.prems] by blast
  then show ?case using Cons.IH [of s1] Cons.prems(2) by auto
qed simp

lemma load_library_inv:
  assumes inv: "libraries_inv s" and ok: "library_ok f"
  shows "\<exists>s'. load_library f s = Inr s' \<and> libraries_inv s' \<and>
    (\<forall>h. length (listed s' h) = length (listed s h) + length (filter (\<lambda>(h', p). h' = h) (made_by f))) \<and>
    viewed s' = foldl (\<lambda>m p. foldl (\<lambda>m app. add_application p app m) m (supportedApplications p))
      (viewed s) (map snd (made_by f))"
proof (cases "loaded_as f")
  case None
  then show ?thesis using inv by (simp add: load_library_def made_by_def)
next
  case h: (Some h)
  define s1 where "s1 = s\<lparr>mapped := (mapped s)(h := Suc (mapped s h)),
      applicationPlugins := (if applicationPlugins s h = None then (applicationPlugins s)(h \<mapsto> []) else applicationPlugins s)\<rparr>"
  have l1: "listed s1 = listed s" by (auto simp: s1_def listed_def fun_eq_iff)
  have new: "exports_new f" using ok h by (simp add: library_ok_def)
  show ?thesis
  proof (cases "makes f")
    case None
    let ?t = "FreeLibrary h s1"
    have "listed ?t = listed s" using l1 by simp
    moreover have "mapped ?t = mapped s" "objects ?t = objects s" "next_object ?t = next_object s" "app_objects ?t = app_objects s"
      by (auto simp: FreeLibrary_def s1_def)
    moreover have "ran (app_objects s) \<subseteq> dom (objects s)" using inv unfolding libraries_inv_def by blast
    ultimately have "libraries_inv ?t" "viewed ?t = viewed s" "listed ?t = listed s"
      using libraries_inv_same [OF inv, of ?t] unfolding viewed_def by simp_all
    then show ?thesis
      using h None new by (simp add: load_library_def createApplicationPluginObject_def made_by_def flip: s1_def)
  next
    case (Some m)
    obtain p ns where m: "m = (p, ns)" by (cases m)
    obtain rest where ns: "ns = map Some (supportedApplications p) @ None # rest"
      using ok Some m by (auto simp: library_ok_def)
    define ob where "ob = next_object s"
    define t where "t = s1\<lparr>objects := (objects s)(ob \<mapsto> p), next_object := Suc ob,
        applicationPlugins := (applicationPlugins s1)(h \<mapsto> listed s h @ [ob])\<rparr>"
    have a1: "applicationPlugins s1 h = Some (listed s h)"
      by (auto simp: s1_def listed_def)
    have c: "createApplicationPluginObject h f s1 = Inr (Some ob, t)"
      using new Some m a1 by (simp add: createApplicationPluginObject_def t_def ob_def) (simp add: s1_def)
    have lt: "listed t = (listed s)(h := listed s h @ [ob])"
      using l1 by (auto simp: t_def listed_def fun_eq_iff)
    have "\<forall>x \<in> dom (objects s). x < next_object s" "dom (objects s) = (\<Union>h. set (listed s h))"
      using inv unfolding libraries_inv_def by blast+
    then have fresh: "ob \<notin> dom (objects s)" and "ob \<notin> set (listed s g)" for g
      unfolding ob_def by blast+
    moreover have "mapped t = (mapped s)(h := Suc (mapped s h))" "objects t = (objects s)(ob \<mapsto> p)"
      "next_object t = Suc ob" "app_objects t = app_objects s"
      by (simp_all add: t_def s1_def)
    ultimately have inv_t: "libraries_inv t"
      using inv unfolding libraries_inv_def lt by (auto simp: ob_def less_Suc_eq split: if_split_asm)
    have vt: "viewed t = viewed s"
    proof
      fix app show "viewed t app = viewed s app"
        using libraries_inv_object [OF inv, of app] fresh
        by (cases "app_objects s app") (auto simp: viewed_def t_def s1_def)
    qed
    obtain s' where s': "add_supported ob p ns t = Inr s'" "libraries_inv s'"
      "applicationPlugins s' = applicationPlugins t"
      "viewed s' = foldl (\<lambda>m app. add_application p app m) (viewed t) (supportedApplications p)"
      using add_supported_inv [OF inv_t, of ob p "supportedApplications p" rest] by (auto simp: ns t_def)
    have ls: "listed s' = listed t" using s'(3) by (simp add: listed_def fun_eq_iff)
    have "load_library f s = Inr s'"
      using h c s'(1) Some m by (simp add: load_library_def flip: s1_def)
    then show ?thesis
      using s'(2,4) ls lt vt h Some m by (simp add: made_by_def)
  qed
qed

lemma load_libraries_inv:
  assumes "libraries_inv s" and "list_all library_ok fs"
  shows "\<exists>s'. load_libraries fs s = Inr s' \<and> libraries_inv s' \<and>
    (\<forall>h. length (listed s' h) = length (listed s h) + length (filter (\<lambda>(h', p). h' = h) (made fs))) \<and>
    viewed s' = foldl (\<lambda>m p. foldl (\<lambda>m app. add_application p app m) m (supportedApplications p))
      (viewed s) (map snd (made fs))"
  using assms
proof (induction fs arbitrary: s)
  case (Cons f fs)
  obtain s1 where s1: "load_library f s = Inr s1" "libraries_inv s1"
    "\<forall>h. length (listed s1 h) = length (listed s h) + length (filter (\<lambda>(h', p). h' = h) (made_by f))"
    "viewed s1 = foldl (\<lambda>m p. foldl (\<lambda>m app. add_application p app m) m (supportedApplications p))
      (viewed s) (map snd (made_by f))"
    using load_library_inv [OF Cons.prems(1), of f] Cons.prems(2) by auto
  then show ?case using Cons.IH [OF s1(2)] Cons.prems(2) by (auto simp: made_def)
qed (simp add: made_def)

subsection \<open>Unloading frees everything once\<close>

lemma delete_objects_all:
  assumes "distinct obs" and "set obs \<subseteq> dom (objects s)"
  shows "delete_objects True obs s = Inr (s\<lparr>objects := (objects s) |` (- set obs)\<rparr>)"
  using assms
proof (induction obs arbitrary: s)
  case (Cons ob obs)
  have "((objects s)(ob := None)) |` (- set obs) = objects s |` (- set (ob # obs))"
    by (auto simp: restrict_map_def fun_eq_iff)
  moreover have "delete_objects True obs (s\<lparr>objects := (objects s)(ob := None)\<rparr>) =
      Inr (s\<lparr>objects := ((objects s)(ob := None)) |` (- set obs)\<rparr>)"
    by (rule trans [OF Cons.IH]) (use Cons.prems in \<open>auto simp del: fun_upd_apply\<close>)
  moreover have "objects s ob \<noteq> None" using Cons.prems by auto
  ultimately show ?case by (simp only: delete_objects.simps if_False simp_thms)
qed simp

text \<open>Handles that are not repeated give every library one object at most.\<close>

lemma made_once: "distinct (map fst ms) \<Longrightarrow> length (filter (\<lambda>(h', p). h' = h) ms) \<le> 1"
proof (induction ms)
  case (Cons m ms)
  have "filter (\<lambda>(h', p). h' = h) ms = []" if "fst m = h"
    using Cons.prems that by (auto simp: filter_empty_conv intro: rev_image_eqI)
  then show ?case using Cons by (cases m; cases "fst m = h") simp_all
qed simp

lemma made_of: "filter (\<lambda>(h', p). h' = h) ms \<noteq> [] \<Longrightarrow> \<exists>p. (h, p) \<in> set ms"
  by (auto simp: filter_empty_conv)

lemma unload_all:
  assumes "distinct hs" and "set hs \<subseteq> dom (applicationPlugins s)" and "\<forall>h. distinct (listed s h)"
    and "\<forall>h \<in> set hs. mapped s h = length (listed s h) \<and> length (listed s h) \<le> 1 \<and> set (listed s h) \<subseteq> dom (objects s)"
    and "\<forall>h h'. h \<noteq> h' \<longrightarrow> set (listed s h) \<inter> set (listed s h') = {}" and "\<forall>h \<in> set hs. listed s h \<noteq> [] \<longrightarrow> exports_delete h"
  shows "\<exists>s'. unloadClientPlugins exports_delete hs s = Inr s' \<and>
    (\<forall>h. mapped s' h = (if h \<in> set hs then 0 else mapped s h)) \<and>
    objects s' = objects s |` (- (\<Union>h \<in> set hs. set (listed s h)))"
  using assms
proof (induction hs arbitrary: s)
  case (Cons h hs)
  obtain obs where obs: "applicationPlugins s h = Some obs" "listed s h = obs"
    using Cons.prems(2) by (auto simp: listed_def)
  define t where "t = FreeLibrary h (s\<lparr>objects := (objects s) |` (- set obs)\<rparr>)"
  have found: "delete_objects (exports_delete h \<and> 0 < mapped s h) obs s = Inr (s\<lparr>objects := (objects s) |` (- set obs)\<rparr>)"
  proof (cases obs)
    case Nil
    then show ?thesis by (simp add: restrict_map_def)
  next
    case (Cons a b)
    then have "exports_delete h \<and> 0 < mapped s h" using Cons.prems(4,6) obs(2) by simp
    moreover have "distinct obs" "set obs \<subseteq> dom (objects s)" using Cons.prems(3,4) obs(2) by auto
    ultimately show ?thesis using delete_objects_all [of obs s] by simp
  qed
  have lt: "listed t = listed s" by (simp add: t_def)
  have "\<exists>s'. unloadClientPlugins exports_delete hs t = Inr s' \<and>
      (\<forall>g. mapped s' g = (if g \<in> set hs then 0 else mapped t g)) \<and>
      objects s' = objects t |` (- (\<Union>g \<in> set hs. set (listed t g)))"
  proof (rule Cons.IH)
    show "\<forall>g \<in> set hs. mapped t g = length (listed t g) \<and> length (listed t g) \<le> 1 \<and> set (listed t g) \<subseteq> dom (objects t)"
    proof
      fix g assume g: "g \<in> set hs"
      then have "g \<noteq> h" using Cons.prems(1) by auto
      then have "set (listed s g) \<inter> set obs = {}" using Cons.prems(5) obs(2) by blast
      then show "mapped t g = length (listed t g) \<and> length (listed t g) \<le> 1 \<and> set (listed t g) \<subseteq> dom (objects t)"
        using Cons.prems(4) g \<open>g \<noteq> h\<close> by (auto simp: lt) (auto simp: t_def FreeLibrary_def restrict_map_def)
    qed
  qed (use Cons.prems in \<open>auto simp: lt t_def FreeLibrary_def\<close>)
  then obtain s' where s': "unloadClientPlugins exports_delete hs t = Inr s'"
    "\<forall>g. mapped s' g = (if g \<in> set hs then 0 else mapped t g)"
    "objects s' = objects t |` (- (\<Union>g \<in> set hs. set (listed t g)))" by blast
  have "mapped t h = 0" using Cons.prems(4) obs(2) by (simp add: t_def FreeLibrary_def)
  moreover have "objects t |` (- (\<Union>g \<in> set hs. set (listed t g))) = objects s |` (- (\<Union>g \<in> set (h # hs). set (listed s g)))"
    using obs(2) by (auto simp: lt t_def FreeLibrary_def restrict_map_def fun_eq_iff)
  ultimately show ?case
    using s' found obs(1) by (auto simp: t_def [symmetric]) (simp add: t_def FreeLibrary_def)
qed (simp add: restrict_map_def)

end
