(* ===== verification/Observers.thy ===== *)
theory Observers
  imports WideText
begin

text \<open>
  The observers of a subject (\<open>Observable.h\<close>): a vector of pointers that \<open>attach\<close> appends to,
  \<open>detach\<close> erases from while it goes through it, and \<open>notify\<close> goes through in order.
\<close>

definition attach :: "'o \<Rightarrow> 'o list \<Rightarrow> 'o list" where
  "attach ob obs = obs @ [ob]"

definition erase_at :: "nat \<Rightarrow> 'o list \<Rightarrow> 'o list" where
  "erase_at i obs = take i obs @ drop (Suc i) obs"

text \<open>
  The iterator is a position. After \<open>erase\<close> it stands on what followed and is moved on all the
  same; the loop ends only when it stands exactly on the end.
\<close>

function detach_from :: "'o \<Rightarrow> nat \<Rightarrow> 'o list \<Rightarrow> client_error + 'o list" where
  "detach_from ob i obs =
     (if i = length obs then Inr obs
      else if length obs < i then Inl BUFFER_OVERRUN
      else detach_from ob (Suc i) (if obs ! i = ob then erase_at i obs else obs))"
  by pat_completeness auto
termination
  by (relation "measure (\<lambda>(ob, i, obs). length obs - i)") (auto simp: erase_at_def)

declare detach_from.simps [simp del]

definition detach :: "'o \<Rightarrow> 'o list \<Rightarrow> client_error + 'o list" where
  "detach ob obs = detach_from ob 0 obs"

text \<open>\<open>update ob\<close> is what an observer does to the state with a message.\<close>

definition notify :: "('o \<Rightarrow> 't \<Rightarrow> 'm \<Rightarrow> 's \<Rightarrow> 's) \<Rightarrow> 't \<Rightarrow> 'm \<Rightarrow> 'o list \<Rightarrow> 's \<Rightarrow> 's" where
  "notify update type msg obs s = foldl (\<lambda>s ob. update ob type msg s) s obs"

lemma notify_attach: "notify update type msg (attach ob obs) s = update ob type msg (notify update type msg obs s)"
  by (simp add: notify_def attach_def)

lemma length_erase_at [simp]: "i < length obs \<Longrightarrow> length (erase_at i obs) = length obs - 1"
  by (simp add: erase_at_def)

lemma detach_from_absent:
  "i \<le> length obs \<Longrightarrow> ob \<notin> set (drop i obs) \<Longrightarrow> detach_from ob i obs = Inr obs"
proof (induction "length obs - i" arbitrary: i)
  case 0
  then show ?case by (simp add: detach_from.simps)
next
  case (Suc n)
  then have i: "i < length obs" by simp
  then have "drop i obs = obs ! i # drop (Suc i) obs" by (simp add: Cons_nth_drop_Suc)
  then have "obs ! i \<noteq> ob" "ob \<notin> set (drop (Suc i) obs)" using Suc.prems(2) by auto
  then show ?case using Suc.hyps(1) [of "Suc i"] Suc.hyps(2) i by (simp add: detach_from.simps [of ob i])
qed

text \<open>
  An observer that is attached once is detached unless it is the last: then the iterator is
  moved beyond the end and never meets it.
\<close>

lemma detach_from_distinct:
  assumes "i \<le> length obs" and "distinct obs" and "ob \<notin> set (take i obs)"
  shows "detach_from ob i obs =
    (if obs \<noteq> [] \<and> last obs = ob then Inl BUFFER_OVERRUN else Inr (remove1 ob obs))"
  using assms
proof (induction "length obs - i" arbitrary: i)
  case 0
  then have "ob \<notin> set obs" "i = length obs" by simp_all
  then show ?case by (auto simp: detach_from.simps remove1_idem)
next
  case (Suc n)
  then have i: "i < length obs" by simp
  show ?case
  proof (cases "obs ! i = ob")
    case False
    then have "ob \<notin> set (take (Suc i) obs)" using Suc.prems(3) i by (simp add: take_Suc_conv_app_nth)
    then have "detach_from ob (Suc i) obs =
        (if obs \<noteq> [] \<and> last obs = ob then Inl BUFFER_OVERRUN else Inr (remove1 ob obs))"
      using Suc.hyps(1) [of "Suc i"] Suc.hyps(2) Suc.prems(2) i by simp
    then show ?thesis using False i by (simp add: detach_from.simps [of ob i])
  next
    case True
    have split: "obs = take i obs @ ob # drop (Suc i) obs" using True i id_take_nth_drop by metis
    then have "remove1 ob obs = erase_at i obs"
      using Suc.prems(3) by (metis erase_at_def remove1.simps(2) remove1_append)
    moreover have d: "ob \<notin> set (drop (Suc i) obs)"
      using Suc.prems(2) by (subst (asm) split) simp
    moreover have "last obs = ob \<longleftrightarrow> drop (Suc i) obs = []"
      using d by (subst split) (metis last.simps last_appendR last_in_set list.distinct(1))
    moreover have "detach_from ob (Suc i) (erase_at i obs) =
        (if drop (Suc i) obs = [] then Inl BUFFER_OVERRUN else Inr (erase_at i obs))"
    proof (cases "drop (Suc i) obs")
      case Nil
      then have "length (erase_at i obs) = i" using i by simp
      then show ?thesis using Nil by (subst detach_from.simps) simp
    next
      case (Cons x xs)
      have "set (drop (Suc i) (erase_at i obs)) \<subseteq> set (drop (Suc i) obs)"
        using i set_drop_subset [of 1 "drop (Suc i) obs"] by (simp add: erase_at_def min_def)
      moreover have "Suc i < length obs" using Cons by (metis drop_all linorder_not_less list.distinct(1))
      ultimately show ?thesis using d Cons by (subst detach_from_absent) auto
    qed
    ultimately show ?thesis using True i by (auto simp: detach_from.simps [of ob i obs])
  qed
qed

lemma detach_distinct:
  "distinct obs \<Longrightarrow> detach ob obs =
     (if obs \<noteq> [] \<and> last obs = ob then Inl BUFFER_OVERRUN else Inr (remove1 ob obs))"
  unfolding detach_def by (rule detach_from_distinct) simp_all

lemma detach_attached: "ob \<notin> set obs \<Longrightarrow> distinct obs \<Longrightarrow> detach ob (attach ob obs) = Inl BUFFER_OVERRUN"
  by (subst detach_distinct) (simp_all add: attach_def)

end
