(* ===== verification/ClientStartup.thy ===== *)
theory ClientStartup
  imports ClientMain MonitorThread
begin

text \<open>
  What the client does with the system before and while its parts are made: the privileges it
  asks for and the directory of old logs it deletes (\<open>CaptureClient.cpp\<close>), the sockets
  (\<open>Server.cpp\<close>), opening the drivers (the constructors of the monitors), and the bytes of a
  line of the log (\<open>Logger.cpp\<close>).
\<close>

subsection \<open>Privileges\<close>

text \<open>
  What the system answers: the token of the process is opened, the name of the privilege is
  known, adjusting it succeeds, and not all that was asked for was given.
\<close>

record token_env =
  token_opened :: bool
  privilege_known :: bool
  adjusted :: bool
  not_all_assigned :: bool

definition obtainDriverLoadPrivilege :: "token_env \<Rightarrow> bool" where
  "obtainDriverLoadPrivilege env =
     (if token_opened env
      then if \<not> privilege_known env then False
        else if \<not> adjusted env then False
        else \<not> not_all_assigned env
      else True)"

definition obtainDebugPrivilege :: "token_env \<Rightarrow> bool" where
  "obtainDebugPrivilege env =
     (if token_opened env
      then if \<not> privilege_known env then False
        else if \<not> adjusted env then False
        else \<not> not_all_assigned env
      else True)"

text \<open>The constructor goes on only with both.\<close>

definition obtains_privileges :: "token_env \<Rightarrow> token_env \<Rightarrow> bool" where
  "obtains_privileges debug load \<longleftrightarrow> obtainDebugPrivilege debug \<and> obtainDriverLoadPrivilege load"

definition holds_privilege :: "token_env \<Rightarrow> bool" where
  "holds_privilege env \<longleftrightarrow> token_opened env \<and> privilege_known env \<and> adjusted env \<and> \<not> not_all_assigned env"

text \<open>A client that goes on holds both privileges, or could not even open its token.\<close>

lemma obtains_privileges_iff:
  "obtains_privileges debug load \<longleftrightarrow>
     (token_opened debug \<longrightarrow> holds_privilege debug) \<and> (token_opened load \<longrightarrow> holds_privilege load)"
  by (auto simp: obtains_privileges_def obtainDebugPrivilege_def obtainDriverLoadPrivilege_def holds_privilege_def)

subsection \<open>The directory of old logs\<close>

text \<open>
  \<open>szFullPath\<close> is an array of 4096 characters that is used for three paths one after the other.
  A path that does not fit is not written.
\<close>

definition put_path :: "wstring \<Rightarrow> wstring \<Rightarrow> wstring" where
  "put_path s buf = (if length s < length buf then s @ 0 # drop (Suc (length s)) buf else buf)"

text \<open>The directory the client changes to: \<open>npos + 1\<close> is 0.\<close>

definition start_directory :: "wstring \<Rightarrow> wstring" where
  "start_directory full = take (case wfind_last 0x5C full of Some i \<Rightarrow> Suc i | None \<Rightarrow> 0) full"

text \<open>\<open>pFrom\<close> is a list of names, each with its null character, and ended by an empty name.\<close>

fun names_at :: "wstring \<Rightarrow> wstring \<Rightarrow> client_error + wstring list" where
  "names_at name [] = Inl BUFFER_OVERRUN"
| "names_at name (c # cs) =
     (if c \<noteq> 0 then names_at (name @ [c]) cs
      else if name = [] then Inr []
      else and_then (names_at [] cs) (\<lambda>ns. Inr (name # ns)))"

text \<open>
  The paths of the executable, of the current directory and of the directory \<open>logs\<close> in it, and
  what the new array held.
\<close>

definition delete_log_directory :: "wstring \<Rightarrow> wstring \<Rightarrow> wstring \<Rightarrow> wstring \<Rightarrow> client_error + wstring list" where
  "delete_log_directory buf full cwd logs =
     names_at [] (put_path logs (put_path cwd (put_path full buf)))"

lemma names_at_name:
  "0 \<notin> set s \<Longrightarrow> names_at name (s @ 0 # cs) =
     (if name @ s = [] then Inr [] else and_then (names_at [] cs) (\<lambda>ns. Inr ((name @ s) # ns)))"
  by (induction s arbitrary: name) auto

lemma put_path_again:
  "length s \<le> length t \<Longrightarrow> put_path s (t @ 0 # r) = s @ 0 # drop (Suc (length s)) (t @ 0 # r)"
  by (simp add: put_path_def)

text \<open>
  Behind the name of the directory stands what is left of the first path, from the sixth
  character of the file's name on, and behind that what the array held.
\<close>

lemma log_directory_names:
  assumes "full = cwd @ 0x5C # exe" and "logs = cwd @ 0x5C # wide ''logs''"
    and "0 \<notin> set full" and "length full < length buf" and "5 < length exe"
  shows "delete_log_directory buf full cwd logs =
    and_then (names_at [] (drop (Suc (length full)) buf)) (\<lambda>ns. Inr (logs # drop 5 exe # ns))"
proof -
  let ?g = "drop (Suc (length full)) buf"
  have z: "0 \<notin> set exe" "0 \<notin> set logs" "0 \<notin> set cwd"
    using assms(1-3) by (auto simp: wide_def)
  have "put_path cwd (put_path full buf) = cwd @ 0 # drop (Suc (length cwd)) (cwd @ 0x5C # exe @ 0 # ?g)"
    using assms(1,4) by (simp add: put_path_def)
  then have b: "put_path cwd (put_path full buf) = cwd @ 0 # exe @ 0 # ?g" by simp
  have l: "length logs = length cwd + 5" by (simp add: assms(2))
  have "put_path logs (cwd @ 0 # exe @ 0 # ?g) = logs @ 0 # drop 5 exe @ 0 # ?g"
    using assms(5) by (simp add: put_path_def l)
  then have "delete_log_directory buf full cwd logs = names_at [] (logs @ 0 # drop 5 exe @ 0 # ?g)"
    unfolding delete_log_directory_def b by simp
  also have "\<dots> = and_then (names_at [] (drop 5 exe @ 0 # ?g)) (\<lambda>ns. Inr (logs # ns))"
    using names_at_name [OF z(2), of "[]"] assms(2) by simp
  also have "names_at [] (drop 5 exe @ 0 # ?g) = and_then (names_at [] ?g) (\<lambda>ns. Inr (drop 5 exe # ns))"
  proof -
    have "0 \<notin> set (drop 5 exe)" using z(1) by (meson in_set_dropD)
    then show ?thesis using names_at_name [of "drop 5 exe" "[]" ?g] assms(5) by simp
  qed
  finally show ?thesis by (cases "names_at [] ?g") simp_all
qed

lemma client_log_directory:
  assumes "logs = cwd @ 0x5C # wide ''logs''" and "0 \<notin> set cwd" and "length cwd + 18 < length buf"
  shows "delete_log_directory buf (cwd @ 0x5C # wide ''CaptureClient.exe'') cwd logs =
    and_then (names_at [] (drop (length cwd + 19) buf)) (\<lambda>ns. Inr (logs # wide ''reClient.exe'' # ns))"
proof -
  define exe where "exe = wide ''CaptureClient.exe''"
  have e: "drop 5 exe = wide ''reClient.exe''" "0 \<notin> set exe" and n: "length exe = 17"
    by (simp_all add: exe_def wide_def)
  have l: "length (cwd @ 0x5C # exe) = length cwd + 18" by (simp add: n)
  have "delete_log_directory buf (cwd @ 0x5C # exe) cwd logs =
      and_then (names_at [] (drop (Suc (length (cwd @ 0x5C # exe))) buf)) (\<lambda>ns. Inr (logs # drop 5 exe # ns))"
    by (rule log_directory_names [OF refl assms(1)]) (use assms(2,3) e(2) n l in auto)
  then show ?thesis unfolding l e(1) exe_def [symmetric] by (simp add: add.commute)
qed

subsection \<open>Sockets\<close>

text \<open>The error of \<open>WSAStartup\<close> and the two bytes of the version it chose, the low one first.\<close>

definition initialiseWinsock2 :: "nat \<Rightarrow> u8 \<Rightarrow> u8 \<Rightarrow> bool" where
  "initialiseWinsock2 error lo hi \<longleftrightarrow> error = 0 \<and> (lo = 2 \<or> hi = 0)"

lemma winsock_version:
  "initialiseWinsock2 0 2 0" "initialiseWinsock2 0 1 0"
  by (simp_all add: initialiseWinsock2_def)

subsection \<open>Opening the drivers\<close>

text \<open>The monitors of the registry and of processes: the service is started, then its device opened.\<close>

definition new_device_monitor :: "service_env \<Rightarrow> bool \<Rightarrow> monitor_life" where
  "new_device_monitor env device_opened = new_monitor (fst (installKernelDriver env False) \<and> device_opened)"

text \<open>The monitor of files: the filter is loaded, then its port connected.\<close>

definition IS_ERROR :: "u32 \<Rightarrow> bool" where
  "IS_ERROR hr \<longleftrightarrow> drop_bit 31 hr = 1"

definition new_file_monitor :: "u32 \<Rightarrow> u32 \<Rightarrow> monitor_life" where
  "new_file_monitor load_result port_result = new_monitor (\<not> IS_ERROR load_result \<and> \<not> IS_ERROR port_result)"

text \<open>
  The end of a destructor, when \<open>stop\<close> has returned: the device or the port is closed (and the
  filter unloaded).
\<close>

definition close_driver :: "monitor_life \<Rightarrow> monitor_life" where
  "close_driver m = (if mon_installed m then m\<lparr>mon_installed := False\<rparr> else m)"

text \<open>
  A monitor whose driver is not there, or not any more, has no thread that does anything, whatever
  is asked of it.
\<close>

lemma no_driver_no_thread:
  assumes "\<not> mon_installed m" and "owner_at m = Idle" and "set (thread_places m) \<subseteq> {Gone}"
    and "life_step e m = Some r"
  shows "r = Inr m"
proof (cases e)
  case (ThreadGoesOn i)
  then have "i < length (thread_places m)" using assms(4) by (auto simp: life_step_def split: if_split_asm)
  then have "thread_places m ! i = Gone" using assms(3) nth_mem by fastforce
  then show ?thesis using assms(4) ThreadGoesOn by (auto simp: life_step_def thread_step_def split: if_split_asm)
qed (use assms in \<open>auto simp: life_step_def monitor_start_def monitor_stop_def split: if_split_asm\<close>)

lemma closed_monitor_rests:
  "owner_at m = Idle \<Longrightarrow> set (thread_places m) \<subseteq> {Gone} \<Longrightarrow> life_step e (close_driver m) = Some r \<Longrightarrow>
     r = Inr (close_driver m)"
  by (rule no_driver_no_thread) (simp_all add: close_driver_def)

lemma new_device_monitor_installed:
  "mon_installed (new_device_monitor env device_opened) \<longleftrightarrow>
     device_opened \<and> manager_ok env \<and> (service_created env \<or> service_opened env) \<and>
     (start_error env = None \<or> start_error env = Some ERROR_SERVICE_ALREADY_RUNNING)"
  by (auto simp: new_device_monitor_def new_monitor_def installKernelDriver_def split: option.splits)

subsection \<open>The bytes of a line\<close>

text \<open>
  \<open>bs\<close> is the conversion of the line, empty when it failed, in a block of just that size;
  \<open>behind\<close> is what follows the block. The string that is made of the pointer ends at the first
  null character: the result has the string, how many bytes were converted, and how many were
  read behind the block.
\<close>

definition convertToMultiByteString :: "u8 list \<Rightarrow> u8 list \<Rightarrow> client_error + (u8 list \<times> nat \<times> nat)" where
  "convertToMultiByteString bs behind =
     (if bs = [] then Inr ([], 0, 0)
      else if 0 \<in> set bs then Inr (takeWhile (\<lambda>b. b \<noteq> 0) bs, length bs, 0)
      else if 0 \<in> set behind
      then Inr (bs @ takeWhile (\<lambda>b. b \<noteq> 0) behind, length bs, Suc (length (takeWhile (\<lambda>b. b \<noteq> 0) behind)))
      else Inl BUFFER_OVERRUN)"

definition writeToLog :: "bool \<Rightarrow> u8 list \<Rightarrow> u8 list \<Rightarrow> client_error + u8 list" where
  "writeToLog open_now bs behind =
     (if \<not> open_now then Inr []
      else and_then (convertToMultiByteString bs behind) (\<lambda>(s, n, over).
        if s = [] then Inr []
        else if n \<le> Suc (length s) then Inr (take n (s @ [0])) else Inl BUFFER_OVERRUN))"

definition closeLogFile :: "bool \<Rightarrow> bool" where
  "closeLogFile open_now = (if open_now then False else open_now)"

lemma closed_log_silent: "writeToLog (closeLogFile open_now) bs behind = Inr []"
  by (simp add: writeToLog_def closeLogFile_def)

text \<open>A line without null characters is written as it is, but bytes behind its block are read.\<close>

lemma log_line_written:
  assumes "bs \<noteq> []" and "0 \<notin> set bs" and "0 \<in> set behind"
  shows "writeToLog True bs behind = Inr bs \<and>
    (\<exists>s over. convertToMultiByteString bs behind = Inr (s, length bs, over) \<and> 0 < over)"
  using assms by (simp add: writeToLog_def convertToMultiByteString_def)

end
