(* ===== verification/LibraryClaims.thy ===== *)
theory LibraryClaims
  imports PluginContract PluginLibraries Observers ClientStartup
begin

text \<open>
  What holds for every plug-in: the life of the libraries they come from, and the reports of a
  visit, which rest on the contract of plug-ins. And what is deleted when the client starts.
\<close>

subsection \<open>The reports of a visit\<close>



text \<open>The browser is started for the first address only.\<close>

definition safari0 :: "nat \<Rightarrow> safari_env" where
  "safari0 k = \<lparr>folder_ok = False, preferences = (None, None),
     safari_created = (if k = 0 then None else Some 5), safari_terminated = None\<rparr>"

definition plugin0 :: plugin where
  "plugin0 = \<lparr>pl_name = ''safari'', getPriority = 100, getAlgorithm = wide ''seq'',
     supportedApplications = [wide ''safari''], visitGroup = (\<lambda>v. (safari_visitGroup safari0 v, False))\<rparr>"



subsection \<open>The libraries of the plug-ins\<close>

lemma delete_objects_names: "delete_objects found obs s = Inr s' \<Longrightarrow> app_objects s' = app_objects s"
  by (induction obs arbitrary: s) (auto split: if_split_asm)

lemma unload_names:
  "unloadClientPlugins exports_delete hs s = Inr s' \<Longrightarrow> app_objects s' = app_objects s"
proof (induction hs arbitrary: s)
  case (Cons h hs)
  then show ?case
    by (auto simp: and_then_Inr_iff FreeLibrary_def dest: delete_objects_names split: option.splits)
qed simp

text \<open>
  C36. The life of the plug-ins. When every library that can be loaded exports its functions and
  no two of those that made an object have one handle, loading ends without error; every
  application is handled by the first of the loaded plug-ins for it with the highest priority;
  and unloading, in whatever order the hash map gives the handles, deletes every object once and
  leaves no library loaded. The names stay bound to the deleted objects.
\<close>
theorem plugin_session:
  assumes "list_all library_ok fs" and "distinct (map fst (made fs))"
    and "list_all (\<lambda>(h, p). exports_delete h) (made fs)"
  shows "\<exists>s. load_libraries fs no_libraries = Inr s \<and>
    (\<forall>app. getApplicationPlugin app s = Inr (loadClientPlugins (map snd (made fs)) app) \<and>
       best_plugin app (map snd (made fs)) (loadClientPlugins (map snd (made fs)) app)) \<and>
    (\<forall>hs. distinct hs \<and> set hs = dom (applicationPlugins s) \<longrightarrow>
       (\<exists>s'. unloadClientPlugins exports_delete hs s = Inr s' \<and> objects s' = Map.empty \<and> mapped s' = (\<lambda>_. 0) \<and>
          (\<forall>app. getApplicationPlugin app s' =
             (if loadClientPlugins (map snd (made fs)) app = None then Inr None else Inl DANGLING_POINTER))))"
proof -
  obtain s where s: "load_libraries fs no_libraries = Inr s" "libraries_inv s"
    "\<forall>h. length (listed s h) = length (listed no_libraries h) + length (filter (\<lambda>(h', p). h' = h) (made fs))"
    "viewed s = foldl (\<lambda>m p. foldl (\<lambda>m app. add_application p app m) m (supportedApplications p))
      (viewed no_libraries) (map snd (made fs))"
    using load_libraries_inv [OF no_libraries_inv assms(1)] by blast
  have "viewed no_libraries = Map.empty" by (simp add: viewed_def no_libraries_def fun_eq_iff)
  then have v: "viewed s = loadClientPlugins (map snd (made fs))" using s(4) by (simp add: loadClientPlugins_def)
  have get: "getApplicationPlugin app s = Inr (loadClientPlugins (map snd (made fs)) app)" for app
    using libraries_inv_object [OF s(2), of app] fun_cong [OF v, of app]
    by (auto simp: getApplicationPlugin_def viewed_def split: option.splits)
  have n: "length (listed s h) = length (filter (\<lambda>(h', p). h' = h) (made fs))" for h
    using s(3) by (simp add: listed_def no_libraries_def)
  have one: "length (listed s h) \<le> 1" for h
    unfolding n using made_once [OF assms(2)] .
  have del: "exports_delete h" if "listed s h \<noteq> []" for h
  proof -
    have "filter (\<lambda>(h', p). h' = h) (made fs) \<noteq> []" using that n [of h] by (metis length_0_conv)
    then obtain p where "(h, p) \<in> set (made fs)" using made_of [of h "made fs"] by blast
    then show ?thesis using assms(3) by (auto simp: list_all_iff)
  qed
  note inv = libraries_invD [OF s(2)]
  have sub: "set (listed s h) \<subseteq> dom (objects s)" for h unfolding inv(4) by blast
  have "\<exists>s'. unloadClientPlugins exports_delete hs s = Inr s' \<and> objects s' = Map.empty \<and> mapped s' = (\<lambda>_. 0) \<and>
      (\<forall>app. getApplicationPlugin app s' =
         (if loadClientPlugins (map snd (made fs)) app = None then Inr None else Inl DANGLING_POINTER))"
    if hs: "distinct hs" "set hs = dom (applicationPlugins s)" for hs
  proof -
    have rest: "listed s h = []" if "h \<notin> set hs" for h using that hs(2) by (auto simp: listed_def)
    obtain s' where s': "unloadClientPlugins exports_delete hs s = Inr s'"
      "\<forall>h. mapped s' h = (if h \<in> set hs then 0 else mapped s h)"
      "objects s' = objects s |` (- (\<Union>h \<in> set hs. set (listed s h)))"
      using unload_all [OF hs(1), of s exports_delete] hs(2) inv(1,2,3) sub one del by auto
    have "(\<Union>h \<in> set hs. set (listed s h)) = dom (objects s)"
      unfolding inv(4) using rest by force
    then have o: "objects s' = Map.empty" using s'(3) by (auto simp: restrict_map_def fun_eq_iff)
    have m: "mapped s' = (\<lambda>_. 0)" using s'(2) rest inv(1) by (auto simp: fun_eq_iff)
    have "getApplicationPlugin app s' =
        (if loadClientPlugins (map snd (made fs)) app = None then Inr None else Inl DANGLING_POINTER)" for app
      using libraries_inv_object [OF s(2), of app] fun_cong [OF v, of app] o unload_names [OF s'(1)]
      by (auto simp: getApplicationPlugin_def viewed_def split: option.splits)
    then show ?thesis using s'(1) o m by blast
  qed
  then show ?thesis using s(1) get loadClientPlugins_best by blast
qed

text \<open>A file that is no library, a library that makes nothing, and two plug-ins for one application.\<close>

definition files0 :: "library_file list" where
  "files0 =
     [\<lparr>loaded_as = None, exports_new = False, makes = None\<rparr>,
      \<lparr>loaded_as = Some 1, exports_new = True, makes = None\<rparr>,
      \<lparr>loaded_as = Some 2, exports_new = True, makes = Some (plugin0\<lparr>getPriority := 0\<rparr>, [Some (wide ''safari''), None])\<rparr>,
      \<lparr>loaded_as = Some 3, exports_new = True, makes = Some (plugin0, [Some (wide ''safari''), None])\<rparr>]"

theorem plugin_session_witness:
  "\<exists>s s'. load_libraries files0 no_libraries = Inr s \<and> getApplicationPlugin (wide ''safari'') s = Inr (Some plugin0) \<and>
     unloadClientPlugins (\<lambda>_. True) [3, 1, 2] s = Inr s' \<and> objects s' = Map.empty \<and> mapped s' = (\<lambda>_. 0) \<and>
     getApplicationPlugin (wide ''safari'') s' = Inl DANGLING_POINTER"
proof -
  have m: "made files0 = [(2, plugin0\<lparr>getPriority := 0\<rparr>), (3, plugin0)]"
    by (simp add: made_def made_by_def files0_def)
  have l: "loadClientPlugins (map snd (made files0)) (wide ''safari'') = Some plugin0"
    by (simp add: m loadClientPlugins_def add_application_def plugin0_def)
  have ok: "list_all library_ok files0" by (simp add: files0_def library_ok_def plugin0_def)
  obtain s where s: "load_libraries files0 no_libraries = Inr s"
    and g: "\<forall>app. getApplicationPlugin app s = Inr (loadClientPlugins (map snd (made files0)) app) \<and>
       best_plugin app (map snd (made files0)) (loadClientPlugins (map snd (made files0)) app)"
    and u: "\<forall>hs. distinct hs \<and> set hs = dom (applicationPlugins s) \<longrightarrow>
       (\<exists>s'. unloadClientPlugins (\<lambda>_. True) hs s = Inr s' \<and> objects s' = Map.empty \<and> mapped s' = (\<lambda>_. 0) \<and>
          (\<forall>app. getApplicationPlugin app s' =
             (if loadClientPlugins (map snd (made files0)) app = None then Inr None else Inl DANGLING_POINTER)))"
    using plugin_session [OF ok, of "\<lambda>_. True"] by (auto simp: m)
  have "\<exists>t. load_libraries files0 no_libraries = Inr t \<and> dom (applicationPlugins t) = {1, 2, 3}"
    by (simp add: files0_def no_libraries_def load_library_def createApplicationPluginObject_def FreeLibrary_def
        add_application_object_def plugin0_def) auto
  then have "set [3, 1, 2] = dom (applicationPlugins s)" using s by auto
  moreover have "distinct [3, 1, 2 :: nat]" by simp
  ultimately obtain s' where "unloadClientPlugins (\<lambda>_. True) [3, 1, 2] s = Inr s'" "objects s' = Map.empty"
    "mapped s' = (\<lambda>_. 0)" "getApplicationPlugin (wide ''safari'') s' = Inl DANGLING_POINTER"
    using u l by (metis option.distinct(1))
  then show ?thesis using s g l by metis
qed

end
