(* ===== verification/ProcessMapRace.thy ===== *)
theory ProcessMapRace
  imports ProcessManager
begin

text \<open>
  The map of the process manager is used by the threads of all three monitors without a lock.
  Here \<open>getProcessPath\<close> (as far as the map answers, which it is not asked for process 4) and \<open>insertProcess\<close> of
  \<open>ProcessManager.cpp\<close> are taken apart into their accesses to the map, and threads are
  interleaved between these. Every access by itself is taken to be atomic.
\<close>

subsection \<open>Threads and their places\<close>

text \<open>
  A lookup with the tries that are left, one that holds an iterator, one that returned a path or
  gave the map up; an insertion of a converted path, one that holds an iterator, one about to
  insert the pair, and one that is done. An iterator is the address of an entry.
\<close>

datatype map_thread =
    LookupFind u32 nat
  | LookupRead u32 nat
  | LookupDone u32 wstring
  | LookupMissed u32
  | InsertFind u32 wstring
  | InsertErase u32 wstring nat
  | InsertPair u32 wstring
  | InsertDone u32 wstring

record race_state =
  map_ids :: "u32 \<rightharpoonup> nat"
  map_nodes :: "nat \<rightharpoonup> u32 \<times> wstring"
  next_node :: nat
  map_threads :: "map_thread list"

definition at_place :: "nat \<Rightarrow> map_thread \<Rightarrow> race_state \<Rightarrow> race_state" where
  "at_place i t s = s\<lparr>map_threads := (map_threads s)[i := t]\<rparr>"

subsection \<open>The accesses\<close>

text \<open>\<open>find\<close> of \<open>getProcessPath\<close>; when there is no entry the thread waits and tries again.\<close>

definition lookup_find :: "nat \<Rightarrow> u32 \<Rightarrow> nat \<Rightarrow> race_state \<Rightarrow> race_state" where
  "lookup_find i pid left s =
     at_place i
       (case map_ids s pid of
          Some n \<Rightarrow> LookupRead pid n
        | None \<Rightarrow> if left \<le> 1 then LookupMissed pid else LookupFind pid (left - 1)) s"

text \<open>\<open>return it->second\<close>.\<close>

definition lookup_read :: "nat \<Rightarrow> u32 \<Rightarrow> nat \<Rightarrow> race_state \<Rightarrow> client_error + race_state" where
  "lookup_read i pid n s =
     (case map_nodes s n of
        None \<Rightarrow> Inl DANGLING_ITERATOR
      | Some (k, path) \<Rightarrow> Inr (at_place i (LookupDone pid path) s))"

text \<open>\<open>find\<close>, \<open>erase\<close> and \<open>insert\<close> of \<open>insertProcess\<close>; inserting keeps an entry that is there.\<close>

definition insert_find :: "nat \<Rightarrow> u32 \<Rightarrow> wstring \<Rightarrow> race_state \<Rightarrow> race_state" where
  "insert_find i pid p s =
     at_place i (case map_ids s pid of Some n \<Rightarrow> InsertErase pid p n | None \<Rightarrow> InsertPair pid p) s"

definition insert_erase :: "nat \<Rightarrow> u32 \<Rightarrow> wstring \<Rightarrow> nat \<Rightarrow> race_state \<Rightarrow> client_error + race_state" where
  "insert_erase i pid p n s =
     (case map_nodes s n of
        None \<Rightarrow> Inl DANGLING_ITERATOR
      | Some (k, path) \<Rightarrow>
          Inr (at_place i (InsertPair pid p)
            (s\<lparr>map_ids := (map_ids s)(k := None), map_nodes := (map_nodes s)(n := None)\<rparr>)))"

definition insert_pair :: "nat \<Rightarrow> u32 \<Rightarrow> wstring \<Rightarrow> race_state \<Rightarrow> race_state" where
  "insert_pair i pid p s =
     at_place i (InsertDone pid p)
       (if map_ids s pid = None
        then s\<lparr>map_ids := (map_ids s)(pid \<mapsto> next_node s),
               map_nodes := (map_nodes s)(next_node s \<mapsto> (pid, p)), next_node := Suc (next_node s)\<rparr>
        else s)"

definition race_step :: "nat \<Rightarrow> race_state \<Rightarrow> client_error + race_state" where
  "race_step i s =
     (case map_threads s ! i of
        LookupFind pid left \<Rightarrow> Inr (lookup_find i pid left s)
      | LookupRead pid n \<Rightarrow> lookup_read i pid n s
      | InsertFind pid p \<Rightarrow> Inr (insert_find i pid p s)
      | InsertErase pid p n \<Rightarrow> insert_erase i pid p n s
      | InsertPair pid p \<Rightarrow> Inr (insert_pair i pid p s)
      | _ \<Rightarrow> Inr s)"

text \<open>A schedule says which thread goes on.\<close>

fun race_run :: "nat list \<Rightarrow> race_state \<Rightarrow> client_error + race_state" where
  "race_run [] s = Inr s"
| "race_run (i # is) s =
     (if i < length (map_threads s) then and_then (race_step i s) (race_run is) else race_run is s)"

subsection \<open>Threads that stay apart\<close>

fun thread_key :: "map_thread \<Rightarrow> u32" where
  "thread_key (LookupFind pid left) = pid"
| "thread_key (LookupRead pid n) = pid"
| "thread_key (LookupDone pid path) = pid"
| "thread_key (LookupMissed pid) = pid"
| "thread_key (InsertFind pid p) = pid"
| "thread_key (InsertErase pid p n) = pid"
| "thread_key (InsertPair pid p) = pid"
| "thread_key (InsertDone pid p) = pid"

fun inserts :: "map_thread \<Rightarrow> wstring option" where
  "inserts (InsertFind pid p) = Some p"
| "inserts (InsertErase pid p n) = Some p"
| "inserts (InsertPair pid p) = Some p"
| "inserts (InsertDone pid p) = Some p"
| "inserts t = None"

fun iterator :: "map_thread \<Rightarrow> nat option" where
  "iterator (LookupRead pid n) = Some n"
| "iterator (InsertErase pid p n) = Some n"
| "iterator t = None"

text \<open>No thread uses the entry that another one replaces.\<close>

definition apart :: "map_thread list \<Rightarrow> bool" where
  "apart ts \<longleftrightarrow>
     (\<forall>i < length ts. \<forall>j < length ts. i \<noteq> j \<and> inserts (ts ! j) \<noteq> None \<longrightarrow> thread_key (ts ! i) \<noteq> thread_key (ts ! j))"

text \<open>The map as the manager sees it.\<close>

definition race_map :: "race_state \<Rightarrow> u32 \<rightharpoonup> wstring" where
  "race_map s pid = (case map_ids s pid of None \<Rightarrow> None | Some n \<Rightarrow> map_option snd (map_nodes s n))"

definition race_wf :: "race_state \<Rightarrow> bool" where
  "race_wf s \<longleftrightarrow>
     (\<forall>pid n. map_ids s pid = Some n \<longrightarrow> (\<exists>p. map_nodes s n = Some (pid, p))) \<and>
     (\<forall>n pid p. map_nodes s n = Some (pid, p) \<longrightarrow> map_ids s pid = Some n \<and> n < next_node s)"

text \<open>What a thread knows of the map, and what it has done to the entry of its process.\<close>

definition thread_ok :: "(u32 \<rightharpoonup> wstring) \<Rightarrow> race_state \<Rightarrow> map_thread \<Rightarrow> bool" where
  "thread_ok m s t \<longleftrightarrow>
     (case t of
        LookupRead pid n \<Rightarrow> map_ids s pid = Some n
      | LookupDone pid path \<Rightarrow> m pid = Some path
      | LookupMissed pid \<Rightarrow> m pid = None
      | InsertFind pid p \<Rightarrow> race_map s pid = m pid
      | InsertErase pid p n \<Rightarrow> map_ids s pid = Some n \<and> race_map s pid = m pid
      | InsertPair pid p \<Rightarrow> map_ids s pid = None
      | InsertDone pid p \<Rightarrow> race_map s pid = Some p
      | _ \<Rightarrow> True)"

definition race_inv :: "(u32 \<rightharpoonup> wstring) \<Rightarrow> race_state \<Rightarrow> bool" where
  "race_inv m s \<longleftrightarrow>
     race_wf s \<and> apart (map_threads s) \<and> (\<forall>t \<in> set (map_threads s). thread_ok m s t) \<and>
     (\<forall>pid. (\<forall>t \<in> set (map_threads s). thread_key t = pid \<longrightarrow> inserts t = None) \<longrightarrow> race_map s pid = m pid)"

text \<open>A thread at its beginning.\<close>

fun begins :: "map_thread \<Rightarrow> bool" where
  "begins (LookupFind pid left) \<longleftrightarrow> True"
| "begins (InsertFind pid p) \<longleftrightarrow> True"
| "begins t \<longleftrightarrow> False"

lemma begins_ok: "begins t \<Longrightarrow> thread_ok (race_map s) s t"
  by (cases t) (simp_all add: thread_ok_def)

lemma race_inv_start:
  "race_wf s \<Longrightarrow> apart (map_threads s) \<Longrightarrow> list_all begins (map_threads s) \<Longrightarrow> race_inv (race_map s) s"
  unfolding race_inv_def by (simp add: list_all_iff begins_ok)

subsection \<open>The invariant is kept\<close>

lemma apart_step:
  assumes "apart ts" and "i < length ts" and "thread_key t = thread_key (ts ! i)" and "inserts t = inserts (ts ! i)"
  shows "apart (ts[i := t])"
  using assms by (auto simp: apart_def nth_list_update)

lemma apart_other:
  assumes "apart ts" and "i < length ts" and "j < length ts" and "i \<noteq> j" and "inserts (ts ! i) \<noteq> None"
  shows "thread_key (ts ! j) \<noteq> thread_key (ts ! i)"
  using assms unfolding apart_def by blast

lemma race_wf_node: "race_wf s \<Longrightarrow> map_ids s pid = Some n \<Longrightarrow> \<exists>p. map_nodes s n = Some (pid, p)"
  unfolding race_wf_def by blast

lemma race_wf_entry:
  "race_wf s \<Longrightarrow> map_nodes s n = Some (pid, p) \<Longrightarrow> map_ids s pid = Some n \<and> n < next_node s"
  unfolding race_wf_def by blast

lemma race_wf_erase:
  assumes wf: "race_wf s" and n: "map_nodes s n = Some (pid, q)"
  shows "race_wf (s\<lparr>map_ids := (map_ids s)(pid := None), map_nodes := (map_nodes s)(n := None)\<rparr>)"
proof -
  have "map_nodes s k \<noteq> map_nodes s n" if "map_ids s i = Some k" "i \<noteq> pid" for i k
    using race_wf_node [OF wf that(1)] that(2) n by auto
  then have "k \<noteq> n" if "map_ids s i = Some k" "i \<noteq> pid" for i k using that by blast
  then show ?thesis
    using race_wf_node [OF wf] race_wf_entry [OF wf] race_wf_entry [OF wf n]
    unfolding race_wf_def by (auto split: if_split_asm)
qed

lemma race_wf_fresh: "race_wf s \<Longrightarrow> map_ids s k \<noteq> Some (next_node s) \<and> map_nodes s (next_node s) = None"
proof -
  assume wf: "race_wf s"
  have "map_nodes s (next_node s) = None"
    using race_wf_entry [OF wf, of "next_node s"] by (cases "map_nodes s (next_node s)") auto
  then show ?thesis using race_wf_node [OF wf, of k "next_node s"] by auto
qed

lemma race_wf_pair:
  assumes wf: "race_wf s" and none: "map_ids s pid = None"
  shows "race_wf (s\<lparr>map_ids := (map_ids s)(pid \<mapsto> next_node s),
        map_nodes := (map_nodes s)(next_node s \<mapsto> (pid, p)), next_node := Suc (next_node s)\<rparr>)"
  using race_wf_node [OF wf] race_wf_entry [OF wf] race_wf_fresh [OF wf] none
  unfolding race_wf_def by (auto simp: less_Suc_eq split: if_split_asm)

text \<open>What a thread knows depends only on the entry of its own process.\<close>

lemma thread_ok_cong:
  "map_ids s' (thread_key t) = map_ids s (thread_key t) \<Longrightarrow> race_map s' (thread_key t) = race_map s (thread_key t) \<Longrightarrow>
     thread_ok m s' t = thread_ok m s t"
  by (cases t) (simp_all add: thread_ok_def)

lemma race_inv_update:
  assumes inv: "race_inv m s" and i: "i < length (map_threads s)" and wf: "race_wf s'"
    and ts: "map_threads s' = (map_threads s)[i := t]"
    and key: "thread_key t = thread_key (map_threads s ! i)" "inserts t = inserts (map_threads s ! i)"
    and ok: "thread_ok m s' t"
    and same: "\<And>pid. pid \<noteq> thread_key t \<or> inserts t = None \<Longrightarrow>
       map_ids s' pid = map_ids s pid \<and> race_map s' pid = race_map s pid"
  shows "race_inv m s'"
proof -
  have ap: "apart (map_threads s)" using inv by (simp add: race_inv_def)
  have others: "thread_ok m s' (map_threads s ! j)" if "j < length (map_threads s)" "j \<noteq> i" for j
  proof -
    have "thread_key (map_threads s ! j) \<noteq> thread_key t \<or> inserts t = None"
    proof (cases "inserts (map_threads s ! i) = None")
      case False
      then show ?thesis using apart_other [OF ap i that(1)] that(2) key by auto
    qed (simp add: key)
    moreover have "thread_ok m s (map_threads s ! j)" using inv that(1) by (simp add: race_inv_def)
    ultimately show ?thesis using thread_ok_cong same by blast
  qed
  have all: "thread_ok m s' u" if "u \<in> set (map_threads s')" for u
  proof -
    obtain j where j: "j < length (map_threads s)" "u = (map_threads s)[i := t] ! j"
      using \<open>u \<in> set (map_threads s')\<close> ts by (auto simp: in_set_conv_nth)
    then show ?thesis using ok others i by (cases "j = i") auto
  qed
  have rest: "race_map s' pid = m pid"
    if "\<forall>u \<in> set (map_threads s'). thread_key u = pid \<longrightarrow> inserts u = None" for pid
  proof -
    have "t \<in> set (map_threads s')" using i ts by (simp add: set_update_memI)
    then have "pid \<noteq> thread_key t \<or> inserts t = None" using that by auto
    moreover have "\<forall>u \<in> set (map_threads s). thread_key u = pid \<longrightarrow> inserts u = None"
    proof (intro ballI impI)
      fix u assume u: "u \<in> set (map_threads s)" "thread_key u = pid"
      then obtain j where j: "j < length (map_threads s)" "u = map_threads s ! j" by (auto simp: in_set_conv_nth)
      then show "inserts u = None"
      proof (cases "j = i")
        case True
        then show ?thesis using that \<open>t \<in> set (map_threads s')\<close> key u(2) j(2) by auto
      next
        case False
        then have "u \<in> set (map_threads s')" using j ts by (metis length_list_update nth_list_update_neq nth_mem)
        then show ?thesis using that u(2) by blast
      qed
    qed
    ultimately show ?thesis using inv same by (simp add: race_inv_def)
  qed
  show ?thesis
    unfolding race_inv_def using wf all rest apart_step [OF ap i key] ts by simp
qed

lemma race_map_place [simp]:
  "race_map (at_place i t s) = race_map s" "map_ids (at_place i t s) = map_ids s"
  "race_wf (at_place i t s) = race_wf s" "map_threads (at_place i t s) = (map_threads s)[i := t]"
  by (simp_all add: race_map_def at_place_def race_wf_def fun_eq_iff cong: option.case_cong)

lemma race_step_inv:
  assumes inv: "race_inv m s" and i: "i < length (map_threads s)"
  shows "\<exists>s'. race_step i s = Inr s' \<and> race_inv m s'"
proof -
  have wf: "race_wf s" and ok: "thread_ok m s (map_threads s ! i)"
    using inv i by (auto simp: race_inv_def)
  have look: "race_map s pid = m pid" if "map_threads s ! i = LookupFind pid left \<or> map_threads s ! i = LookupRead pid n" for pid left n
  proof -
    have "inserts t = None" if "t \<in> set (map_threads s)" "thread_key t = pid" for t
    proof (rule ccontr)
      assume c: "inserts t \<noteq> None"
      obtain j where j: "j < length (map_threads s)" "t = map_threads s ! j"
        using \<open>t \<in> set (map_threads s)\<close> by (auto simp: in_set_conv_nth)
      have "j \<noteq> i" using c j \<open>map_threads s ! i = _ \<or> _\<close> by auto
      moreover have "apart (map_threads s)" using inv by (simp add: race_inv_def)
      ultimately show False
        using apart_other [of "map_threads s" j i] i j c \<open>thread_key t = pid\<close> \<open>map_threads s ! i = _ \<or> _\<close> by auto
    qed
    then show ?thesis using inv by (simp add: race_inv_def)
  qed
  note upd = race_inv_update [OF inv i]
  show ?thesis
  proof (cases "map_threads s ! i")
    case (LookupFind pid left)
    have "race_inv m (lookup_find i pid left s)"
      unfolding lookup_find_def
      by (rule upd) (use LookupFind wf look [of pid left] in
        \<open>auto simp: thread_ok_def race_map_def split: option.splits dest: race_wf_node\<close>)
    then show ?thesis by (simp add: race_step_def LookupFind)
  next
    case (LookupRead pid n)
    have it: "map_ids s pid = Some n" using ok LookupRead by (simp add: thread_ok_def)
    obtain p where p: "map_nodes s n = Some (pid, p)" using race_wf_node [OF wf it] by blast
    have "m pid = Some p" using look [of pid _ n] LookupRead it p by (simp add: race_map_def)
    then have "race_inv m (at_place i (LookupDone pid p) s)"
      by (intro upd) (use LookupRead wf in \<open>auto simp: thread_ok_def\<close>)
    then show ?thesis by (simp add: race_step_def LookupRead lookup_read_def p)
  next
    case (InsertFind pid p)
    have "race_inv m (insert_find i pid p s)"
      unfolding insert_find_def
      by (rule upd) (use InsertFind wf ok in \<open>auto simp: thread_ok_def split: option.splits\<close>)
    then show ?thesis by (simp add: race_step_def InsertFind)
  next
    case (InsertErase pid p n)
    have it: "map_ids s pid = Some n" using ok InsertErase by (simp add: thread_ok_def)
    obtain q where q: "map_nodes s n = Some (pid, q)" using race_wf_node [OF wf it] by blast
    let ?s = "s\<lparr>map_ids := (map_ids s)(pid := None), map_nodes := (map_nodes s)(n := None)\<rparr>"
    have only: "map_ids s k = Some n \<Longrightarrow> k = pid" for k using race_wf_node [OF wf, of k n] q by auto
    have wf': "race_wf ?s" by (rule race_wf_erase [OF wf q])
    have "race_inv m (at_place i (InsertPair pid p) ?s)"
      by (rule upd) (use InsertErase wf' only in \<open>auto simp: thread_ok_def race_map_def split: option.splits\<close>)
    then show ?thesis by (simp add: race_step_def InsertErase insert_erase_def q)
  next
    case (InsertPair pid p)
    have none: "map_ids s pid = None" using ok InsertPair by (simp add: thread_ok_def)
    let ?s = "s\<lparr>map_ids := (map_ids s)(pid \<mapsto> next_node s),
        map_nodes := (map_nodes s)(next_node s \<mapsto> (pid, p)), next_node := Suc (next_node s)\<rparr>"
    have fresh: "map_ids s k \<noteq> Some (next_node s)" "map_nodes s (next_node s) = None" for k
      using race_wf_fresh [OF wf] by auto
    have wf': "race_wf ?s" by (rule race_wf_pair [OF wf none])
    have "race_inv m (at_place i (InsertDone pid p) ?s)"
      by (rule upd) (use InsertPair wf' fresh in \<open>auto simp: thread_ok_def race_map_def split: option.splits\<close>)
    then show ?thesis by (simp add: race_step_def InsertPair insert_pair_def none)
  qed (use inv in \<open>simp_all add: race_step_def\<close>)
qed

lemma race_run_inv:
  "race_inv m s \<Longrightarrow> \<exists>s'. race_run is s = Inr s' \<and> race_inv m s'"
proof (induction "is" arbitrary: s)
  case (Cons i "is")
  then show ?case using race_step_inv [OF Cons.prems, of i] by fastforce
qed simp

subsection \<open>What every schedule ends in\<close>

lemma map_list_update_same: "f t = f (xs ! i) \<Longrightarrow> map f (xs[i := t]) = map f xs"
  by (metis list_update_id map_update)

lemma race_step_place:
  assumes "race_step i s = Inr s'"
  shows "s' = s \<or> (\<exists>t. map_threads s' = (map_threads s)[i := t] \<and>
    thread_key t = thread_key (map_threads s ! i) \<and> inserts t = inserts (map_threads s ! i))"
proof (cases "map_threads s ! i")
  case (InsertErase pid p n)
  then show ?thesis
    using assms by (auto simp: race_step_def insert_erase_def at_place_def split: option.splits)
next
  case (InsertPair pid p)
  then show ?thesis
    using assms by (auto simp: race_step_def insert_pair_def at_place_def)
next
  case (LookupFind pid left)
  then show ?thesis
    using assms by (auto simp: race_step_def lookup_find_def split: option.splits)
next
  case (InsertFind pid p)
  then show ?thesis
    using assms by (auto simp: race_step_def insert_find_def split: option.splits)
next
  case (LookupRead pid n)
  then show ?thesis
    using assms by (auto simp: race_step_def lookup_read_def split: option.splits)
qed (use assms in \<open>auto simp: race_step_def\<close>)

lemma race_step_threads:
  "race_step i s = Inr s' \<Longrightarrow>
     map thread_key (map_threads s') = map thread_key (map_threads s) \<and>
     map inserts (map_threads s') = map inserts (map_threads s)"
  using race_step_place [of i s s'] by (auto simp: map_list_update_same)

lemma race_run_threads:
  "race_run is s = Inr s' \<Longrightarrow>
     map thread_key (map_threads s') = map thread_key (map_threads s) \<and>
     map inserts (map_threads s') = map inserts (map_threads s)"
proof (induction "is" arbitrary: s)
  case (Cons i "is")
  then show ?case
    by (auto simp: and_then_Inr_iff dest!: race_step_threads split: if_split_asm)
qed simp

definition inserted :: "map_thread list \<Rightarrow> (u32 \<times> wstring) list" where
  "inserted ts = map (\<lambda>t. (thread_key t, the (inserts t))) (filter (\<lambda>t. inserts t \<noteq> None) ts)"

lemma in_inserted: "(pid, p) \<in> set (inserted ts) \<longleftrightarrow> (\<exists>t \<in> set ts. thread_key t = pid \<and> inserts t = Some p)"
  by (force simp: inserted_def)

lemma inserted_cong:
  "map thread_key ts = map thread_key us \<Longrightarrow> map inserts ts = map inserts us \<Longrightarrow> inserted ts = inserted us"
proof (induction ts arbitrary: us)
  case (Cons t ts)
  then show ?case by (cases us) (auto simp: inserted_def)
qed (simp add: inserted_def)

fun finished :: "map_thread \<Rightarrow> bool" where
  "finished (LookupDone pid path) \<longleftrightarrow> True"
| "finished (LookupMissed pid) \<longleftrightarrow> True"
| "finished (InsertDone pid p) \<longleftrightarrow> True"
| "finished t \<longleftrightarrow> False"

lemma finished_insert: "finished t \<Longrightarrow> inserts t = Some p \<Longrightarrow> t = InsertDone (thread_key t) p"
  by (cases t) simp_all

lemma race_inv_final:
  assumes inv: "race_inv m s" and "list_all finished (map_threads s)"
  shows "race_map s = m ++ map_of (inserted (map_threads s))"
proof
  fix pid
  have done_at: "race_map s pid = Some p" if "(pid, p) \<in> set (inserted (map_threads s))" for p
  proof -
    from that obtain t where t: "t \<in> set (map_threads s)" "thread_key t = pid" "inserts t = Some p"
      by (auto simp: in_inserted)
    then have "t = InsertDone pid p" using finished_insert assms(2) by (auto simp: list_all_iff)
    moreover have "thread_ok m s t" using inv t(1) by (simp add: race_inv_def)
    ultimately show ?thesis by (simp add: thread_ok_def)
  qed
  show "race_map s pid = (m ++ map_of (inserted (map_threads s))) pid"
  proof (cases "map_of (inserted (map_threads s)) pid")
    case None
    then have no: "(pid, p) \<notin> set (inserted (map_threads s))" for p
      by (auto simp: map_of_eq_None_iff intro: rev_image_eqI)
    have "\<forall>t \<in> set (map_threads s). thread_key t = pid \<longrightarrow> inserts t = None"
      using no unfolding in_inserted by (metis option.exhaust)
    then show ?thesis using inv None by (simp add: race_inv_def map_add_def)
  next
    case (Some p)
    then show ?thesis using done_at [OF map_of_SomeD [OF Some]] by (simp add: map_add_def)
  qed
qed

text \<open>Threads that are not apart can be scheduled so that an iterator is used after its entry is gone.\<close>

lemma race_goes_wrong:
  assumes i: "i < length (map_threads s)" and j: "j < length (map_threads s)" "i \<noteq> j"
    and ti: "begins (map_threads s ! i)" and tj: "map_threads s ! j = InsertFind pid p"
    and key: "thread_key (map_threads s ! i) = pid"
    and n: "map_ids s pid = Some n" "map_nodes s n = Some (pid, q)"
  shows "race_run [i, j, j, i] s = Inl DANGLING_ITERATOR"
proof -
  have "race_run [j, j, i] (at_place i t s) = Inl DANGLING_ITERATOR" if "iterator t = Some n" for t
    using that i j tj n
    by (cases t) (auto simp: race_step_def insert_find_def insert_erase_def lookup_read_def at_place_def nth_list_update)
  then show ?thesis
    using i ti key n by (cases "map_threads s ! i") (auto simp: race_step_def lookup_find_def insert_find_def)
qed

end
