(* ===== verification/BrowserWindow.thy ===== *)
theory BrowserWindow
  imports BrowserVisit
begin

text \<open>
  How an instance of the bulk plug-in finds the window of the browser it has started, and how it
  asks windows to close (\<open>executeProcess\<close>, \<open>isOpen\<close>, \<open>setCurrentWebBrowserIF\<close>, \<open>Close\<close> and
  \<open>EnumWindowsCloseProc\<close> of \<open>InternetExplorerInstanceBulk.cpp\<close>; the windows are closed the same
  way in \<open>ProcessHandler.cpp\<close> and in the two \<open>Application_InternetExplorer\<close> files).
\<close>

subsection \<open>Interfaces and windows\<close>

text \<open>
  A window of the shell at one moment: asking for it may throw; its browser interface, by the
  address of the object, if it has one; and the process of its window.
\<close>

record shell_window =
  item_throws :: bool
  sw_browser :: "nat option"
  sw_process :: u32

text \<open>
  The references this thread holds to browser objects, how often it has entered the COM library
  without leaving it, and \<open>pInternetExplorer\<close>.
\<close>

record com_state =
  browser_refs :: "nat \<Rightarrow> nat"
  com_entered :: nat
  held_browser :: "nat option"

definition AddRef :: "nat \<Rightarrow> com_state \<Rightarrow> com_state" where
  "AddRef b c = c\<lparr>browser_refs := (browser_refs c)(b := Suc (browser_refs c b))\<rparr>"

definition ReleaseRef :: "nat \<Rightarrow> com_state \<Rightarrow> com_state" where
  "ReleaseRef b c = c\<lparr>browser_refs := (browser_refs c)(b := browser_refs c b - 1)\<rparr>"

text \<open>The loop over the windows; an exception of the library ends it.\<close>

fun search_windows :: "u32 \<Rightarrow> shell_window list \<Rightarrow> com_state \<Rightarrow> bool \<times> com_state" where
  "search_windows pid [] c = (False, c)"
| "search_windows pid (w # ws) c =
     (if item_throws w then (False, c)
      else case sw_browser w of
        None \<Rightarrow> search_windows pid ws c
      | Some b \<Rightarrow>
          if sw_process w = pid then (True, (AddRef b c)\<lparr>held_browser := Some b\<rparr>)
          else search_windows pid ws (ReleaseRef b (AddRef b c)))"

text \<open>
  \<open>made\<close>: the list of the windows could be made. If not, the function returns without leaving
  the library. A failing \<open>GetCount\<close> is a first window that throws.
\<close>

definition setCurrentWebBrowserIF :: "u32 \<Rightarrow> bool \<Rightarrow> shell_window list \<Rightarrow> com_state \<Rightarrow> bool \<times> com_state" where
  "setCurrentWebBrowserIF pid made ws c =
     (let c1 = c\<lparr>com_entered := Suc (com_entered c)\<rparr>
      in if \<not> made then (False, c1)
         else let (found, c2) = search_windows pid ws c1
              in (found, c2\<lparr>com_entered := com_entered c2 - 1\<rparr>))"

subsection \<open>Waiting for the browser\<close>

text \<open>What is there at every poll.\<close>

record window_env =
  we_processes :: "nat \<Rightarrow> AppProcess.process_list"
  we_made :: "nat \<Rightarrow> bool"
  we_windows :: "nat \<Rightarrow> shell_window list"

definition browser_isOpen :: "window_env \<Rightarrow> u32 \<Rightarrow> nat \<Rightarrow> com_state \<Rightarrow> client_error + (bool \<times> com_state)" where
  "browser_isOpen env own w c =
     (if \<not> enum_ok (we_processes env w) then Inr (False, c)
      else each_process
        (\<lambda>pid (is_open, c).
           if pid = own
           then let (found, c1) = setCurrentWebBrowserIF own (we_made env w) (we_windows env w) c
                in (if found \<and> held_browser c1 \<noteq> None then True else is_open, c1)
           else (is_open, c))
        (aProcesses (we_processes env w)) (process_count (we_processes env w)) 0 (False, c))"

function open_loop :: "nat \<Rightarrow> window_env \<Rightarrow> u32 \<Rightarrow> nat \<Rightarrow> com_state \<Rightarrow> client_error + (nat \<times> com_state)" where
  "open_loop limit env own w c =
     and_then (browser_isOpen env own w c) (\<lambda>(is_open, c1).
     if \<not> is_open \<and> w < limit then open_loop limit env own (Suc w) c1 else Inr (w, c1))"
  by pat_completeness auto
termination by (relation "measure (\<lambda>(limit, env, own, w, c). limit - w)") auto

declare open_loop.simps [simp del]

definition window_executeProcess ::
    "window_env \<Rightarrow> u32 + u32 \<Rightarrow> com_state \<Rightarrow> client_error + (u32 \<times> u32 option \<times> com_state)" where
  "window_executeProcess env created c =
     (case created of
        Inl e \<Rightarrow> Inr (e, None, c)
      | Inr pid \<Rightarrow>
          and_then (open_loop 200 env pid 0 c) (\<lambda>(w, c1). Inr (if 200 \<le> w then -5 else 0, Some pid, c1)))"

subsection \<open>Asking windows to close\<close>

record top_window =
  tw_visible :: bool
  tw_process :: u32

text \<open>The windows that get the message, by their place in the enumeration, which always goes on.\<close>

definition EnumWindowsCloseProc :: "u32 \<Rightarrow> top_window \<Rightarrow> bool" where
  "EnumWindowsCloseProc processId w \<longleftrightarrow> tw_visible w \<and> tw_process w = processId"

fun EnumWindows :: "(top_window \<Rightarrow> bool) \<Rightarrow> nat \<Rightarrow> top_window list \<Rightarrow> nat list" where
  "EnumWindows callback i [] = []"
| "EnumWindows callback i (w # ws) = (if callback w then [i] else []) @ EnumWindows callback (Suc i) ws"

text \<open>\<open>Close\<close>: the windows, and whether the process could be ended.\<close>

definition browser_Close :: "u32 \<Rightarrow> top_window list \<Rightarrow> bool \<Rightarrow> nat list \<times> bool" where
  "browser_Close pid ws terminated = (EnumWindows (EnumWindowsCloseProc pid) 0 ws, terminated)"

lemma EnumWindows_exact: "EnumWindows f n ws = map ((+) n) (filter (\<lambda>i. f (ws ! i)) [0..<length ws])"
proof (induction ws arbitrary: n)
  case (Cons w ws)
  have "[0..<length (w # ws)] = 0 # map Suc [0..<length ws]" by (simp add: map_Suc_upt upt_conv_Cons del: upt_Suc)
  then show ?case using Cons by (simp add: filter_map comp_def del: upt_Suc)
qed simp

subsection \<open>References are balanced\<close>

lemma ReleaseRef_AddRef [simp]: "ReleaseRef b (AddRef b c) = c"
  by (simp add: AddRef_def ReleaseRef_def)

text \<open>The first window of the process that is reached, if any.\<close>

fun own_window :: "u32 \<Rightarrow> shell_window list \<Rightarrow> nat option" where
  "own_window pid [] = None"
| "own_window pid (w # ws) =
     (if item_throws w then None
      else if sw_browser w \<noteq> None \<and> sw_process w = pid then sw_browser w else own_window pid ws)"

text \<open>Whatever is looked at is given back, but for the browser that is kept.\<close>

lemma search_windows_result:
  "search_windows pid ws c =
     (case own_window pid ws of
        None \<Rightarrow> (False, c) | Some b \<Rightarrow> (True, (AddRef b c)\<lparr>held_browser := Some b\<rparr>))"
  by (induction ws) (auto split: option.splits)

definition keep_browser :: "nat option \<Rightarrow> com_state \<Rightarrow> com_state" where
  "keep_browser r c = (case r of None \<Rightarrow> c | Some b \<Rightarrow> (AddRef b c)\<lparr>held_browser := Some b\<rparr>)"

lemma setCurrentWebBrowserIF_result:
  "setCurrentWebBrowserIF pid made ws c =
     (if made then (own_window pid ws \<noteq> None, keep_browser (own_window pid ws) c)
      else (False, c\<lparr>com_entered := Suc (com_entered c)\<rparr>))"
  by (auto simp: setCurrentWebBrowserIF_def search_windows_result keep_browser_def AddRef_def split: option.splits)

text \<open>
  A poll sees the process once, as an enumeration lists it: the browser is open when the process
  is there and a window of it is reached.
\<close>

definition seen :: "window_env \<Rightarrow> u32 \<Rightarrow> nat \<Rightarrow> bool" where
  "seen env own w \<longleftrightarrow>
     enum_ok (we_processes env w) \<and> own \<noteq> 0 \<and>
     own \<in> set (take (process_count (we_processes env w)) (aProcesses (we_processes env w)))"

definition poll_browser :: "window_env \<Rightarrow> u32 \<Rightarrow> nat \<Rightarrow> nat option" where
  "poll_browser env own w = (if seen env own w \<and> we_made env w then own_window own (we_windows env w) else None)"

definition poll_ok :: "window_env \<Rightarrow> nat \<Rightarrow> bool" where
  "poll_ok env w \<longleftrightarrow>
     process_count (we_processes env w) \<le> length (aProcesses (we_processes env w)) \<and>
     distinct (take (process_count (we_processes env w)) (aProcesses (we_processes env w)))"

lemma fold_once:
  assumes "distinct ps" and "\<And>p a. p \<noteq> own \<Longrightarrow> f p a = a"
  shows "fold f ps a = (if own \<in> set ps then f own a else a)"
proof -
  have none: "fold f qs b = b" if "own \<notin> set qs" for qs b
    using that assms(2) by (induction qs arbitrary: b) auto
  show ?thesis
    using assms(1)
  proof (induction ps arbitrary: a)
    case (Cons p ps)
    then show ?case using assms(2) none by (cases "p = own") auto
  qed simp
qed

lemma browser_isOpen_result:
  assumes "poll_ok env w"
  shows "browser_isOpen env own w c = Inr (poll_browser env own w \<noteq> None,
     if seen env own w \<and> \<not> we_made env w then c\<lparr>com_entered := Suc (com_entered c)\<rparr>
     else keep_browser (poll_browser env own w) c)"
proof (cases "enum_ok (we_processes env w)")
  case False
  then show ?thesis by (simp add: browser_isOpen_def seen_def poll_browser_def keep_browser_def)
next
  case True
  let ?ps = "take (process_count (we_processes env w)) (aProcesses (we_processes env w))"
  let ?f = "\<lambda>pid (is_open, c).
      if pid = own
      then let (found, c1) = setCurrentWebBrowserIF own (we_made env w) (we_windows env w) c
           in (if found \<and> held_browser c1 \<noteq> None then True else is_open, c1)
      else (is_open, c)"
  have d: "distinct (filter (\<lambda>p. p \<noteq> 0) ?ps)" using assms by (simp add: poll_ok_def)
  have "browser_isOpen env own w c = Inr (fold ?f (filter (\<lambda>p. p \<noteq> 0) ?ps) (False, c))"
    using True assms by (simp add: browser_isOpen_def poll_ok_def each_process_fold)
  also have "fold ?f (filter (\<lambda>p. p \<noteq> 0) ?ps) (False, c) =
      (if own \<in> set (filter (\<lambda>p. p \<noteq> 0) ?ps) then ?f own (False, c) else (False, c))"
    by (rule fold_once [OF d]) auto
  also have "\<dots> = (poll_browser env own w \<noteq> None,
     if seen env own w \<and> \<not> we_made env w then c\<lparr>com_entered := Suc (com_entered c)\<rparr>
     else keep_browser (poll_browser env own w) c)"
    using True by (auto simp: seen_def poll_browser_def setCurrentWebBrowserIF_result keep_browser_def split: option.splits)
  finally show ?thesis .
qed

text \<open>
  The polls before the browser is found leave everything as it was, except that a list of windows
  that could not be made leaves the library entered once more.
\<close>

definition failed_polls :: "window_env \<Rightarrow> u32 \<Rightarrow> nat \<Rightarrow> nat \<Rightarrow> nat" where
  "failed_polls env own from end_poll =
     length (filter (\<lambda>w. seen env own w \<and> \<not> we_made env w) [from..<Suc end_poll])"

definition enter_more :: "nat \<Rightarrow> com_state \<Rightarrow> com_state" where
  "enter_more n c = c\<lparr>com_entered := com_entered c + n\<rparr>"

lemma keep_enter [simp]: "keep_browser r (enter_more n c) = enter_more n (keep_browser r c)"
  by (simp add: keep_browser_def enter_more_def AddRef_def split: option.splits)

lemma enter_enter [simp]: "enter_more a (enter_more b c) = enter_more (a + b) c"
  by (simp add: enter_more_def)

lemma open_loop_result:
  assumes "\<And>w. poll_ok env w" and "from \<le> limit"
  shows "\<exists>w. open_loop limit env own from c =
      Inr (w, enter_more (failed_polls env own from w) (keep_browser (poll_browser env own w) c)) \<and>
    from \<le> w \<and> w \<le> limit \<and> wait_for limit True (\<lambda>w. Inr (poll_browser env own w \<noteq> None)) from = Inr w"
  using assms(2)
proof (induction "limit - from" arbitrary: "from" c)
  case (0 "from")
  then have "from = limit" by simp
  then show ?case
    by (intro exI [of _ limit])
      (auto simp: open_loop.simps wait_for.simps browser_isOpen_result [OF assms(1)] failed_polls_def
        enter_more_def keep_browser_def poll_browser_def)
next
  case (Suc n)
  show ?case
  proof (cases "poll_browser env own from")
    case None
    let ?c = "enter_more (failed_polls env own from from) c"
    have one: "browser_isOpen env own from c = Inr (False, ?c)"
      using None by (simp add: browser_isOpen_result [OF assms(1)] failed_polls_def enter_more_def keep_browser_def)
    obtain w where w: "open_loop limit env own (Suc from) ?c =
        Inr (w, enter_more (failed_polls env own (Suc from) w) (keep_browser (poll_browser env own w) ?c))"
      "Suc from \<le> w" "w \<le> limit"
      "wait_for limit True (\<lambda>w. Inr (poll_browser env own w \<noteq> None)) (Suc from) = Inr w"
      using Suc.hyps(1) [of "Suc from" ?c] Suc.hyps(2) Suc.prems by fastforce
    have f: "failed_polls env own (Suc from) w + failed_polls env own from from = failed_polls env own from w"
      using w(2) by (simp add: failed_polls_def upt_conv_Cons del: upt_Suc)
    have "enter_more (failed_polls env own (Suc from) w) (keep_browser (poll_browser env own w) ?c) =
        enter_more (failed_polls env own from w) (keep_browser (poll_browser env own w) c)"
      unfolding f [symmetric] by simp
    then show ?thesis
      using w one None Suc.hyps(2) by (intro exI [of _ w]) (simp add: open_loop.simps [of limit env own "from"] wait_for.simps [of limit True _ "from"])
  next
    case (Some b)
    then have m: "we_made env from" by (auto simp: poll_browser_def split: if_split_asm)
    then have "failed_polls env own from from = 0" by (simp add: failed_polls_def)
    then show ?thesis
      using Some Suc.prems by (intro exI [of _ "from"])
        (auto simp: open_loop.simps [of limit env own "from"] wait_for.simps [of limit True _ "from"]
          browser_isOpen_result [OF assms(1)] enter_more_def m)
  qed
qed

end
