(* ===== verification/RaceClaims.thy ===== *)
theory RaceClaims
  imports ProcessMapRace BrowserWindow
begin

text \<open>
  What holds when threads are interleaved: the map of processes that the monitors share without
  a lock. And how a browser is found and waited for.
\<close>

subsection \<open>The map of processes\<close>







subsection \<open>The window of a browser\<close>






end
