(* ===== verification/PoolLife.thy ===== *)
theory PoolLife
  imports BrowserPool
begin

text \<open>
  The beginning and the end of a pool of browser threads: the constructor and the destructor of
  \<open>Application_InternetExplorerBulk.cpp\<close> (\<open>Application_InternetExplorer.cpp\<close> has the same two). The
  arrays are those of the file, whatever was in them; handles are numbers that are given out once.
\<close>

record pool_handles =
  ph_pool :: pool
  data_handle :: "nat \<Rightarrow> nat"
  finished_handle :: "nat \<Rightarrow> nat"
  thread_handle :: "nat \<Rightarrow> nat"
  open_handles :: "nat list"
  next_handle :: nat

definition CloseHandle :: "nat \<Rightarrow> pool_handles \<Rightarrow> pool_handles" where
  "CloseHandle h s = s\<lparr>open_handles := removeAll h (open_handles s)\<rparr>"

text \<open>One turn of the constructor's loop: two events that are not set and a thread that waits.\<close>

definition construct_worker :: "nat \<Rightarrow> pool_handles \<Rightarrow> pool_handles" where
  "construct_worker i s =
     (let h = next_handle s; p = ph_pool s
      in s\<lparr>ph_pool := p\<lparr>worker_thread_busy := (worker_thread_busy p)(i := False),
               worker_thread_data := (worker_thread_data p)(i := None),
               worker_has_data := (worker_has_data p)(i := False),
               worker_finished := (worker_finished p)(i := False),
               worker_at := (worker_at p)(i := WaitsForData)\<rparr>,
           data_handle := (data_handle s)(i := h), finished_handle := (finished_handle s)(i := h + 1),
           thread_handle := (thread_handle s)(i := h + 2),
           open_handles := [h, h + 1, h + 2] @ open_handles s, next_handle := h + 3\<rparr>)"

definition construct_pool :: "pool_handles \<Rightarrow> pool_handles" where
  "construct_pool s = fold construct_worker [0..<MAX_WORKER_THREADS] s"

text \<open>The threads are neither told to end nor waited for.\<close>

definition destruct_worker :: "nat \<Rightarrow> pool_handles \<Rightarrow> pool_handles" where
  "destruct_worker i s =
     CloseHandle (thread_handle s i) (CloseHandle (finished_handle s i) (CloseHandle (data_handle s i) s))"

definition destruct_pool :: "pool_handles \<Rightarrow> pool_handles" where
  "destruct_pool s = fold destruct_worker [0..<MAX_WORKER_THREADS] s"

text \<open>
  A worker does not look at the result of its wait: a handle that is closed ends the wait as an
  event does, and the worker goes on with the pointer it finds.
\<close>

definition worker_wakes :: "nat \<Rightarrow> pool_handles \<Rightarrow> worker_place option" where
  "worker_wakes i s =
     (if worker_at (ph_pool s) i = WaitsForData \<and>
         (worker_has_data (ph_pool s) i \<or> data_handle s i \<notin> set (open_handles s))
      then Some (case worker_thread_data (ph_pool s) i of Some k \<Rightarrow> Opening k | None \<Rightarrow> WaitsForData)
      else None)"

subsection \<open>The beginning\<close>

definition own_handles :: "nat \<Rightarrow> pool_handles \<Rightarrow> nat set" where
  "own_handles n s = data_handle s ` {..<n} \<union> finished_handle s ` {..<n} \<union> thread_handle s ` {..<n}"

text \<open>
  After \<open>n\<close> turns the first \<open>n\<close> workers are as in a new pool, and their handles are the next
  \<open>3 * n\<close> numbers.
\<close>

lemma construct_prefix:
  assumes "s' = fold construct_worker [0..<n] s"
  shows "next_handle s' = next_handle s + 3 * n \<and>
    set (open_handles s') = {next_handle s..<next_handle s + 3 * n} \<union> set (open_handles s) \<and>
    (\<forall>i < n. \<not> worker_thread_busy (ph_pool s') i \<and> \<not> worker_has_data (ph_pool s') i \<and>
       \<not> worker_finished (ph_pool s') i \<and> worker_at (ph_pool s') i = WaitsForData \<and>
       worker_thread_data (ph_pool s') i = None \<and>
       data_handle s' i = next_handle s + 3 * i \<and> finished_handle s' i = next_handle s + 3 * i + 1 \<and>
       thread_handle s' i = next_handle s + 3 * i + 2)"
  using assms
proof (induction n arbitrary: s')
  case (Suc n)
  let ?s = "fold construct_worker [0..<n] s"
  have s': "s' = construct_worker n ?s" using Suc.prems by simp
  show ?case
    using Suc.IH [OF refl] unfolding s' construct_worker_def Let_def by (auto simp: less_Suc_eq)
qed simp

lemma construct_pool_idle: "pool_idle (ph_pool (construct_pool s))"
  using construct_prefix [OF refl, of MAX_WORKER_THREADS s] by (simp add: pool_idle_def construct_pool_def)

lemma construct_pool_handles:
  "own_handles MAX_WORKER_THREADS (construct_pool s) = {next_handle s..<next_handle s + 180}"
  "set (open_handles (construct_pool s)) = {next_handle s..<next_handle s + 180} \<union> set (open_handles s)"
proof -
  note p = construct_prefix [OF refl, of MAX_WORKER_THREADS s, folded construct_pool_def]
  show "set (open_handles (construct_pool s)) = {next_handle s..<next_handle s + 180} \<union> set (open_handles s)"
    using p by (simp add: MAX_WORKER_THREADS_def)
  have "h \<in> own_handles MAX_WORKER_THREADS (construct_pool s)" if h: "next_handle s \<le> h" "h < next_handle s + 180" for h
  proof -
    obtain i r where ir: "h = next_handle s + 3 * i + r" "r < 3" "i < MAX_WORKER_THREADS"
    proof
      show "h = next_handle s + 3 * ((h - next_handle s) div 3) + (h - next_handle s) mod 3" using h by simp
    qed (use h in \<open>auto simp: MAX_WORKER_THREADS_def\<close>)
    then have "r = 0 \<or> r = 1 \<or> r = 2" by auto
    then show ?thesis using p ir unfolding own_handles_def by (auto 4 4 simp: image_iff)
  qed
  moreover have "next_handle s \<le> h \<and> h < next_handle s + 180"
    if "h \<in> own_handles MAX_WORKER_THREADS (construct_pool s)" for h
    using that p unfolding own_handles_def by (auto simp: MAX_WORKER_THREADS_def)
  ultimately show "own_handles MAX_WORKER_THREADS (construct_pool s) = {next_handle s..<next_handle s + 180}"
    by auto
qed

subsection \<open>The end\<close>

lemma destruct_prefix:
  assumes "s' = fold destruct_worker [0..<n] s"
  shows "set (open_handles s') = set (open_handles s) - own_handles n s \<and> ph_pool s' = ph_pool s \<and>
    data_handle s' = data_handle s \<and> finished_handle s' = finished_handle s \<and> thread_handle s' = thread_handle s"
  using assms
proof (induction n arbitrary: s')
  case (Suc n)
  then show ?case
    using Suc.IH [OF refl] by (auto simp: destruct_worker_def CloseHandle_def own_handles_def lessThan_Suc)
qed (simp add: own_handles_def)

text \<open>Every handle that was made is closed, and no other.\<close>

lemma pool_handles_balanced:
  assumes "\<forall>h \<in> set (open_handles s). h < next_handle s"
  shows "set (open_handles (destruct_pool (construct_pool s))) = set (open_handles s)"
  using destruct_prefix [OF refl, of MAX_WORKER_THREADS "construct_pool s"] construct_pool_handles [of s] assms
  unfolding destruct_pool_def by fastforce

text \<open>
  But the threads go on: one that waits wakes up, and if it has ever had an address it takes the
  pointer to it again, although the group it belongs to is deleted.
\<close>

lemma destructed_worker_wakes:
  assumes "i < MAX_WORKER_THREADS" and "worker_at (ph_pool s) i = WaitsForData"
  shows "worker_wakes i (destruct_pool s) =
    Some (case worker_thread_data (ph_pool s) i of Some k \<Rightarrow> Opening k | None \<Rightarrow> WaitsForData)"
  using destruct_prefix [OF refl, of MAX_WORKER_THREADS s] assms
  by (auto simp: worker_wakes_def destruct_pool_def own_handles_def)

end
