(* ===== verification/ServerExclusions.thy ===== *)
theory ServerExclusions
  imports ClientMonitor
begin

text \<open>
  Exclusions that come from the server: the loops of \<open>onFileExclusionReceived\<close>
  (\<open>FileMonitor.cpp\<close>), \<open>onRegistryExclusionReceived\<close> (\<open>RegistryMonitor.cpp\<close>) and
  \<open>onProcessExclusionReceived\<close> (\<open>ProcessMonitor.cpp\<close>) over the attributes of the element, with
  their chains of comparisons. They differ in the order of the comparisons only, so all three are
  \<open>onExclusionReceived\<close>: for every attribute the last value counts.
\<close>

text \<open>The local variables; the fields are named after the attributes.\<close>

record received =
  rx_excluded :: wstring
  rx_action :: wstring
  rx_subject :: wstring
  rx_object :: wstring

definition no_values :: received where
  "no_values = \<lparr>rx_excluded = [], rx_action = [], rx_subject = [], rx_object = []\<rparr>"

fun file_values :: "attribute_list \<Rightarrow> received \<Rightarrow> received" where
  "file_values [] r = r"
| "file_values ((n, v) # as) r =
     file_values as
       (if n = wide ''action'' then r\<lparr>rx_action := v\<rparr>
        else if n = wide ''object'' then r\<lparr>rx_object := v\<rparr>
        else if n = wide ''subject'' then r\<lparr>rx_subject := v\<rparr>
        else if n = wide ''excluded'' then r\<lparr>rx_excluded := v\<rparr>
        else r)"

fun registry_values :: "attribute_list \<Rightarrow> received \<Rightarrow> received" where
  "registry_values [] r = r"
| "registry_values ((n, v) # as) r =
     registry_values as
       (if n = wide ''action'' then r\<lparr>rx_action := v\<rparr>
        else if n = wide ''object'' then r\<lparr>rx_object := v\<rparr>
        else if n = wide ''subject'' then r\<lparr>rx_subject := v\<rparr>
        else if n = wide ''excluded'' then r\<lparr>rx_excluded := v\<rparr>
        else r)"

fun process_values :: "attribute_list \<Rightarrow> received \<Rightarrow> received" where
  "process_values [] r = r"
| "process_values ((n, v) # as) r =
     process_values as
       (if n = wide ''subject'' then r\<lparr>rx_subject := v\<rparr>
        else if n = wide ''object'' then r\<lparr>rx_object := v\<rparr>
        else if n = wide ''excluded'' then r\<lparr>rx_excluded := v\<rparr>
        else if n = wide ''action'' then r\<lparr>rx_action := v\<rparr>
        else r)"

definition onFileExclusionReceived ::
    "text_env \<Rightarrow> attribute_list \<Rightarrow> permission_map \<Rightarrow> client_error + permission_map" where
  "onFileExclusionReceived env as m =
     (let r = file_values as no_values
      in addExclusion env (rx_excluded r) (rx_action r) (rx_subject r) (rx_object r) False m)"

definition onRegistryExclusionReceived ::
    "text_env \<Rightarrow> attribute_list \<Rightarrow> permission_map \<Rightarrow> client_error + permission_map" where
  "onRegistryExclusionReceived env as m =
     (let r = registry_values as no_values
      in addExclusion env (rx_excluded r) (rx_action r) (rx_subject r) (rx_object r) False m)"

definition onProcessExclusionReceived ::
    "text_env \<Rightarrow> attribute_list \<Rightarrow> permission_map \<Rightarrow> client_error + permission_map" where
  "onProcessExclusionReceived env as m =
     (let r = process_values as no_values
      in addExclusion env (rx_excluded r) (rx_action r) (rx_subject r) (rx_object r) False m)"

text \<open>What a loop has read, with the values it started from.\<close>

definition last_value :: "wstring \<Rightarrow> attribute_list \<Rightarrow> wstring \<Rightarrow> wstring" where
  "last_value n as start = foldl (\<lambda>v (a, b). if a = n then b else v) start as"

lemma last_value_simps [simp]:
  "last_value n [] s = s" "last_value n ((a, b) # as) s = last_value n as (if a = n then b else s)"
  by (simp_all add: last_value_def)

lemma attribute_of_last: "attribute_of n as = last_value n as []"
  by (simp add: attribute_of_def last_value_def)

definition values_of :: "attribute_list \<Rightarrow> received \<Rightarrow> received" where
  "values_of as r = \<lparr>rx_excluded = last_value (wide ''excluded'') as (rx_excluded r),
     rx_action = last_value (wide ''action'') as (rx_action r),
     rx_subject = last_value (wide ''subject'') as (rx_subject r),
     rx_object = last_value (wide ''object'') as (rx_object r)\<rparr>"

text \<open>The four names differ, so the order of the comparisons does not matter.\<close>

lemma names_differ [simp]:
  "wide ''action'' \<noteq> wide ''object''" "wide ''action'' \<noteq> wide ''subject''" "wide ''action'' \<noteq> wide ''excluded''"
  "wide ''object'' \<noteq> wide ''subject''" "wide ''object'' \<noteq> wide ''excluded''" "wide ''subject'' \<noteq> wide ''excluded''"
  by (simp_all add: wide_def)

lemmas names_differ_sym [simp] = names_differ [symmetric]

lemma file_values_all: "file_values as r = values_of as r"
  by (induction as r rule: file_values.induct) (auto simp: values_of_def)

lemma registry_values_all: "registry_values as r = values_of as r"
  by (induction as r rule: registry_values.induct) (auto simp: values_of_def)

lemma process_values_all: "process_values as r = values_of as r"
  by (induction as r rule: process_values.induct) (auto simp: values_of_def)

lemma exclusions_received:
  "onFileExclusionReceived env as m = onExclusionReceived env as m"
  "onRegistryExclusionReceived env as m = onExclusionReceived env as m"
  "onProcessExclusionReceived env as m = onExclusionReceived env as m"
  by (simp_all add: onFileExclusionReceived_def onRegistryExclusionReceived_def onProcessExclusionReceived_def
      onExclusionReceived_def file_values_all registry_values_all process_values_all
      values_of_def attribute_of_last no_values_def Let_def)

end
