(* ===== verification/ReceiverThread.thy ===== *)
theory ReceiverThread
  imports ServerLink
begin

text \<open>
  The life of the thread that receives: \<open>start\<close>, \<open>stop\<close> and the tests of \<open>run\<close> of
  \<open>ServerReceive.cpp\<close>, with \<open>Thread.h\<close>. The thread of \<open>start\<close> and \<open>stop\<close> and the threads that
  were started are interleaved. What the received bytes become is \<open>receive_run\<close>.
  Then the constructor and the destructor of \<open>Server.cpp\<close>, and \<open>sendData\<close>, which nothing calls.
\<close>

subsection \<open>State\<close>

text \<open>A thread at the test of the outer and of the inner loop, in \<open>recv\<close>, and one that is gone.\<close>

datatype recv_place = OuterTest | InnerTest | InRecv | Ended

text \<open>
  The caller is between calls; in \<open>start\<close>, where the event of the new thread is not made yet, or
  is and \<open>running\<close> not set; or in \<open>stop\<close>, waiting.
\<close>

datatype starter_place = Between | MakesEvent | SetsRunning | WaitsForEnd

text \<open>
  \<open>stop_event\<close> is the event called \<open>ServerReceive\<close>, once it exists: as \<open>receiver\<close> is never
  deleted, nothing resets it. The thread object is that of the last thread.
\<close>

record receiver_life =
  rl_running :: bool
  rl_connected :: bool
  stop_event :: "bool option"
  rl_threads :: "recv_place list"
  starter_at :: starter_place
  received :: nat

definition new_receiver :: receiver_life where
  "new_receiver = \<lparr>rl_running = False, rl_connected = False, stop_event = None, rl_threads = [],
     starter_at = Between, received = 0\<rparr>"

subsection \<open>Starting and stopping\<close>

definition receive_start :: "receiver_life \<Rightarrow> receiver_life" where
  "receive_start s =
     (if \<not> rl_running s then s\<lparr>rl_threads := rl_threads s @ [OuterTest], starter_at := MakesEvent\<rparr> else s)"

definition receive_stop :: "receiver_life \<Rightarrow> receiver_life" where
  "receive_stop s =
     (if rl_running s then s\<lparr>stop_event := Some True, starter_at := WaitsForEnd\<rparr> else s\<lparr>rl_running := False\<rparr>)"

text \<open>The rest of the two. An event that exists is opened as it is; a wait may time out.\<close>

definition starter_step :: "bool \<Rightarrow> receiver_life \<Rightarrow> receiver_life option" where
  "starter_step timed_out s =
     (let n = length (rl_threads s) - 1
      in case starter_at s of
        Between \<Rightarrow> None
      | MakesEvent \<Rightarrow>
          Some (s\<lparr>stop_event := Some (case stop_event s of None \<Rightarrow> False | Some b \<Rightarrow> b), starter_at := SetsRunning\<rparr>)
      | SetsRunning \<Rightarrow> Some (s\<lparr>rl_running := True, starter_at := Between\<rparr>)
      | WaitsForEnd \<Rightarrow>
          if timed_out \<or> rl_threads s ! n = Ended
          then Some (s\<lparr>rl_threads := (rl_threads s)[n := Ended], rl_running := False, starter_at := Between\<rparr>)
          else None)"

subsection \<open>The thread\<close>

text \<open>
  Before the event is made the thread asks an uninitialised handle; \<open>garbage\<close> is what that
  answers.
\<close>

definition should_stop :: "bool \<Rightarrow> receiver_life \<Rightarrow> bool" where
  "should_stop garbage s = (if starter_at s = MakesEvent then garbage else stop_event s = Some True)"

text \<open>\<open>bytes\<close>: the result of \<open>recv\<close>. An error reconnects, which sets the flag whatever happens.\<close>

definition receiver_step :: "bool \<Rightarrow> int \<Rightarrow> nat \<Rightarrow> receiver_life \<Rightarrow> receiver_life" where
  "receiver_step garbage bytes i s =
     (case rl_threads s ! i of
        OuterTest \<Rightarrow>
          if \<not> should_stop garbage s \<and> rl_connected s then s\<lparr>rl_threads := (rl_threads s)[i := InnerTest]\<rparr>
          else s\<lparr>rl_threads := (rl_threads s)[i := Ended], rl_running := False\<rparr>
      | InnerTest \<Rightarrow> s\<lparr>rl_threads := (rl_threads s)[i := if should_stop garbage s then OuterTest else InRecv]\<rparr>
      | InRecv \<Rightarrow>
          if 2 < bytes then s\<lparr>rl_threads := (rl_threads s)[i := InnerTest], received := Suc (received s)\<rparr>
          else s\<lparr>rl_threads := (rl_threads s)[i := OuterTest], rl_connected := rl_connected s \<or> bytes < 0\<rparr>
      | Ended \<Rightarrow> s)"

inductive receiver_moves :: "receiver_life \<Rightarrow> receiver_life \<Rightarrow> bool" where
  starts: "starter_at s = Between \<Longrightarrow> receiver_moves s (receive_start s)"
| stops: "starter_at s = Between \<Longrightarrow> receiver_moves s (receive_stop s)"
| goes_on: "starter_step timed_out s = Some s' \<Longrightarrow> receiver_moves s s'"
| thread_moves: "i < length (rl_threads s) \<Longrightarrow> receiver_moves s (receiver_step garbage bytes i s)"
| connection: "receiver_moves s (s\<lparr>rl_connected := c\<rparr>)"

inductive receiver_reaches :: "receiver_life \<Rightarrow> receiver_life \<Rightarrow> bool" where
  reaches_refl: "receiver_reaches s s"
| reaches_step: "receiver_reaches s s' \<Longrightarrow> receiver_moves s' s'' \<Longrightarrow> receiver_reaches s s''"

subsection \<open>At most one thread\<close>

text \<open>
  All threads but the last are gone; between calls the last one is too, unless \<open>running\<close> is set.
  \<open>stop\<close> has a thread object to use, and its event exists.
\<close>

definition receiver_inv :: "receiver_life \<Rightarrow> bool" where
  "receiver_inv s \<longleftrightarrow>
     (\<forall>i < length (rl_threads s) - 1. rl_threads s ! i = Ended) \<and>
     (starter_at s = Between \<and> \<not> rl_running s \<longrightarrow> set (rl_threads s) \<subseteq> {Ended}) \<and>
     (starter_at s \<noteq> Between \<or> rl_running s \<longrightarrow> rl_threads s \<noteq> []) \<and>
     (starter_at s \<in> {MakesEvent, SetsRunning} \<longrightarrow> \<not> rl_running s) \<and>
     (rl_running s \<or> starter_at s \<in> {SetsRunning, WaitsForEnd} \<longrightarrow> stop_event s \<noteq> None)"

lemma new_receiver_inv: "receiver_inv new_receiver"
  by (simp add: receiver_inv_def new_receiver_def)

lemma ended_last:
  assumes "\<forall>i < length ts - 1. ts ! i = Ended"
  shows "set (ts[length ts - 1 := Ended]) \<subseteq> {Ended}"
proof
  fix t assume "t \<in> set (ts[length ts - 1 := Ended])"
  then obtain i where i: "i < length ts" "t = ts[length ts - 1 := Ended] ! i" by (auto simp: in_set_conv_nth)
  then have "i = length ts - 1 \<or> i < length ts - 1" by linarith
  then show "t \<in> {Ended}" using assms i by (auto simp: nth_list_update)
qed

lemma receiver_step_inv:
  assumes inv: "receiver_inv s" and i: "i < length (rl_threads s)"
  shows "receiver_inv (receiver_step garbage bytes i s)"
proof (cases "rl_threads s ! i = Ended")
  case True
  then show ?thesis using inv by (simp add: receiver_step_def)
next
  case False
  then have l: "i = length (rl_threads s) - 1" using inv i unfolding receiver_inv_def by (metis Suc_pred' less_Suc_eq list.size(3) length_greater_0_conv not_less_zero)
  have e: "set ((rl_threads s)[i := Ended]) \<subseteq> {Ended}"
    unfolding l by (rule ended_last) (use inv in \<open>simp add: receiver_inv_def\<close>)
  have r: "starter_at s = Between \<Longrightarrow> rl_running s"
    using inv False nth_mem [OF i] by (auto simp: receiver_inv_def)
  show ?thesis
    using inv l e r i
    by (cases "rl_threads s ! i") (auto simp: receiver_step_def receiver_inv_def nth_list_update)
qed

lemma receiver_moves_inv: "receiver_moves s s' \<Longrightarrow> receiver_inv s \<Longrightarrow> receiver_inv s'"
proof (induction rule: receiver_moves.induct)
  case (starts s)
  have "t = Ended" if "\<not> rl_running s" "t \<in> set (rl_threads s)" for t
    using starts that by (auto simp: receiver_inv_def)
  then show ?case
    using starts by (auto simp: receive_start_def receiver_inv_def nth_append)
next
  case (stops s)
  then show ?case by (auto simp: receive_stop_def receiver_inv_def)
next
  case (goes_on timed_out s s')
  have "set ((rl_threads s)[length (rl_threads s) - 1 := Ended]) \<subseteq> {Ended}"
    by (rule ended_last) (use goes_on in \<open>simp add: receiver_inv_def\<close>)
  then show ?case
    using goes_on
    by (auto simp: starter_step_def receiver_inv_def Let_def nth_list_update split: starter_place.splits option.splits if_split_asm)
next
  case (thread_moves i s garbage bytes)
  then show ?case using receiver_step_inv by blast
next
  case (connection s c)
  then show ?case by (simp add: receiver_inv_def)
qed

lemma receiver_reaches_inv: "receiver_reaches s s' \<Longrightarrow> receiver_inv s \<Longrightarrow> receiver_inv s'"
  by (induction rule: receiver_reaches.induct) (auto dest: receiver_moves_inv)

text \<open>However calls and threads are interleaved, one thread receives at most.\<close>

lemma one_receiver:
  assumes "receiver_reaches new_receiver s" and "i < length (rl_threads s)" and "rl_threads s ! i \<noteq> Ended"
  shows "i = length (rl_threads s) - 1"
  using receiver_reaches_inv [OF assms(1) new_receiver_inv] assms(2,3) unfolding receiver_inv_def
  by (metis Suc_pred' less_Suc_eq list.size(3) length_greater_0_conv not_less_zero)

subsection \<open>Stopping is for good\<close>

text \<open>
  Once the event is set it stays set, also for the threads of later calls of \<open>start\<close>: outside the
  short time in which such a call has not opened the event yet, at most the \<open>recv\<close> that is going
  on brings anything.
\<close>

definition pending :: "receiver_life \<Rightarrow> nat" where
  "pending s = received s + length (filter (\<lambda>t. t = InRecv) (rl_threads s))"

lemma pending_step:
  assumes "stop_event s = Some True" and "starter_at s \<noteq> MakesEvent" and "i < length (rl_threads s)"
  shows "pending (receiver_step garbage bytes i s) \<le> pending s"
proof -
  have upd: "length (filter (\<lambda>t. t = InRecv) ((rl_threads s)[i := p])) + (if rl_threads s ! i = InRecv then 1 else 0) =
      length (filter (\<lambda>t. t = InRecv) (rl_threads s)) + (if p = InRecv then 1 else 0)" for p
  proof -
    have "rl_threads s = take i (rl_threads s) @ rl_threads s ! i # drop (Suc i) (rl_threads s)"
      using assms(3) by (rule id_take_nth_drop)
    moreover have "(rl_threads s)[i := p] = take i (rl_threads s) @ p # drop (Suc i) (rl_threads s)"
      using assms(3) by (rule upd_conv_take_nth_drop)
    ultimately show ?thesis by (smt (verit) filter.simps(2) filter_append length_append list.size(4) add.commute add.left_commute add_0 One_nat_def)
  qed
  show ?thesis
    using assms upd [of OuterTest] upd [of InnerTest] upd [of Ended]
    by (cases "rl_threads s ! i") (auto simp: receiver_step_def should_stop_def pending_def)
qed

lemma stopped_for_good:
  assumes "receiver_moves s s'" and "stop_event s = Some True"
  shows "stop_event s' = Some True" and "starter_at s \<noteq> MakesEvent \<Longrightarrow> pending s' \<le> pending s"
proof -
  have "length (filter (\<lambda>t. t = InRecv) (ts[n := Ended])) \<le> length (filter (\<lambda>t. t = InRecv) ts)" for ts n
    by (induction ts arbitrary: n) (auto split: nat.splits)
  then show "stop_event s' = Some True" "starter_at s \<noteq> MakesEvent \<Longrightarrow> pending s' \<le> pending s"
    using assms
    by (auto elim!: receiver_moves.cases simp: receive_start_def receive_stop_def starter_step_def Let_def pending_step)
      (auto simp: receiver_step_def pending_def split: starter_place.splits recv_place.splits if_split_asm)
qed

subsection \<open>The connection from beginning to end\<close>

text \<open>The constructor and the destructor of \<open>Server.cpp\<close>, which ends the thread first.\<close>

definition new_server :: server where
  "new_server = \<lparr>connected = False, reconnecting = False, receiver_running = False, wire = [], told = []\<rparr>"

definition delete_server :: "server \<Rightarrow> server" where
  "delete_server s = disconnectFromServer (s\<lparr>receiver_running := False\<rparr>)"

text \<open>\<open>sendData\<close>: bytes as they are, without the lock of \<open>sendMessage\<close>; the first part is what is sent.\<close>

definition sendData :: "bool \<Rightarrow> u8 list \<Rightarrow> server \<Rightarrow> u8 list \<times> server" where
  "sendData ok data s =
     (if connected s then if ok then (data, s) else ([], setConnected False s) else ([], s))"

text \<open>
  Whatever is sent in between, the connection hears of its end exactly once: from the failure
  that ended it or from the destructor.
\<close>

definition sends :: "(bool \<times> u8 list) list \<Rightarrow> server \<Rightarrow> server" where
  "sends ds s = fold (\<lambda>(ok, data) s. snd (sendData ok data s)) ds s"

lemma sends_told:
  "told (sends ds s) = told s @ (if connected s \<and> \<not> connected (sends ds s) then [False] else []) \<and>
   (connected (sends ds s) \<longleftrightarrow> connected s \<and> list_all fst ds)"
proof (induction ds arbitrary: s)
  case (Cons d ds)
  obtain ok data where d: "d = (ok, data)" by (cases d)
  have "sends (d # ds) s = sends ds (snd (sendData ok data s))" by (simp add: sends_def d)
  then show ?case
    using Cons.IH [of "snd (sendData ok data s)"] by (auto simp: d sendData_def setConnected_def)
qed (simp add: sends_def)

lemma connection_ends_once:
  assumes "fst (connectToServer net start new_server)"
  shows "told (delete_server (sends ds (snd (connectToServer net start new_server)))) = [True, False]"
  using assms sends_told [of ds "snd (connectToServer net start new_server)"]
  by (auto simp: delete_server_def disconnectFromServer_def connectToServer_def new_server_def setConnected_def
      split: if_split_asm)

end
