(* ===== verification/Spec2Isabelle.thy ===== *)
theory Spec2Isabelle
  imports FileClaims RegistryClaims ProcessClaims Reporting MonitorClaims ServerClaims PluginClaims
    CaptureClaims LibraryClaims RaceClaims PoolLife ServerExclusions ReceiverThread
begin

text \<open>
  Capture-HPC, the client of a high interaction honeypot (\<open>src/Client\<close>): programs and URLs are
  opened on a machine whose processes, registry and files are watched by three kernel drivers;
  a client in user space collects what the drivers saw, leaves out what its exclusion lists
  allow, and reports the rest to a server. Anything reported makes a visit malicious.

  \<^bold>\<open>Drivers\<close> (\<open>KernelDrivers/CaptureKernelDrivers\<close>).
  The non-paged pool is explicit: \<open>Pool\<close> has blocks, addresses and a stream that says which
  allocations are served; a freed or unallocated block that is used is a bug check, the left
  side of the sum every operation returns. \<open>Prelude\<close> has the widths, the little-endian layout
  of structures and the composition of operations that can fail; \<open>UnicodeString\<close> the counted
  strings of the kernel; \<open>DeviceControl\<close> the codes of device requests.
  \<^item> \<open>CaptureFileMonitor.c\<close>: \<open>FileEvent\<close> (the structure both sides share), \<open>FilePaths\<close> (which
    name a request has), \<open>DeletedFileCopies\<close> (copying deleted files), \<open>FileMonitorDriver\<close> (the
    handlers), \<open>FileMonitorInvariant\<close> and \<open>FileMonitorHandlers\<close> (the invariant of pool, queue
    and pending contexts, one lemma per handler), \<open>FileMonitorSystem\<close> (calls in any order,
    reachable states), \<open>FilePathSearch\<close> (which path is reported), \<open>FileClaims\<close>.
  \<^item> \<open>CaptureRegistryMonitor.c\<close>: \<open>RegistryEvent\<close>, \<open>RegistryDriver\<close>, \<open>RegistryInvariant\<close>,
    \<open>RegistrySystem\<close>, \<open>RegistryClaims\<close>.
  \<^item> \<open>CaptureProcessMonitor.c\<close>: \<open>ProcessDriver\<close>, \<open>ProcessSystem\<close>, \<open>ProcessLink\<close> (the driver and
    the thread of the client as one step relation), \<open>ProcessClaims\<close>.
  \<^item> \<open>EventQueue\<close> and \<open>EventChannel\<close> are what the drivers have in common: draining a queue of
    packets into a buffer, against the longest prefix that fits, and repeated requests, in
    locales that each driver interprets; \<open>QueueOwner\<close> is the ownership of the queue.

  \<^bold>\<open>Monitors of the client.\<close>
  Where C++ has an exception, an access out of bounds, a pointer that is null, dangling or
  freed twice, the operation returns a \<open>client_error\<close> (\<open>WideText\<close>, with the searches in wide
  strings).
  \<^item> \<open>Permission.cpp\<close>, \<open>Monitor.cpp\<close>: \<open>ExclusionList\<close>; \<open>ExclusionClaims\<close> has what a whole list
    file means.
  \<^item> \<open>ProcessManager.cpp\<close> and the handler in \<open>ProcessMonitor.cpp\<close>: \<open>ProcessManager\<close>. The search
    for a path and the handler call each other; the handler is defined over the search it
    calls, and the locale \<open>path_lookup_laws\<close> carries the induction. \<open>ProcessMapRace\<close> takes a
    lookup and an insertion apart into their accesses to the map, which several threads share.
  \<^item> \<open>FileMonitor.cpp\<close>, \<open>RegistryMonitor.cpp\<close>, \<open>ProcessMonitor.cpp\<close>: \<open>ClientMonitor\<close> (what they
    share), \<open>EventLoop\<close> (the loop over a buffer, as a partial function), \<open>ClientFileMonitor\<close>,
    \<open>ClientRegistryMonitor\<close>, \<open>ClientProcessMonitor\<close>, \<open>Reporting\<close> (what one round signals),
    \<open>MonitorClaims\<close>. \<open>ServerExclusions\<close>: the exclusions they receive from the server.

  \<^bold>\<open>Towards the server.\<close>
  \<^item> \<open>CaptureGlobal.cpp\<close>: \<open>ClientTime\<close>, \<open>Base64\<close>; \<open>Url.cpp\<close>: \<open>UrlCodec\<close>.
  \<^item> \<open>Element.h\<close>, \<open>EventController.cpp\<close>, \<open>Server.cpp\<close> (escaping): \<open>XmlDocument\<close>; the rest of
    \<open>Server.cpp\<close> and \<open>ServerReceive.cpp\<close>: \<open>ServerLink\<close>; starting and stopping the thread that
    receives, and how long it does: \<open>ReceiverThread\<close>.
  \<^item> \<open>FileUploader.cpp\<close>, \<open>Updater.cpp\<close>: \<open>FileTransfer\<close>.
  \<^item> \<open>Url.cpp\<close>, \<open>VisitEvent.h\<close>, \<open>Visitor.cpp\<close>: \<open>Visiting\<close>.
  \<^item> \<open>OptionsManager.cpp\<close>, \<open>Logger.cpp\<close>, \<open>Analyzer.cpp\<close>: \<open>Analysis\<close>.
  \<^item> \<open>CaptureClient.cpp\<close>: \<open>ClientMain\<close>. \<open>ServerClaims\<close> has the properties of this side.

  \<^bold>\<open>Plug-ins and capture.\<close>
  \<^item> \<open>Application_InternetExplorerBulk.cpp\<close> and \<open>Application_InternetExplorer.cpp\<close> share their pool
    of threads: \<open>BrowserPool\<close> has the caller and the workers as interleaved steps and the
    invariant that accounts for every visit, \<open>BrowserPoolRuns\<close> which groups can hang and which
    always end, \<open>PoolLife\<close> the constructor and the destructor with their handles. The instances
    and the ends of the two \<open>visitGroup\<close> are \<open>BrowserVisit\<close>; how an instance finds its browser
    among the windows of the shell and asks windows to close is \<open>BrowserWindow\<close>. \<open>RaceClaims\<close> has
    the properties of this search and of the map of processes.
  \<^item> \<open>ProcessHandler.cpp\<close>, \<open>FileDownloader.cpp\<close>: \<open>AppProcess\<close>, with the loop that waits for a
    process; \<open>Application_ClientConfigManager.cpp\<close>: \<open>ConfigPlugin\<close>; \<open>Application_Safari.cpp\<close>:
    \<open>SafariPlugin\<close>. \<open>PluginClaims\<close> has the properties of the plug-ins.
  \<^item> \<open>ApplicationPlugin.h\<close>: \<open>PluginContract\<close>. What a plug-in keeps of a group is the locale
    \<open>application_plugin\<close>, interpreted for every plug-in; the reports of the visitor are proved in
    it. Loading and unloading the libraries (\<open>Visitor.cpp\<close>, \<open>PluginExports.h\<close>) with their objects on
    a heap: \<open>PluginLibraries\<close>. \<open>Observable.h\<close>: \<open>Observers\<close>. \<open>LibraryClaims\<close> has the properties.
  \<^item> Privileges, the directory of old logs (\<open>CaptureClient.cpp\<close>), the version of the sockets, opening
    the drivers in the constructors of the monitors, the bytes of a line of the log: \<open>ClientStartup\<close>.
  \<^item> \<open>NetworkAdapter.cpp\<close>, \<open>NetworkPacketDumper.cpp\<close>: \<open>NetworkCapture\<close>; \<open>Thread.h\<close>, the calls that
    start and stop a monitor, and the installation of a driver (\<open>Monitor.cpp\<close>): \<open>MonitorThread\<close>;
    \<open>CaptureClaims\<close> has the properties of both.

  This theory composes a driver and its monitor: one request of the monitor, the loop over the
  answer, and the signals to the analyzer.

  \<^bold>\<open>What is shown.\<close> For each driver: no reachable state leads to a bug check (for the registry
  driver as long as allocations are served), every live block has exactly one owner, a queued
  event says what it should, requests deliver the queue in order and completely, and what
  happens where the code does not check or release. For the client: the decision of the
  exclusion lists against a specification without order; termination of the search for
  process paths; the signals of a round as a function of the events in the driver; round trips
  of base 64, URLs, documents and requests; the framing of the stream; the parts of an upload;
  the queue of visits; the verdict on a visit; the life of the network dumper. For the plug-ins:
  a group of addresses is visited exactly once, can always be completed up to sixty addresses
  and may hang beyond; the codes of an address and of a group; what the configuration file
  defines; the home page of Safari; the reports of a visit carry the same group and addresses
  whichever plug-in ran; libraries and their objects are released once; the search for the window
  of a browser refines what a visit takes it for, with the references it leaves. For threads:
  what holds when calls wait for the first step of a thread, and what goes wrong when they do
  not; which threads may share the map of processes, and that those act as if one came after the
  other; one thread receives at most, and stopping it is for good.

  \<^bold>\<open>Bounds and fuel.\<close> Integers have the width of the source where they wrap: sizes, times and
  counters of the drivers are words of 32 bits, lengths of kernel strings of 16. Buffers are
  those of the client: 327680 bytes for files and the registry, 2080 for processes. The fuel of
  \<open>getProcessPath\<close> counts the chain of parents; \<open>2 ^ 32 + 1\<close> is always enough, since each step
  puts an identifier into the map. The loop over a buffer has no fuel: it is a partial
  function, and \<open>EventLoop\<close> shows that it returns on everything a driver delivers. The loops that
  wait for a process count tenths of a second up to their limit (200, 300, 600); adding 0.1 in
  floating point reaches 20, 30 and 60 after just as many rounds.

  \<^bold>\<open>Parameters.\<close> What is not in the repository is an argument: the filter manager, the object
  manager, the registry and the file system answer through records (\<open>fs_env\<close>, the requests,
  the load environments), Windows through \<open>proc_env\<close>, \<open>client_env\<close> and \<open>analyzer_env\<close>, the
  regular expressions and the case table through \<open>text_env\<close>, the network through \<open>network\<close>,
  the plug-ins through \<open>plugin\<close>, browsers, downloads and processes through \<open>ie_env\<close>, \<open>window_env\<close>, \<open>visit_env\<close>,
  \<open>safari_env\<close> and \<open>process_list\<close>, the packet capture library through \<open>winpcap\<close>, the files of
  libraries through \<open>library_file\<close>, the token of the process through \<open>token_env\<close>. Conversions of
  numbers to text and back are the documented ones (decimal digits, a sign, no blanks). Maps that the source hashes are association lists; where
  the order of a walk matters it is an argument or the order of insertion. The parser of
  documents is left outside: \<open>sax_events\<close> is the sequence of calls a document gives rise to.

  \<^bold>\<open>Not modelled.\<close> Handlers of a driver are atomic, so races between them are left out, as is
  the race of two threads over the queue of visits; accesses to the map of processes are atomic
  one by one. The connection to the events of a browser is left to the parameters; the order of
  hash maps too. Naming threads, output for debugging, the remaining destructors, the test of
  plug-ins (\<open>PluginTest.cpp\<close>, which is run by hand) and the dialog resources (\<open>resource.h\<close>) are
  left out. The server is written in Java.
\<close>

subsection \<open>Driver and client together\<close>

text \<open>
  C4. One round of the file monitor. From a driver with the queue \<open>q\<close>, the client gets the
  longest prefix that fits its buffer, and for every event of it, in order, the analyzer is
  signalled just when the event has a name, its path is known and the lists do not allow it,
  with the path of the process the client knows; the rest stays queued.
\<close>

theorem file_round_reports:
  fixes s :: client_file_monitor
  assumes d: "holds_file_events d q" and t: "\<forall>e \<in> set q. 0 \<in> set (filePath e) \<and> file_ready s e"
    and dr: "drain_events file_weight (unat EVENTS_BUFFER_SIZE) q = (served, later)" and st: "\<not> stopping s"
  shows "\<exists>s' wait d'. file_monitor_round (getProcessPath penv m (Suc n)) env now d s =
      Inr (Some (Inr s'), wait, d') \<and>
    events s' = events s @ concat (map (file_reports env s) served) \<and>
    holds_file_events d' later \<and> wait \<in> {5, 50}"
proof -
  have "\<forall>e \<in> set served. file_ready s e" using t drain_events_split [OF dr] by auto
  with files.handle_events_reports [of served s] st obtain s' where
    "handle_events (\<lambda>e. report_file_event (getProcessPath penv m (Suc n)) env e (c_str (filePath e)))
        stopping served s = Inr s'"
    "events s' = events s @ concat (map (file_reports env s) served)" by blast
  moreover have "\<forall>e \<in> set q. 0 \<in> set (filePath e)" using t by blast
  ultimately show ?thesis
    using file_monitor_round_delivers [OF d _ dr, of "getProcessPath penv m (Suc n)" env now s]
    by (auto simp del: getProcessPath.simps)
qed

definition procs0 :: proc_state where
  "procs0 = \<lparr>processMap = [17 \<mapsto> [0x70]], cacheHits = 0, cacheMisses = 0, cacheFailures = 0,
     monitor_set = True, arrivals = [], signalled = []\<rparr>"

definition file_monitor0 :: client_file_monitor where
  "file_monitor0 = \<lparr>permissionMap = [], procs = procs0, events = [], stopping = False,
     dosNameMap = [], modifiedFiles = [], monitorModifiedFiles = False\<rparr>"

definition client_env0 :: client_env where
  "client_env0 = proc_env.extend proc_env0 \<lparr>is_directory = \<lambda>p. False\<rparr>"

theorem file_round_reports_witness:
  "\<exists>s' wait d'. file_monitor_round (getProcessPath proc_env0 [] (Suc 3)) client_env0 120 queued0 file_monitor0 =
      Inr (Some (Inr s'), wait, d') \<and>
    events s' = events file_monitor0 @ concat (map (file_reports client_env0 file_monitor0) [event0]) \<and>
    holds_file_events d' [] \<and> wait \<in> {5, 50}"
proof (rule file_round_reports)
  show "holds_file_events queued0 [event0]" using queued0_inv by (auto simp: holds_file_events_def)
  have "file_weight event0 \<le> 327680" by (simp add: file_event_size_def event0_def sizeof_FILE_EVENT_def)
  then show "drain_events file_weight (unat EVENTS_BUFFER_SIZE) [event0] = ([event0], [])"
    by (simp add: EVENTS_BUFFER_SIZE_def)
qed (simp_all add: event0_def file_ready_def file_monitor0_def procs0_def process_path_def)

text \<open>
  C9. One round of the registry monitor. From a driver with the queue \<open>q\<close>, the client gets the
  longest prefix that fits its buffer, and for every event of it, in order, the analyzer is
  signalled just when the lists do not allow it, with the name of the hive in place of the
  object name; the rest stays queued.
\<close>

theorem registry_round_reports:
  fixes s :: client_registry_monitor
  assumes d: "holds_registry_events d q" and t: "\<forall>e \<in> set q. registry_ready s e"
    and dr: "drain_events registry_weight (unat EVENTS_BUFFER_SIZE) q = (served, later)" and st: "\<not> stopping s"
  shows "\<exists>s' wait d'. registry_monitor_round (getProcessPath penv m (Suc n)) env now d s =
      Inr (Some (Inr s'), wait, d') \<and>
    events s' = events s @ concat (map (registry_reports env s) served) \<and>
    holds_registry_events d' later \<and> wait \<in> {5, 65}"
proof -
  have "\<forall>e \<in> set served. registry_ready s e" using t drain_events_split [OF dr] by auto
  with keys.handle_events_reports [of served s] st obtain s' where
    "handle_events (report_registry_event (getProcessPath penv m (Suc n)) env) stopping served s = Inr s'"
    "events s' = events s @ concat (map (registry_reports env s) served)" by blast
  then show ?thesis
    using registry_monitor_round_delivers [OF d dr, of "getProcessPath penv m (Suc n)" env now s]
    by (auto simp del: getProcessPath.simps)
qed

definition registry_monitor0 :: client_registry_monitor where
  "registry_monitor0 = \<lparr>permissionMap = [], procs = procs0, events = [], stopping = False, objectNameMap = []\<rparr>"

theorem registry_round_reports_witness:
  "\<exists>s' wait d'. registry_monitor_round (getProcessPath proc_env0 [] (Suc 3)) text_env0 120 rm_queued0
      registry_monitor0 = Inr (Some (Inr s'), wait, d') \<and>
    events s' = events registry_monitor0 @ concat (map (registry_reports text_env0 registry_monitor0) [reg_event0]) \<and>
    holds_registry_events d' [] \<and> wait \<in> {5, 65}"
proof (rule registry_round_reports)
  show "holds_registry_events rm_queued0 [reg_event0]" using rm_queued0_inv by (auto simp: holds_registry_events_def)
  have "registry_weight reg_event0 \<le> 327680" by (simp add: registry_event_size_def reg_event0_def sizeof_REGISTRY_EVENT_def)
  then show "drain_events registry_weight (unat EVENTS_BUFFER_SIZE) [reg_event0] = ([reg_event0], [])"
    by (simp add: EVENTS_BUFFER_SIZE_def)
qed (simp_all add: reg_event0_def registry_ready_def registry_terminated_def registry_monitor0_def procs0_def
      process_path_def)

text \<open>
  C32. Collecting modified files. When the client turns it on, it keeps track of them itself, and
  the driver, although it answers with an error, collects deleted files below the directory
  the client named, whole and behind the prefix of the kernel's names.
\<close>

theorem collecting_reaches_driver:
  assumes "fm_inv strict d C es" and "\<forall>n. granted d n" and "length buffer = 1024" and "0 \<in> set buffer"
    and "setMonitorModifiedFiles True buffer s = (bytes, s')"
  shows "monitorModifiedFiles s' \<and> (\<exists>d'. MessageCallback now (setup_message bytes) d =
      Inr (STATUS_INVALID_PARAMETER, [], None, d') \<and> bCollectDeletedFiles d' \<and>
    us_wf (logDirectory d') \<and> Chars (logDirectory d') = Chars nt_prefix @ c_str buffer)"
  by (rule setMonitorModifiedFiles_reaches_driver [OF assms])

theorem collecting_reaches_driver_witness:
  "monitorModifiedFiles (file_monitor0\<lparr>monitorModifiedFiles := True\<rparr>) \<and>
    (\<exists>d'. MessageCallback 120
        (setup_message (client_setup_message True (0x43 # 0x3A # replicate 1022 0))) loaded0 =
      Inr (STATUS_INVALID_PARAMETER, [], None, d') \<and> bCollectDeletedFiles d' \<and>
    us_wf (logDirectory d') \<and>
    Chars (logDirectory d') = Chars nt_prefix @ c_str (0x43 # 0x3A # replicate 1022 0))"
  by (rule collecting_reaches_driver [OF loaded0_inv, where s = file_monitor0])
     (simp_all add: setMonitorModifiedFiles_def)

end
